(* ===== verification/Prelude.thy ===== *)
theory Prelude
  imports Main "HOL-Library.Word" "HOL-Library.Monad_Syntax"
begin

text \<open>
  Shared vocabulary of the development: names for the machine types of the C and C++
  sources, the option-valued loop combinator used wherever the source loops over an
  index and may touch memory out of bounds, and the generic lemmas on lists, options
  and words that the component theories use.

  A result \<open>None\<close> of an option-valued definition always means that the C code has no
  defined behaviour on that input: a failed \<open>assert\<close>, a null pointer, or an index
  outside an array.
\<close>

unbundle bit_operations_syntax

type_synonym u8 = "8 word"
type_synonym u16 = "16 word"
type_synonym u32 = "32 word"
type_synonym u64 = "64 word"

subsection \<open>Loops that may fail\<close>

text \<open>A C \<open>for\<close> loop over a list of index values, with a body that may fail.\<close>

fun ofold :: "('s \<Rightarrow> 'a \<Rightarrow> 's option) \<Rightarrow> 's \<Rightarrow> 'a list \<Rightarrow> 's option" where
  "ofold f s [] = Some s"
| "ofold f s (x # xs) = (case f s x of None \<Rightarrow> None | Some s' \<Rightarrow> ofold f s' xs)"

lemma ofold_append: "ofold f s (xs @ ys) = Option.bind (ofold f s xs) (\<lambda>s'. ofold f s' ys)"
  by (induction xs arbitrary: s) (auto split: option.splits)

text \<open>
  Total correctness of a loop: an invariant indexed by the number of finished
  iterations that every iteration establishes for the next index.
\<close>

lemma ofold_upt_inv:
  assumes "I 0 s"
    and "\<And>i s. i < n \<Longrightarrow> I i s \<Longrightarrow> \<exists>s'. f s i = Some s' \<and> I (Suc i) s'"
  shows "\<exists>s'. ofold f s [0..<n] = Some s' \<and> I n s'"
  using assms(2)
proof (induction n)
  case 0
  with assms(1) show ?case by simp
next
  case (Suc n)
  then obtain s1 where s1: "ofold f s [0..<n] = Some s1" "I n s1"
    by (metis less_Suc_eq)
  from Suc.prems [OF lessI s1(2)] obtain s2 where "f s1 n = Some s2" "I (Suc n) s2"
    by blast
  with s1 show ?case by (simp add: ofold_append)
qed

subsection \<open>Positions in a list\<close>

fun index_of :: "'a \<Rightarrow> 'a list \<Rightarrow> nat" where
  "index_of a [] = 0"
| "index_of a (x # xs) = (if x = a then 0 else Suc (index_of a xs))"

lemma index_of_less: "a \<in> set xs \<Longrightarrow> index_of a xs < length xs"
  by (induction xs) auto

lemma nth_index_of [simp]: "a \<in> set xs \<Longrightarrow> xs ! index_of a xs = a"
  by (induction xs) auto

lemma nth_map_index_of: "a \<in> set xs \<Longrightarrow> map f xs ! index_of a xs = f a"
  by (simp add: index_of_less)

subsection \<open>Tables filled by a loop\<close>

lemma length_fold_update [simp]: "length (fold (\<lambda>i t. t[f i := g i]) is t) = length t"
  by (induction "is" arbitrary: t) simp_all

lemma fold_update_other:
  "k \<notin> f ` set is \<Longrightarrow> fold (\<lambda>i t. t[f i := g i]) is t ! k = t ! k"
  by (induction "is" arbitrary: t) auto

lemma fold_update_nth:
  "inj_on f (set is) \<Longrightarrow> i \<in> set is \<Longrightarrow> f i < length t \<Longrightarrow>
   fold (\<lambda>i t. t[f i := g i]) is t ! f i = g i"
proof (induction "is" arbitrary: t)
  case (Cons a "is")
  show ?case
  proof (cases "i \<in> set is")
    case True
    with Cons show ?thesis by (simp add: inj_on_insert)
  next
    case False
    with Cons.prems have "i = a" "f i \<notin> f ` set is"
      by (auto simp: inj_on_def)
    with Cons.prems show ?thesis by (simp add: fold_update_other)
  qed
qed simp

lemma fold_enumerate_upd:
  assumes f: "\<And>n m. f (n, p) m q = g n"
    and other: "\<And>p' n m. p' \<in> set ps \<Longrightarrow> p' \<noteq> p \<Longrightarrow> f (n, p') m q = m q"
    and p: "p \<in> set ps" "distinct ps"
  shows "fold f (enumerate k ps) m0 q = g (k + index_of p ps)"
proof -
  have skip: "fold f (enumerate k qs) m q = m q" if "set qs \<subseteq> set ps - {p}" for qs k m
    using that by (induction qs arbitrary: k m) (auto simp: other)
  have "fold f (enumerate k qs) m q = g (k + index_of p qs)"
    if "set qs \<subseteq> set ps" "p \<in> set qs" "distinct qs" for qs k m
    using that
  proof (induction qs arbitrary: k m)
    case (Cons r qs)
    show ?case
    proof (cases "r = p")
      case True
      with Cons.prems have "set qs \<subseteq> set ps - {p}" by auto
      with True show ?thesis by (simp add: skip f)
    next
      case False
      with Cons show ?thesis by simp
    qed
  qed simp
  with p show ?thesis by blast
qed

lemma distinct_concat_map:
  "distinct xs \<Longrightarrow> (\<And>x. x \<in> set xs \<Longrightarrow> distinct (f x)) \<Longrightarrow>
   (\<And>x y. x \<in> set xs \<Longrightarrow> y \<in> set xs \<Longrightarrow> x \<noteq> y \<Longrightarrow> set (f x) \<inter> set (f y) = {}) \<Longrightarrow>
   distinct (concat (map f xs))"
  by (induction xs) (fastforce)+

lemma sum_countdown: "2 * sum_list (map ((-) (k + d)) [k..<Suc (k + d)]) = d * (d + 1)" for k d :: nat
proof (induction d arbitrary: k)
  case (Suc d)
  have "[k..<Suc (k + Suc d)] = k # [Suc k..<Suc (Suc k + d)]"
    by (simp add: upt_conv_Cons del: upt_Suc)
  then have "2 * sum_list (map ((-) (k + Suc d)) [k..<Suc (k + Suc d)]) = 2 * Suc d + d * (d + 1)"
    using Suc.IH [of "Suc k"] by (simp del: upt_Suc)
  then show ?case by (simp only: algebra_simps) simp
qed simp

subsection \<open>Bits of bytes\<close>

lemma word_and_push_bit_one: "(x AND push_bit n 1 \<noteq> 0) = bit (x :: 'a::len word) n"
  by (simp add: bit_iff_and_push_bit_not_eq_0)

lemma unat_drop_bit_1_less: "x \<noteq> 0 \<Longrightarrow> unat (drop_bit 1 (x :: 'a::len word)) < unat x"
  by (simp add: unat_drop_bit_eq drop_bit_eq_div unat_div unat_gt_0)

lemma word_and_one: "(x AND 1 \<noteq> 0) = bit (x :: 'a::len word) 0"
  by (simp add: and_one_eq odd_iff_mod_2_eq_one bit_0)

lemma bit_unat_odd: "bit (b :: 'a::len word) n = odd (unat b div 2 ^ n)"
proof -
  have "bit (unat b) n = bit b n" by (simp add: bit_unsigned_iff)
  then show ?thesis by (simp add: bit_iff_odd)
qed

end
