(* ===== verification/GF256.thy ===== *)
theory GF256
  imports Prelude
begin

text \<open>
  The field with 256 elements used by the Reed-Solomon coder, as the table generator
  \<open>src/src/cc/qcrs/mktable_main.c\<close> computes it: \<open>mul2\<close>, the shift-and-add product
  \<open>mul\<close>, the power table \<open>pow2\<close> and the inverse table \<open>inv\<close>.  The theory shows that
  these byte operations make the bytes a field in which 2 generates the multiplicative
  group, and packages that field as a type \<open>gf\<close> of class \<^verbatim>\<open>field\<close>, so that the
  decoder proofs can use the library's algebra.
\<close>

subsection \<open>The generator's arithmetic\<close>

definition mul2 :: "u8 \<Rightarrow> u8" where
  "mul2 x = push_bit 1 x XOR (if x AND 0x80 \<noteq> 0 then 0x1d else 0)"

function mul_loop :: "u8 \<Rightarrow> u8 \<Rightarrow> u8 \<Rightarrow> u8" where
  "mul_loop x y z =
     (if x \<noteq> 0
      then mul_loop (drop_bit 1 x) (mul2 y) (if x AND 1 \<noteq> 0 then z XOR y else z)
      else z)"
  by pat_completeness auto
termination
  by (relation "measure (\<lambda>(x, y, z). unat x)") (use unat_drop_bit_1_less in auto)

declare mul_loop.simps [simp del]

definition mul :: "u8 \<Rightarrow> u8 \<Rightarrow> u8" where
  "mul x y = mul_loop x y 0"

text \<open>The loop that fills \<open>pow2[256]\<close>.\<close>

fun pow2_loop :: "nat \<Rightarrow> u8 \<Rightarrow> u8 list" where
  "pow2_loop 0 x = []"
| "pow2_loop (Suc k) x = x # pow2_loop k (mul2 x)"

definition pow2 :: "u8 list" where
  "pow2 = pow2_loop 256 1"

text \<open>The loop that fills \<open>inv[256]\<close>, which starts out zero.\<close>

definition inv_tab :: "u8 list" where
  "inv_tab = fold (\<lambda>i t. t[unat (pow2 ! i) := pow2 ! (255 - i)]) [0..<255] (replicate 256 0)"

subsection \<open>Multiplication by 2 is linear\<close>

lemma mul2_bit: "mul2 x = push_bit 1 x XOR (if bit x 7 then 0x1d else 0)"
proof -
  have "(0x80 :: u8) = push_bit 7 1" by simp
  then show ?thesis
    by (simp only: mul2_def word_and_push_bit_one)
qed

lemma mul2_xor: "mul2 (a XOR b) = mul2 a XOR mul2 b"
  unfolding mul2_bit push_bit_xor bit_xor_iff
  by (cases "bit a 7"; cases "bit b 7") (simp_all add: ac_simps)

lemma mul2_0 [simp]: "mul2 0 = 0"
  by (simp add: mul2_def)

lemma mul2_pow_xor: "(mul2 ^^ n) (a XOR b) = (mul2 ^^ n) a XOR (mul2 ^^ n) b"
  by (induction n) (simp_all add: mul2_xor)

lemma mul2_pow_0 [simp]: "(mul2 ^^ n) 0 = 0"
  by (induction n) simp_all

subsection \<open>The product as a sum over the bits of the first factor\<close>

primrec bsum :: "nat \<Rightarrow> u8 \<Rightarrow> u8 \<Rightarrow> u8" where
  "bsum 0 x y = 0"
| "bsum (Suc k) x y = bsum k x y XOR (if bit x k then (mul2 ^^ k) y else 0)"

lemma bsum_shift:
  "bsum (Suc k) x y = (if bit x 0 then y else 0) XOR bsum k (drop_bit 1 x) (mul2 y)"
  by (induction k) (auto simp: bit_drop_bit_eq funpow_swap1 xor.assoc)

lemma bsum_zero: "bsum k 0 y = 0"
  by (induction k) simp_all

lemma mul_loop_bsum:
  "drop_bit k x = 0 \<Longrightarrow> mul_loop x y z = z XOR bsum k x y"
proof (induction k arbitrary: x y z)
  case 0
  then show ?case by (simp add: mul_loop.simps)
next
  case (Suc k)
  show ?case
  proof (cases "x = 0")
    case True
    then show ?thesis by (subst mul_loop.simps) (simp add: bsum_zero)
  next
    case False
    have "drop_bit k (drop_bit 1 x) = 0"
      using Suc.prems by simp
    from Suc.IH [OF this] False show ?thesis
      by (subst mul_loop.simps)
        (simp add: word_and_one bsum_shift xor.assoc del: bsum.simps)
  qed
qed

lemma mul_bsum: "mul x y = bsum 8 x y"
proof -
  have "drop_bit 8 x = 0"
    by (rule bit_eqI) (auto simp: bit_drop_bit_eq dest: bit_imp_le_length)
  then show ?thesis
    by (simp add: mul_def mul_loop_bsum [of 8])
qed

lemma mul_xor_right: "mul x (a XOR b) = mul x a XOR mul x b"
proof -
  have "bsum k x (a XOR b) = bsum k x a XOR bsum k x b" for k
    by (induction k) (auto simp: mul2_pow_xor ac_simps)
  then show ?thesis by (simp add: mul_bsum)
qed

lemma mul_xor_left: "mul (a XOR b) y = mul a y XOR mul b y"
proof -
  have "bsum k (a XOR b) y = bsum k a y XOR bsum k b y" for k
    by (induction k) (auto simp: bit_xor_iff ac_simps)
  then show ?thesis by (simp add: mul_bsum)
qed

lemma mul_0_left [simp]: "mul 0 y = 0"
  by (simp add: mul_bsum bsum_zero)

lemma mul_0_right [simp]: "mul x 0 = 0"
proof -
  have "bsum k x 0 = 0" for k
    by (induction k) simp_all
  then show ?thesis by (simp add: mul_bsum)
qed

lemma mul_mul2_right: "mul x (mul2 y) = mul2 (mul x y)"
proof -
  have "bsum k x (mul2 y) = mul2 (bsum k x y)" for k
    by (induction k) (auto simp: mul2_xor funpow_swap1)
  then show ?thesis by (simp add: mul_bsum)
qed

lemma mul_mul2_pow_right: "mul x ((mul2 ^^ n) y) = (mul2 ^^ n) (mul x y)"
  by (induction n) (simp_all add: mul_mul2_right)

text \<open>The first eight powers of 2 are the bits of a byte, so a byte is its own product with 1.\<close>

lemma mul2_pow_1: "k < 8 \<Longrightarrow> (mul2 ^^ k) 1 = push_bit k 1"
proof -
  have "\<forall>k\<in>set [0..<8]. (mul2 ^^ k) 1 = push_bit k (1 :: u8)"
    by code_simp
  then show "k < 8 \<Longrightarrow> (mul2 ^^ k) 1 = push_bit k 1"
    by (simp only: set_upt) simp
qed

lemma bsum_one: "k \<le> 8 \<Longrightarrow> bsum k x 1 = take_bit k x"
proof (induction k)
  case (Suc k)
  have "take_bit k x XOR (if bit x k then push_bit k 1 else 0) = take_bit (Suc k) x"
    by (rule bit_eqI) (auto simp: bit_simps less_Suc_eq)
  with Suc show ?case by (auto simp: mul2_pow_1)
qed simp

lemma mul_1_right [simp]: "mul x 1 = x"
  by (simp add: mul_bsum bsum_one take_bit_word_eq_self)

subsection \<open>Commutativity and associativity\<close>

lemma mul_bsum_right: "bsum k x (mul y z) = mul y (bsum k x z)"
  by (induction k) (simp_all add: mul_xor_right mul_mul2_pow_right)

lemma mul_left_commute: "mul x (mul y z) = mul y (mul x z)"
  by (simp add: mul_bsum [of x] mul_bsum_right)

lemma mul_commute: "mul x y = mul y x"
  using mul_left_commute [of x y 1] by simp

lemma mul_assoc: "mul (mul x y) z = mul x (mul y z)"
  by (metis mul_commute mul_left_commute)

lemma mul_pow_left: "mul ((mul2 ^^ n) 1) y = (mul2 ^^ n) y"
  by (simp add: mul_commute [of _ y] mul_mul2_pow_right)

lemma mul_2_left: "mul 2 y = mul2 y"
  using mul_pow_left [of 1 y] by (simp add: mul2_def)

subsection \<open>Powers of 2 enumerate the nonzero bytes\<close>

lemma length_pow2_loop [simp]: "length (pow2_loop k x) = k"
  by (induction k arbitrary: x) simp_all

lemma nth_pow2_loop: "i < k \<Longrightarrow> pow2_loop k x ! i = (mul2 ^^ i) x"
proof (induction k arbitrary: x i)
  case (Suc k)
  then show ?case by (cases i) (simp_all add: funpow_swap1)
qed simp

lemma nth_pow2: "i < 256 \<Longrightarrow> pow2 ! i = (mul2 ^^ i) 1"
  by (simp add: pow2_def nth_pow2_loop)

lemma length_pow2 [simp]: "length pow2 = 256"
  by (simp add: pow2_def)

text \<open>
  The two assertions of the generator, \<open>pow2[1] == 2\<close> and \<open>pow2[255] == 1\<close>, and the
  fact that no smaller power is 1, all read off the table.
\<close>

lemma pow2_check: "pow2 = 1 # 2 # butlast (tl (tl pow2)) @ [1] \<and> list_all (\<lambda>x. x \<noteq> 1) (2 # butlast (tl (tl pow2)))"
  by code_simp

lemma pow2_shape:
  obtains xs where "pow2 = 1 # xs @ [1]" "list_all (\<lambda>x. x \<noteq> 1) xs" "length xs = 254"
proof -
  let ?xs = "2 # butlast (tl (tl pow2))"
  have eq: "pow2 = 1 # ?xs @ [1]" and "list_all (\<lambda>x. x \<noteq> 1) ?xs"
    using pow2_check by simp_all
  moreover have "length pow2 = length (1 # ?xs @ [1])"
    using eq by (rule arg_cong)
  then have "length ?xs = 254"
    by (simp only: length_pow2 length_Cons length_append list.size)
  ultimately show ?thesis using that by blast
qed

lemma mul2_pow_255: "(mul2 ^^ 255) 1 = 1"
proof -
  from pow2_shape obtain xs where xs: "pow2 = 1 # xs @ [1]" "length xs = 254" by blast
  have "pow2 ! 255 = 1"
    by (subst xs(1)) (simp add: nth_append xs(2))
  with nth_pow2 [of 255] show ?thesis by (simp only: numeral_less_iff less_num_simps if_True)
qed

lemma mul2_pow_order:
  assumes "0 < n" "n < 255"
  shows "(mul2 ^^ n) 1 \<noteq> 1"
proof -
  from pow2_shape obtain xs
    where xs: "pow2 = 1 # xs @ [1]" "list_all (\<lambda>x. x \<noteq> 1) xs" "length xs = 254" by blast
  have "pow2 ! n \<noteq> 1"
    using assms xs(2,3) by (subst xs(1), cases n) (auto simp: nth_append list_all_length)
  with assms nth_pow2 [of n] show ?thesis by simp
qed

lemma mul2_pow_add: "mul ((mul2 ^^ m) 1) ((mul2 ^^ n) 1) = (mul2 ^^ (m + n)) 1"
  by (simp add: mul_pow_left funpow_add)

lemma mul2_pow_comp: "(mul2 ^^ m) ((mul2 ^^ n) x) = (mul2 ^^ (m + n)) x"
  by (simp add: funpow_add)

lemma mul2_pow_mult_255: "(mul2 ^^ (255 * n)) 1 = 1"
proof (induction n)
  case (Suc n)
  have "(mul2 ^^ (255 * Suc n)) 1 = (mul2 ^^ (255 * n)) ((mul2 ^^ 255) 1)"
    by (simp only: mul2_pow_comp mult_Suc_right add.commute)
  with Suc show ?case by (simp only: mul2_pow_255)
qed simp

lemma mul2_pow_nonzero: "(mul2 ^^ n) 1 \<noteq> 0"
proof
  assume 0: "(mul2 ^^ n) 1 = 0"
  have "255 * n = 254 * n + n" by simp
  then have "(mul2 ^^ (254 * n)) ((mul2 ^^ n) 1) = 1"
    by (metis mul2_pow_comp mul2_pow_mult_255)
  with 0 show False by simp
qed

lemma mul2_pow_less:
  assumes "i < j" "j < 255"
  shows "(mul2 ^^ i) 1 \<noteq> (mul2 ^^ j) 1"
proof
  assume eq: "(mul2 ^^ i) 1 = (mul2 ^^ j) 1"
  have 1: "255 = (255 - i) + i" and 2: "(255 - i) + j = (j - i) + 255"
    using assms by simp_all
  have "(mul2 ^^ (255 - i)) ((mul2 ^^ i) 1) = 1"
    by (subst mul2_pow_comp) (simp only: 1 [symmetric] mul2_pow_255)
  moreover have "(mul2 ^^ (255 - i)) ((mul2 ^^ j) 1) = (mul2 ^^ (j - i)) 1"
    by (subst mul2_pow_comp) (simp only: 2 mul2_pow_comp [symmetric] mul2_pow_255)
  ultimately have "(mul2 ^^ (j - i)) 1 = 1"
    by (simp only: eq)
  moreover have "0 < j - i" "j - i < 255"
    using assms by simp_all
  ultimately show False
    using mul2_pow_order by blast
qed

lemma mul2_pow_inj: "(mul2 ^^ i) 1 = (mul2 ^^ j) 1 \<Longrightarrow> i < 255 \<Longrightarrow> j < 255 \<Longrightarrow> i = j"
  by (metis linorder_neqE_nat mul2_pow_less)

lemma nonzero_is_power:
  assumes "x \<noteq> (0 :: u8)"
  obtains i where "i < 255" "x = (mul2 ^^ i) 1"
proof -
  let ?S = "(\<lambda>i. (mul2 ^^ i) 1) ` {..<255}"
  have "card ?S = 255"
    by (subst card_image) (auto intro!: inj_onI dest: mul2_pow_inj)
  moreover have "card (- {0 :: u8}) = 255"
    by (simp add: Compl_eq_Diff_UNIV card_Diff_subset card_word)
  moreover have "?S \<subseteq> - {0}"
    by (auto simp: mul2_pow_nonzero)
  ultimately have "?S = - {0}"
    by (intro card_subset_eq) auto
  with assms that show ?thesis by blast
qed

subsection \<open>The inverse table\<close>

lemma length_inv_tab [simp]: "length inv_tab = 256"
  by (simp add: inv_tab_def)

lemma inj_on_pow2_index: "inj_on (\<lambda>i. unat (pow2 ! i)) (set [0..<255])"
  by (rule inj_onI) (auto simp: nth_pow2 word_unat_eq_iff [symmetric] simp del: upt_rec_numeral intro: mul2_pow_inj)

lemma inv_tab_pow2:
  assumes "i < 255"
  shows "inv_tab ! unat (pow2 ! i) = pow2 ! (255 - i)"
proof -
  have "unat (pow2 ! i) < 256"
    using unsigned_less [of "pow2 ! i"] by simp
  with assms show ?thesis
    using fold_update_nth [OF inj_on_pow2_index, of i "replicate 256 0" "\<lambda>i. pow2 ! (255 - i)"]
    by (simp add: inv_tab_def del: upt_rec_numeral)
qed

lemma inv_tab_0: "inv_tab ! 0 = 0"
proof -
  have "0 \<notin> (\<lambda>i. unat (pow2 ! i)) ` set [0..<255]"
    by (auto simp: nth_pow2 mul2_pow_nonzero unat_eq_zero simp del: upt_rec_numeral)
  then show ?thesis
    by (simp add: inv_tab_def fold_update_other del: upt_rec_numeral)
qed

text \<open>The generator's last assertion on the inverses: \<open>mul(x, inv[x]) == 1\<close>.\<close>

lemma mul_inv_tab:
  assumes "x \<noteq> 0"
  shows "mul x (inv_tab ! unat x) = 1"
proof -
  from nonzero_is_power [OF assms] obtain i where i: "i < 255" "x = (mul2 ^^ i) 1" .
  then have x: "x = pow2 ! i" by (simp add: nth_pow2)
  have "inv_tab ! unat x = (mul2 ^^ (255 - i)) 1"
    using inv_tab_pow2 [OF i(1)] nth_pow2 [of "255 - i"] by (simp add: x)
  moreover have "i + (255 - i) = 255" using i(1) by simp
  ultimately show ?thesis
    using i(2) by (simp only: mul2_pow_add mul2_pow_255)
qed

subsection \<open>The field as a type\<close>

typedef gf = "UNIV :: u8 set"
  morphisms byte_of gf_of by simp

setup_lifting type_definition_gf

instantiation gf :: field
begin

lift_definition zero_gf :: gf is "0" .
lift_definition one_gf :: gf is "1" .
lift_definition plus_gf :: "gf \<Rightarrow> gf \<Rightarrow> gf" is "\<lambda>x y. x XOR y" .
lift_definition minus_gf :: "gf \<Rightarrow> gf \<Rightarrow> gf" is "\<lambda>x y. x XOR y" .
lift_definition uminus_gf :: "gf \<Rightarrow> gf" is "\<lambda>x. x" .
lift_definition times_gf :: "gf \<Rightarrow> gf \<Rightarrow> gf" is mul .
lift_definition inverse_gf :: "gf \<Rightarrow> gf" is "\<lambda>x. inv_tab ! unat x" .
lift_definition divide_gf :: "gf \<Rightarrow> gf \<Rightarrow> gf" is "\<lambda>x y. mul x (inv_tab ! unat y)" .

instance
proof
  fix a b c :: gf
  show "a + b + c = a + (b + c)" by transfer (simp add: xor.assoc)
  show "a + b = b + a" by transfer (simp add: xor.commute)
  show "0 + a = a" by transfer simp
  show "- a + a = 0" by transfer simp
  show "a - b = a + - b" by transfer simp
  show "a * b * c = a * (b * c)" by transfer (rule mul_assoc)
  show "a * b = b * a" by transfer (rule mul_commute)
  show "1 * a = a" by transfer (simp add: mul_commute [of 1])
  show "(a + b) * c = a * c + b * c" by transfer (rule mul_xor_left)
  show "(0 :: gf) \<noteq> 1" by transfer simp
  show "a \<noteq> 0 \<Longrightarrow> inverse a * a = 1" by transfer (simp add: mul_commute mul_inv_tab)
  show "a div b = a * inverse b" by transfer simp
  show "inverse (0 :: gf) = 0" by transfer (simp add: inv_tab_0)
qed

end

lemma gf_add_self [simp]: "(a :: gf) + a = 0"
  by transfer simp

lemma gf_uminus [simp]: "- (a :: gf) = a"
  by transfer simp

lemma gf_diff [simp]: "(a :: gf) - b = a + b"
  by transfer simp

lemma gf_add_self_left [simp]: "(a :: gf) + (a + b) = b"
  by transfer simp

lemma gf_eq_iff: "((a :: gf) = b) = (a + b = 0)"
  by (metis gf_add_self gf_add_self_left add.right_neutral)

lemma gf_of_xor: "gf_of (a XOR b) = gf_of a + gf_of b"
  by transfer simp

lemma gf_of_mul: "gf_of (mul a b) = gf_of a * gf_of b"
  by transfer simp

lemma gf_of_0: "gf_of 0 = 0"
  by transfer simp

lemma gf_of_1: "gf_of 1 = 1"
  by transfer simp

lemma gf_of_mul2: "gf_of (mul2 a) = gf_of 2 * gf_of a"
  by (simp flip: gf_of_mul add: mul_2_left)

lemma gf_of_inv_tab: "gf_of (inv_tab ! unat a) = inverse (gf_of a)"
  by transfer simp

lemma gf_of_inject [simp]: "(gf_of a = gf_of b) = (a = b)"
  by transfer simp

lemma gf_of_mul2_pow: "gf_of ((mul2 ^^ n) a) = gf_of 2 ^ n * gf_of a"
  by (induction n) (simp_all add: gf_of_mul2 mult.assoc)

lemma gf_of_pow2: "i < 256 \<Longrightarrow> gf_of (pow2 ! i) = gf_of 2 ^ i"
  by (simp add: nth_pow2 gf_of_mul2_pow gf_of_1)

lemma gf2_pow_255: "gf_of 2 ^ 255 = 1"
  using gf_of_mul2_pow [of 255 1] by (simp only: mul2_pow_255 gf_of_1 mult_1_right)

lemma gf2_nonzero [simp]: "gf_of 2 \<noteq> 0"
  by transfer simp

lemma gf2_pow_inj: "gf_of 2 ^ i = gf_of 2 ^ j \<Longrightarrow> i < 255 \<Longrightarrow> j < 255 \<Longrightarrow> i = j"
  using gf_of_mul2_pow [of i 1] gf_of_mul2_pow [of j 1]
  by (metis gf_of_1 gf_of_inject mult.right_neutral mul2_pow_inj)

lemmas gf_of_simps = gf_of_xor gf_of_mul gf_of_mul2 gf_of_0 gf_of_1 gf_of_inv_tab

end
