(* ===== verification/RSDefs.thy ===== *)
theory RSDefs
  imports GF256
begin

text \<open>
  The Reed-Solomon coder of \<open>src/src/cc/qcrs\<close>: the vector primitives of \<open>prim.h\<close>, the
  recovery tables that \<open>mktable_main.c\<close> prints into \<open>rs_table.c\<close>, the encoder of
  \<open>encode.c\<close> and the decoders of \<open>decode.c\<close>, for every build variant the preprocessor
  selects.

  A \<open>v16\<close> is the list of its 16 byte lanes, a block is a list of \<open>v16\<close>, and
  \<open>void **data\<close> is a list of block pointers, \<open>None\<close> being the null pointer.  C \<open>int\<close>s
  are integers; every array access is checked, and \<open>None\<close> is returned where the C code
  would index outside an array, follow a null pointer or fail an \<open>assert\<close>.  Distinct
  entries of \<open>data\<close> are distinct memory, as the callers guarantee.
\<close>

type_synonym v16 = "u8 list"
type_synonym block = "v16 list"
type_synonym blocks = "block option list"

subsection \<open>Build variants\<close>

text \<open>
  \<open>NEON\<close>, \<open>SSSE3\<close> and \<open>SSE2\<close> are the \<open>LIBRS_USE_...\<close> macros of
  \<open>qcrs/CMakeLists.txt\<close>; \<open>SSSE3_CLANG\<close> is the second one compiled by clang; the last two
  have none of the macros, with a compiler that compares vectors (gcc 4.7 or later, clang)
  and with an older one.
\<close>

datatype rs_build = NEON | SSSE3 | SSSE3_CLANG | SSE2 | GNUC_VECTOR | PORTABLE

subsection \<open>Vector primitives (prim.h)\<close>

definition VEC16 :: "u8 \<Rightarrow> v16" where
  "VEC16 x = replicate 16 x"

definition vxor :: "v16 \<Rightarrow> v16 \<Rightarrow> v16" where
  "vxor a b = map2 (XOR) a b"

definition vand :: "v16 \<Rightarrow> v16 \<Rightarrow> v16" where
  "vand a b = map2 (AND) a b"

definition vadd :: "v16 \<Rightarrow> v16 \<Rightarrow> v16" where
  "vadd a b = map2 (+) a b"

text \<open>
  \<open>mask\<close>: the signed comparison of NEON and SSE2 with zero, the comparison
  \<open>VEC16(128) > v\<close> on unsigned lanes, and the lane loop.
\<close>

fun mask :: "rs_build \<Rightarrow> v16 \<Rightarrow> v16" where
  "mask NEON v = map (\<lambda>b. if sint b < 0 then 0xff else 0) v"
| "mask SSE2 v = map (\<lambda>b. if 0 > sint b then 0xff else 0) v"
| "mask SSSE3 v = map (\<lambda>b. if 0 > sint b then 0xff else 0) v"
| "mask SSSE3_CLANG v = map (\<lambda>b. if 128 > b then 0xff else 0) v"
| "mask GNUC_VECTOR v = map (\<lambda>b. if 128 > b then 0xff else 0) v"
| "mask PORTABLE v = map (\<lambda>b. if b < 128 then 0 else 0xff) v"

definition v16_mul2 :: "rs_build \<Rightarrow> v16 \<Rightarrow> v16" where
  "v16_mul2 bld v = vxor (vadd v v) (vand (mask bld v) (VEC16 0x1d))"

subsection \<open>Recovery tables (mktable\_main.c)\<close>

definition RS_LIB_MAX_DATA_BLOCKS :: nat where
  "RS_LIB_MAX_DATA_BLOCKS = 64"

definition mlo :: "u8 list list" where
  "mlo = map (\<lambda>i. map (\<lambda>j. mul (of_nat i) (of_nat j)) [0..<16]) [0..<256]"

definition mhi :: "u8 list list" where
  "mhi = map (\<lambda>i. map (\<lambda>j. mul (of_nat i) (push_bit 4 (of_nat j))) [0..<16]) [0..<256]"

definition rs_nibmul :: "(v16 \<times> v16) list" where
  "rs_nibmul = map (\<lambda>i. (mlo ! i, mhi ! i)) [0..<256]"

definition rs_r1P :: "u8 list" where
  "rs_r1P = map (\<lambda>x. 1) [0..<RS_LIB_MAX_DATA_BLOCKS]"

definition rs_r1Q :: "u8 list" where
  "rs_r1Q = map (\<lambda>x. pow2 ! (255 - x)) [0..<RS_LIB_MAX_DATA_BLOCKS]"

definition rs_r1R :: "u8 list" where
  "rs_r1R = map (\<lambda>x. pow2 ! (255 - 2 * x)) [0..<RS_LIB_MAX_DATA_BLOCKS]"

text \<open>The pairs and triples in the order of the generator's nested loops.\<close>

definition r2_pairs :: "(nat \<times> nat) list" where
  "r2_pairs = concat (map (\<lambda>x. map (\<lambda>y. (x, y)) [x + 1..<RS_LIB_MAX_DATA_BLOCKS])
                [0..<RS_LIB_MAX_DATA_BLOCKS])"

definition r3_triples :: "(nat \<times> nat \<times> nat) list" where
  "r3_triples =
     concat (map (\<lambda>x. concat (map (\<lambda>y. map (\<lambda>z. (x, y, z)) [y + 1..<RS_LIB_MAX_DATA_BLOCKS])
       [x + 1..<RS_LIB_MAX_DATA_BLOCKS])) [0..<RS_LIB_MAX_DATA_BLOCKS])"

fun r2PQ_row :: "nat \<times> nat \<Rightarrow> u8 list" where
  "r2PQ_row (x, y) =
     (let z = inv_tab ! unat (pow2 ! x XOR pow2 ! y)
      in [mul z (pow2 ! y), z, mul z (pow2 ! x), z])"

fun r2PR_row :: "nat \<times> nat \<Rightarrow> u8 list" where
  "r2PR_row (x, y) =
     (let z = inv_tab ! unat (pow2 ! (2 * x) XOR pow2 ! (2 * y))
      in [mul z (pow2 ! (2 * y)), z, mul z (pow2 ! (2 * x)), z])"

fun r2QR_row :: "nat \<times> nat \<Rightarrow> u8 list" where
  "r2QR_row (x, y) =
     (let z = inv_tab ! unat (pow2 ! x XOR pow2 ! y)
      in [mul z (pow2 ! (y - x)), mul z (pow2 ! (255 - x)),
          mul z (pow2 ! (255 + x - y)), mul z (pow2 ! (255 - y))])"

fun r3_row :: "nat \<times> nat \<times> nat \<Rightarrow> u8 list" where
  "r3_row (x, y, z) =
     (let det = mul (pow2 ! x XOR pow2 ! y)
                  (mul (pow2 ! x XOR pow2 ! z) (pow2 ! y XOR pow2 ! z));
          d = inv_tab ! unat det
      in [mul d (pow2 ! (y + 2 * z) XOR pow2 ! (z + 2 * y)),
          mul d (pow2 ! (2 * y) XOR pow2 ! (2 * z)),
          mul d (pow2 ! y XOR pow2 ! z),
          mul d (pow2 ! (x + 2 * z) XOR pow2 ! (z + 2 * x)),
          mul d (pow2 ! (2 * x) XOR pow2 ! (2 * z)),
          mul d (pow2 ! x XOR pow2 ! z),
          mul d (pow2 ! (x + 2 * y) XOR pow2 ! (y + 2 * x)),
          mul d (pow2 ! (2 * x) XOR pow2 ! (2 * y)),
          mul d (pow2 ! x XOR pow2 ! y)])"

definition rs_r2PQ :: "u8 list list" where
  "rs_r2PQ = map r2PQ_row r2_pairs"

definition rs_r2PR :: "u8 list list" where
  "rs_r2PR = map r2PR_row r2_pairs"

definition rs_r2QR :: "u8 list list" where
  "rs_r2QR = map r2QR_row r2_pairs"

definition rs_r3 :: "u8 list list" where
  "rs_r3 = map r3_row r3_triples"

text \<open>
  The maps from a set of missing blocks to its row: \<open>memset\<close> to all ones, then the
  counter \<open>n\<close> stored under every order of the pair or triple.  The entries are 16 bits
  wide.
\<close>

definition rs_r2map :: "nat \<times> nat \<Rightarrow> u16" where
  "rs_r2map =
     fold (\<lambda>(n, (x, y)) m. m((x, y) := of_nat n, (y, x) := of_nat n))
       (enumerate 0 r2_pairs) (\<lambda>_. 0xffff)"

definition rs_r3map :: "nat \<times> nat \<times> nat \<Rightarrow> u16" where
  "rs_r3map =
     fold (\<lambda>(n, (x, y, z)) m.
         m((x, y, z) := of_nat n, (x, z, y) := of_nat n, (y, x, z) := of_nat n,
           (y, z, x) := of_nat n, (z, x, y) := of_nat n, (z, y, x) := of_nat n))
       (enumerate 0 r3_triples) (\<lambda>_. 0xffff)"

text \<open>Array reads with the bounds of the C arrays.\<close>

definition tab1 :: "u8 list \<Rightarrow> int \<Rightarrow> u8 option" where
  "tab1 t x = (if 0 \<le> x \<and> x < int (length t) then Some (t ! nat x) else None)"

definition in_map :: "int \<Rightarrow> bool" where
  "in_map x \<longleftrightarrow> 0 \<le> x \<and> x < int RS_LIB_MAX_DATA_BLOCKS"

definition tab2 :: "u8 list list \<Rightarrow> int \<Rightarrow> int \<Rightarrow> u8 list option" where
  "tab2 t x y =
     (if in_map x \<and> in_map y
      then let k = unat (rs_r2map (nat x, nat y)) in if k < length t then Some (t ! k) else None
      else None)"

definition tab3 :: "u8 list list \<Rightarrow> int \<Rightarrow> int \<Rightarrow> int \<Rightarrow> u8 list option" where
  "tab3 t x y z =
     (if in_map x \<and> in_map y \<and> in_map z
      then let k = unat (rs_r3map (nat x, nat y, nat z))
           in if k < length t then Some (t ! k) else None
      else None)"

subsection \<open>Access to the blocks\<close>

definition get :: "blocks \<Rightarrow> int \<Rightarrow> nat \<Rightarrow> v16 option" where
  "get data j i =
     (if 0 \<le> j \<and> j < int (length data)
      then case data ! nat j of
             None \<Rightarrow> None
           | Some b \<Rightarrow> if i < length b then Some (b ! i) else None
      else None)"

definition put :: "blocks \<Rightarrow> int \<Rightarrow> nat \<Rightarrow> v16 \<Rightarrow> blocks option" where
  "put data j i v =
     (if 0 \<le> j \<and> j < int (length data)
      then case data ! nat j of
             None \<Rightarrow> None
           | Some b \<Rightarrow> if i < length b then Some (data[nat j := Some (b[i := v])]) else None
      else None)"

definition ptr :: "blocks \<Rightarrow> int \<Rightarrow> bool option" where
  "ptr data j =
     (if 0 \<le> j \<and> j < int (length data) then Some (data ! nat j \<noteq> None) else None)"

text \<open>\<open>memset(data[x], 0, blocksize)\<close>, in bytes.\<close>

fun zero_bytes :: "nat \<Rightarrow> block \<Rightarrow> block" where
  "zero_bytes n [] = []"
| "zero_bytes n (v # vs) = (replicate (min n 16) 0 @ drop n v) # zero_bytes (n - 16) vs"

definition memset0 :: "blocks \<Rightarrow> int \<Rightarrow> int \<Rightarrow> blocks option" where
  "memset0 data x blocksize =
     (if 0 \<le> x \<and> x < int (length data)
      then case data ! nat x of
             None \<Rightarrow> None
           | Some b \<Rightarrow>
               if 0 \<le> blocksize \<and> blocksize \<le> 16 * int (length b)
               then Some (data[nat x := Some (zero_bytes (nat blocksize) b)]) else None
      else None)"

text \<open>
  The loop bound \<open>blocksize/sizeof(v16)\<close>: \<open>sizeof\<close> is an unsigned 64-bit value, so
  \<open>blocksize\<close> is converted to one first.
\<close>

definition nvec :: "int \<Rightarrow> nat" where
  "nvec blocksize = nat ((blocksize mod 2 ^ 64) div 16)"

text \<open>The index values of \<open>for (j = n-2; j >= 0; j--)\<close>.\<close>

definition down_from :: "int \<Rightarrow> int list" where
  "down_from n = map int (rev [0..<nat (n - 1)])"

subsection \<open>Encoder (encode.c)\<close>

definition encode_step :: "rs_build \<Rightarrow> int \<Rightarrow> nat \<Rightarrow> blocks \<Rightarrow> int \<Rightarrow> blocks option" where
  "encode_step bld n i data j =
     do { p \<leftarrow> get data n i;
          d \<leftarrow> get data j i;
          data \<leftarrow> put data n i (vxor p d);
          q \<leftarrow> get data (n + 1) i;
          d \<leftarrow> get data j i;
          data \<leftarrow> put data (n + 1) i (vxor (v16_mul2 bld q) d);
          r \<leftarrow> get data (n + 2) i;
          d \<leftarrow> get data j i;
          put data (n + 2) i (vxor (v16_mul2 bld (v16_mul2 bld r)) d) }"

definition encode_col :: "rs_build \<Rightarrow> int \<Rightarrow> blocks \<Rightarrow> nat \<Rightarrow> blocks option" where
  "encode_col bld n data i =
     do { d \<leftarrow> get data (n - 1) i;
          data \<leftarrow> put data (n + 2) i d;
          data \<leftarrow> put data (n + 1) i d;
          data \<leftarrow> put data n i d;
          ofold (encode_step bld n i) data (down_from n) }"

definition rs_encode :: "rs_build \<Rightarrow> int \<Rightarrow> int \<Rightarrow> blocks \<Rightarrow> blocks option" where
  "rs_encode bld nblocks blocksize data =
     (if \<not> nblocks > 3 then None
      else if blocksize mod 16 \<noteq> 0 then None
      else let n = nblocks - 3
           in do { _ \<leftarrow> ptr data n;
                   _ \<leftarrow> ptr data (n + 1);
                   _ \<leftarrow> ptr data (n + 2);
                   ofold (encode_col bld n) data [0..<nvec blocksize] })"

subsection \<open>Syndromes and multiplication by a constant (decode.c)\<close>

definition P :: "blocks \<Rightarrow> int \<Rightarrow> nat \<Rightarrow> v16 option" where
  "P data n i =
     do { p \<leftarrow> get data (n - 1) i;
          ofold (\<lambda>p j. do { d \<leftarrow> get data j i; Some (vxor p d) }) p (down_from n) }"

definition Q :: "rs_build \<Rightarrow> blocks \<Rightarrow> int \<Rightarrow> nat \<Rightarrow> v16 option" where
  "Q bld data n i =
     do { q \<leftarrow> get data (n - 1) i;
          ofold (\<lambda>q j. do { d \<leftarrow> get data j i; Some (vxor (v16_mul2 bld q) d) }) q (down_from n) }"

definition R :: "rs_build \<Rightarrow> blocks \<Rightarrow> int \<Rightarrow> nat \<Rightarrow> v16 option" where
  "R bld data n i =
     do { r \<leftarrow> get data (n - 1) i;
          ofold (\<lambda>r j. do { d \<leftarrow> get data j i;
                            Some (vxor (v16_mul2 bld (v16_mul2 bld r)) d) }) r (down_from n) }"

text \<open>\<open>vtbl2_u8\<close> gives 0 for an index above 15, \<open>pshufb\<close> for one with its top bit set.\<close>

definition vtbl2 :: "v16 \<Rightarrow> v16 \<Rightarrow> v16" where
  "vtbl2 t v = map (\<lambda>i. if unat i < 16 then t ! unat i else 0) v"

definition pshufb128 :: "v16 \<Rightarrow> v16 \<Rightarrow> v16" where
  "pshufb128 t v = map (\<lambda>i. if bit i 7 then 0 else t ! unat (i AND 0x0f)) v"

text \<open>\<open>psrawi128(v, 4)\<close>: arithmetic shift of the little-endian 16-bit lanes.\<close>

fun psraw4 :: "v16 \<Rightarrow> v16" where
  "psraw4 (a # b # v) =
     (let w = signed_drop_bit 4 (word_cat b a :: u16)
      in ucast w # ucast (drop_bit 8 w) # psraw4 v)"
| "psraw4 v = v"

function mulby_loop :: "rs_build \<Rightarrow> u8 \<Rightarrow> v16 \<Rightarrow> v16 \<Rightarrow> v16" where
  "mulby_loop bld x v vv =
     (if x \<noteq> 0
      then mulby_loop bld (drop_bit 1 x) (v16_mul2 bld v) (if x AND 1 \<noteq> 0 then vxor vv v else vv)
      else vv)"
  by pat_completeness auto
termination
  by (relation "measure (\<lambda>(bld, x, v, vv). unat x)") (use unat_drop_bit_1_less in auto)

declare mulby_loop.simps [simp del]

definition mulby_neon :: "u8 \<Rightarrow> v16 \<Rightarrow> v16" where
  "mulby_neon x v =
     (let lo = vand v (VEC16 0x0f);
          hi = map (drop_bit 4) v
      in vxor (vtbl2 (fst (rs_nibmul ! unat x)) lo) (vtbl2 (snd (rs_nibmul ! unat x)) hi))"

definition mulby_ssse3 :: "u8 \<Rightarrow> v16 \<Rightarrow> v16" where
  "mulby_ssse3 x v =
     (let lo = vand v (VEC16 0x0f);
          hi = vand (psraw4 v) (VEC16 0x0f)
      in vxor (pshufb128 (fst (rs_nibmul ! unat x)) lo) (pshufb128 (snd (rs_nibmul ! unat x)) hi))"

fun mulby :: "rs_build \<Rightarrow> u8 \<Rightarrow> v16 \<Rightarrow> v16" where
  "mulby NEON x v = mulby_neon x v"
| "mulby SSSE3 x v = mulby_ssse3 x v"
| "mulby SSSE3_CLANG x v = mulby_ssse3 x v"
| "mulby bld x v = mulby_loop bld x v (VEC16 0)"

subsection \<open>Decoders (decode.c)\<close>

definition rs_decode1p :: "int \<Rightarrow> int \<Rightarrow> int \<Rightarrow> blocks \<Rightarrow> blocks option" where
  "rs_decode1p n blocksize x data =
     do { data \<leftarrow> memset0 data x blocksize;
          ofold (\<lambda>data i. do { p \<leftarrow> P data n i;
                               d \<leftarrow> get data n i;
                               put data x i (vxor p d) })
            data [0..<nvec blocksize] }"

definition rs_decode1q :: "rs_build \<Rightarrow> int \<Rightarrow> int \<Rightarrow> int \<Rightarrow> blocks \<Rightarrow> blocks option" where
  "rs_decode1q bld n blocksize x data =
     do { data \<leftarrow> memset0 data x blocksize;
          ofold (\<lambda>data i. do { c \<leftarrow> tab1 rs_r1Q x;
                               q \<leftarrow> Q bld data n i;
                               d \<leftarrow> get data (n + 1) i;
                               put data x i (mulby bld c (vxor q d)) })
            data [0..<nvec blocksize] }"

definition rs_decode1r :: "rs_build \<Rightarrow> int \<Rightarrow> int \<Rightarrow> int \<Rightarrow> blocks \<Rightarrow> blocks option" where
  "rs_decode1r bld n blocksize x data =
     do { data \<leftarrow> memset0 data x blocksize;
          ofold (\<lambda>data i. do { c \<leftarrow> tab1 rs_r1R x;
                               r \<leftarrow> R bld data n i;
                               d \<leftarrow> get data (n + 2) i;
                               put data x i (mulby bld c (vxor r d)) })
            data [0..<nvec blocksize] }"

definition rs_encode_if_requested :: "rs_build \<Rightarrow> int \<Rightarrow> int \<Rightarrow> blocks \<Rightarrow> blocks option" where
  "rs_encode_if_requested bld nblocks blocksize data =
     do { r \<leftarrow> ptr data (nblocks - 1);
          if \<not> r then Some data else
     do { q \<leftarrow> ptr data (nblocks - 2);
          if \<not> q then Some data else
     do { p \<leftarrow> ptr data (nblocks - 3);
          if \<not> p then Some data else rs_encode bld nblocks blocksize data }}}"

definition rs_decode1 :: "rs_build \<Rightarrow> int \<Rightarrow> int \<Rightarrow> int \<Rightarrow> blocks \<Rightarrow> blocks option" where
  "rs_decode1 bld nblocks blocksize x data =
     (let n = nblocks - 3
      in if x \<ge> n then rs_encode_if_requested bld nblocks blocksize data
         else rs_decode1p n blocksize x data)"

text \<open>
  The inlined syndrome loops keep the block pointer \<open>pd\<close> across iterations of the outer
  loop: it is part of the loop state.  \<open>while (data <= --pd)\<close> visits the blocks below
  \<open>pd\<close> from right to left.
\<close>

definition decode2pq_col ::
    "rs_build \<Rightarrow> int \<Rightarrow> int \<Rightarrow> int \<Rightarrow> u8 list \<Rightarrow> blocks \<times> int \<Rightarrow> nat \<Rightarrow> (blocks \<times> int) option" where
  "decode2pq_col bld n x y c s i =
     do { let (data, pd) = s;
          d0 \<leftarrow> get data pd i;
          (pp, qq) \<leftarrow> ofold (\<lambda>(pp, qq) j. do { d \<leftarrow> get data j i;
                                               Some (vxor pp d, vxor (v16_mul2 bld qq) d) })
                       (d0, d0) (down_from (pd + 1));
          let pd = n + 1;
          d \<leftarrow> get data pd i;
          let qq = vxor qq d;
          let pd = pd - 1;
          d \<leftarrow> get data pd i;
          let pp = vxor pp d;
          let pd = pd - 1;
          data \<leftarrow> put data x i (vxor (mulby bld (c ! 0) pp) (mulby bld (c ! 1) qq));
          data \<leftarrow> put data y i (vxor (mulby bld (c ! 2) pp) (mulby bld (c ! 3) qq));
          Some (data, pd) }"

definition rs_decode2pq :: "rs_build \<Rightarrow> int \<Rightarrow> int \<Rightarrow> int \<Rightarrow> int \<Rightarrow> blocks \<Rightarrow> blocks option" where
  "rs_decode2pq bld n blocksize x y data =
     do { c \<leftarrow> tab2 rs_r2PQ x y;
          data \<leftarrow> memset0 data x blocksize;
          data \<leftarrow> memset0 data y blocksize;
          s \<leftarrow> ofold (decode2pq_col bld n x y c) (data, n - 1) [0..<nvec blocksize];
          Some (fst s) }"

definition decode2pr_col ::
    "rs_build \<Rightarrow> int \<Rightarrow> int \<Rightarrow> int \<Rightarrow> u8 list \<Rightarrow> blocks \<times> int \<Rightarrow> nat \<Rightarrow> (blocks \<times> int) option" where
  "decode2pr_col bld n x y c s i =
     do { let (data, pd) = s;
          d0 \<leftarrow> get data pd i;
          (pp, rr) \<leftarrow> ofold (\<lambda>(pp, rr) j. do { d \<leftarrow> get data j i;
                         Some (vxor pp d, vxor (v16_mul2 bld (v16_mul2 bld rr)) d) })
                       (d0, d0) (down_from (pd + 1));
          let pd = n + 2;
          d \<leftarrow> get data pd i;
          let rr = vxor rr d;
          let pd = pd - 1;
          let pd = pd - 1;
          d \<leftarrow> get data pd i;
          let pp = vxor pp d;
          let pd = pd - 1;
          data \<leftarrow> put data x i (vxor (mulby bld (c ! 0) pp) (mulby bld (c ! 1) rr));
          data \<leftarrow> put data y i (vxor (mulby bld (c ! 2) pp) (mulby bld (c ! 3) rr));
          Some (data, pd) }"

definition rs_decode2pr :: "rs_build \<Rightarrow> int \<Rightarrow> int \<Rightarrow> int \<Rightarrow> int \<Rightarrow> blocks \<Rightarrow> blocks option" where
  "rs_decode2pr bld n blocksize x y data =
     do { c \<leftarrow> tab2 rs_r2PR x y;
          data \<leftarrow> memset0 data x blocksize;
          data \<leftarrow> memset0 data y blocksize;
          s \<leftarrow> ofold (decode2pr_col bld n x y c) (data, n - 1) [0..<nvec blocksize];
          Some (fst s) }"

definition decode2qr_col ::
    "rs_build \<Rightarrow> int \<Rightarrow> int \<Rightarrow> int \<Rightarrow> u8 list \<Rightarrow> blocks \<times> int \<Rightarrow> nat \<Rightarrow> (blocks \<times> int) option" where
  "decode2qr_col bld n x y c s i =
     do { let (data, pd) = s;
          d0 \<leftarrow> get data pd i;
          (qq, rr) \<leftarrow> ofold (\<lambda>(qq, rr) j. do { d \<leftarrow> get data j i;
                         Some (vxor (v16_mul2 bld qq) d,
                               vxor (v16_mul2 bld (v16_mul2 bld rr)) d) })
                       (d0, d0) (down_from (pd + 1));
          let pd = n + 2;
          d \<leftarrow> get data pd i;
          let rr = vxor rr d;
          let pd = pd - 1;
          d \<leftarrow> get data pd i;
          let qq = vxor qq d;
          let pd = pd - 1;
          let pd = pd - 1;
          data \<leftarrow> put data x i (vxor (mulby bld (c ! 0) qq) (mulby bld (c ! 1) rr));
          data \<leftarrow> put data y i (vxor (mulby bld (c ! 2) qq) (mulby bld (c ! 3) rr));
          Some (data, pd) }"

definition rs_decode2qr :: "rs_build \<Rightarrow> int \<Rightarrow> int \<Rightarrow> int \<Rightarrow> int \<Rightarrow> blocks \<Rightarrow> blocks option" where
  "rs_decode2qr bld n blocksize x y data =
     do { c \<leftarrow> tab2 rs_r2QR x y;
          data \<leftarrow> memset0 data x blocksize;
          data \<leftarrow> memset0 data y blocksize;
          s \<leftarrow> ofold (decode2qr_col bld n x y c) (data, n - 1) [0..<nvec blocksize];
          Some (fst s) }"

definition rs_decode2 :: "rs_build \<Rightarrow> int \<Rightarrow> int \<Rightarrow> int \<Rightarrow> int \<Rightarrow> blocks \<Rightarrow> blocks option" where
  "rs_decode2 bld nblocks blocksize x0 y0 data =
     (let (x, y) = (if x0 > y0 then (y0, x0) else (x0, y0));
          n = nblocks - 3
      in if x \<ge> n then rs_encode_if_requested bld nblocks blocksize data
         else if y = n then
           do { data \<leftarrow> rs_decode1q bld n blocksize x data;
                rs_encode_if_requested bld nblocks blocksize data }
         else if y = n + 1 \<or> y = n + 2 then
           do { data \<leftarrow> rs_decode1p n blocksize x data;
                rs_encode_if_requested bld nblocks blocksize data }
         else rs_decode2pq bld n blocksize x y data)"

definition decode3pqr_col ::
    "rs_build \<Rightarrow> int \<Rightarrow> int \<Rightarrow> int \<Rightarrow> int \<Rightarrow> u8 list \<Rightarrow> blocks \<times> int \<Rightarrow> nat \<Rightarrow> (blocks \<times> int) option" where
  "decode3pqr_col bld n x y z c s i =
     do { let (data, pd) = s;
          d0 \<leftarrow> get data pd i;
          (pp, qq, rr) \<leftarrow> ofold (\<lambda>(pp, qq, rr) j. do { d \<leftarrow> get data j i;
                         Some (vxor pp d, vxor (v16_mul2 bld qq) d,
                               vxor (v16_mul2 bld (v16_mul2 bld rr)) d) })
                       (d0, d0, d0) (down_from (pd + 1));
          let pd = n + 2;
          d \<leftarrow> get data pd i;
          let rr = vxor rr d;
          let pd = pd - 1;
          d \<leftarrow> get data pd i;
          let qq = vxor qq d;
          let pd = pd - 1;
          d \<leftarrow> get data pd i;
          let pp = vxor pp d;
          let pd = pd - 1;
          data \<leftarrow> put data x i (vxor (vxor (mulby bld (c ! 0) pp) (mulby bld (c ! 1) qq))
                                  (mulby bld (c ! 2) rr));
          data \<leftarrow> put data y i (vxor (vxor (mulby bld (c ! 3) pp) (mulby bld (c ! 4) qq))
                                  (mulby bld (c ! 5) rr));
          data \<leftarrow> put data z i (vxor (vxor (mulby bld (c ! 6) pp) (mulby bld (c ! 7) qq))
                                  (mulby bld (c ! 8) rr));
          Some (data, pd) }"

definition rs_decode3pqr ::
    "rs_build \<Rightarrow> int \<Rightarrow> int \<Rightarrow> int \<Rightarrow> int \<Rightarrow> int \<Rightarrow> blocks \<Rightarrow> blocks option" where
  "rs_decode3pqr bld n blocksize x y z data =
     do { c \<leftarrow> tab3 rs_r3 x y z;
          data \<leftarrow> memset0 data x blocksize;
          data \<leftarrow> memset0 data y blocksize;
          data \<leftarrow> memset0 data z blocksize;
          s \<leftarrow> ofold (decode3pqr_col bld n x y z c) (data, n - 1) [0..<nvec blocksize];
          Some (fst s) }"

text \<open>The three conditional swaps that open \<open>rs_decode3\<close>.\<close>

definition sort3 :: "int \<Rightarrow> int \<Rightarrow> int \<Rightarrow> int \<times> int \<times> int" where
  "sort3 x y z =
     (let (x, y) = (if x > y then (y, x) else (x, y));
          (x, z) = (if x > z then (z, x) else (x, z));
          (y, z) = (if y > z then (z, y) else (y, z))
      in (x, y, z))"

definition rs_decode3 ::
    "rs_build \<Rightarrow> int \<Rightarrow> int \<Rightarrow> int \<Rightarrow> int \<Rightarrow> int \<Rightarrow> blocks \<Rightarrow> blocks option" where
  "rs_decode3 bld nblocks blocksize x0 y0 z0 data =
     (let (x, y, z) = sort3 x0 y0 z0;
          n = nblocks - 3;
          enc = rs_encode_if_requested bld nblocks blocksize
      in if x \<ge> n then enc data
         else if y = n \<and> z = n + 1 then do { data \<leftarrow> rs_decode1r bld n blocksize x data; enc data }
         else if y = n \<and> z = n + 2 then do { data \<leftarrow> rs_decode1q bld n blocksize x data; enc data }
         else if y = n + 1 \<and> z = n + 2 then do { data \<leftarrow> rs_decode1p n blocksize x data; enc data }
         else if z = n then do { data \<leftarrow> rs_decode2qr bld n blocksize x y data; enc data }
         else if z = n + 1 then do { data \<leftarrow> rs_decode2pr bld n blocksize x y data; enc data }
         else if z = n + 2 then do { data \<leftarrow> rs_decode2pq bld n blocksize x y data; enc data }
         else rs_decode3pqr bld n blocksize x y z data)"

end
