(* ===== verification/RSLanes.thy ===== *)
theory RSLanes
  imports RSDefs
begin

text \<open>
  Lane-wise meaning of the vector code: in every build whose \<open>mask\<close> selects the lanes
  with the top bit set, \<open>v16_mul2\<close> doubles each lane in the field and \<open>mulby\<close>
  (shift-and-add, NEON table or SSSE3 table) multiplies each lane by the constant.  The
  second half shows that the map tables index the row of the missing blocks.
\<close>

subsection \<open>Builds with the right lane mask\<close>

text \<open>
  The contract the coder needs from a build: \<open>mask\<close> is all ones exactly in the lanes
  whose top bit is set.
\<close>

locale lane_build =
  fixes bld :: rs_build
  assumes mask_top_bit: "mask bld v = map (\<lambda>b. if bit b 7 then 0xff else 0) v"

definition good_build :: "rs_build \<Rightarrow> bool" where
  "good_build bld \<longleftrightarrow> bld \<notin> {SSSE3_CLANG, GNUC_VECTOR}"

lemma byte_sint_neg: "(sint (b :: u8) < 0) = bit b 7"
  using bit_last_iff [of b] by simp

lemma byte_less_128: "(b < (128 :: u8)) = (\<not> bit b 7)"
proof -
  have "unat b < 256" using unsigned_less [of b] by simp
  then have "unat b div 128 = (if unat b < 128 then 0 else 1)" by auto
  then show ?thesis
    by (auto simp: bit_unat_odd word_less_nat_alt)
qed

interpretation neon: lane_build NEON
  by unfold_locales (simp add: byte_sint_neg)

interpretation sse2: lane_build SSE2
  by unfold_locales (simp add: byte_sint_neg)

interpretation ssse3: lane_build SSSE3
  by unfold_locales (simp add: byte_sint_neg)

interpretation portable: lane_build PORTABLE
  by unfold_locales (auto simp: byte_less_128)

lemma good_build_lanes: "good_build bld \<Longrightarrow> lane_build bld"
  using neon.lane_build_axioms sse2.lane_build_axioms ssse3.lane_build_axioms
    portable.lane_build_axioms
  by (cases bld) (simp_all add: good_build_def)

lemma mask_bad: "\<not> good_build bld \<Longrightarrow> mask bld v = map (\<lambda>b. NOT b) (mask PORTABLE v)"
  by (cases bld) (auto simp: good_build_def)

lemma length_vxor [simp]: "length (vxor a b) = min (length a) (length b)"
  by (simp add: vxor_def)

lemma nth_vxor [simp]: "l < length a \<Longrightarrow> l < length b \<Longrightarrow> vxor a b ! l = a ! l XOR b ! l"
  by (simp add: vxor_def)

lemma byte_double: "b + b = push_bit 1 (b :: u8)"
  by (simp add: push_bit_eq_mult)

lemma length_nibtab: "k < 256 \<Longrightarrow> length (fst (rs_nibmul ! k)) = 16 \<and> length (snd (rs_nibmul ! k)) = 16"
  by (simp add: rs_nibmul_def mlo_def mhi_def del: upt_rec_numeral)

lemma nth_nibtab:
  assumes "j < 16"
  shows "fst (rs_nibmul ! unat x) ! j = mul x (of_nat j)"
    and "snd (rs_nibmul ! unat x) ! j = mul x (push_bit 4 (of_nat j))"
proof -
  have "unat x < 256" using unsigned_less [of x] by simp
  with assms show "fst (rs_nibmul ! unat x) ! j = mul x (of_nat j)"
    "snd (rs_nibmul ! unat x) ! j = mul x (push_bit 4 (of_nat j))"
    by (simp_all add: rs_nibmul_def mlo_def mhi_def del: upt_rec_numeral)
qed

lemma nibbles: "(b AND 0x0f) XOR push_bit 4 (drop_bit 4 b) = (b :: u8)"
proof -
  have m: "(0x0f :: u8) = Bit_Operations.mask 4" by (simp add: mask_eq_exp_minus_1)
  show ?thesis
    unfolding m by (intro bit_eqI) (auto simp: bit_simps)
qed

lemma low_nibble_less: "unat (b AND 0x0f :: u8) < 16"
proof -
  have "unat (b AND 0x0f) \<le> unat (0x0f :: u8)"
    by (rule word_and_le1 [THEN word_le_nat_alt [THEN iffD1]])
  then show ?thesis by simp
qed

lemma high_nibble_less: "unat (drop_bit 4 b :: u8) < 16"
proof -
  have "unat b < 256" using unsigned_less [of b] by simp
  then show ?thesis
    by (simp only: unat_drop_bit_eq) (simp add: drop_bit_eq_div)
qed

lemma mul_nibbles:
  "fst (rs_nibmul ! unat x) ! unat (b AND 0x0f) XOR snd (rs_nibmul ! unat x) ! unat (drop_bit 4 b)
   = mul x b"
  by (simp only: nth_nibtab [OF low_nibble_less] nth_nibtab [OF high_nibble_less]
      of_nat_unat ucast_id mul_xor_right [symmetric] nibbles)

lemma mulby_neon_good: "length v = 16 \<Longrightarrow> mulby_neon x v = map (mul x) v"
  by (rule nth_equalityI)
    (simp_all add: mulby_neon_def Let_def vtbl2_def vand_def VEC16_def low_nibble_less
      high_nibble_less mul_nibbles)

lemma mask_0f: "(0x0f :: u8) = Bit_Operations.mask 4"
  by (simp add: mask_eq_exp_minus_1)

lemma psraw4_pair:
  fixes a b :: u8
  defines "w \<equiv> signed_drop_bit 4 (word_cat b a :: u16)"
  shows "(ucast w :: u8) AND 0x0f = drop_bit 4 a"
    and "(ucast (drop_bit 8 w) :: u8) AND 0x0f = drop_bit 4 b"
  unfolding w_def mask_0f
  by (intro bit_eqI; auto simp: bit_simps bit_word_cat_iff bit_signed_drop_bit_iff min_def
      dest: bit_imp_le_length)+

lemma length_psraw4 [simp]: "length (psraw4 v) = length v"
  by (induction v rule: psraw4.induct) (simp_all add: Let_def)

lemma psraw4_high_nibble:
  "even (length v) \<Longrightarrow> l < length v \<Longrightarrow> psraw4 v ! l AND 0x0f = drop_bit 4 (v ! l)"
proof (induction v arbitrary: l rule: psraw4.induct)
  case (1 a b v)
  then show ?case
    by (auto simp: Let_def nth_Cons' psraw4_pair)
qed simp_all

lemma pshufb_low: "bit (b AND 0x0f :: u8) 7 = False" "(b AND 0x0f) AND 0x0f = (b AND 0x0f :: u8)"
  unfolding mask_0f by (auto simp: bit_simps and.assoc)

lemma pshufb_high: "bit (drop_bit 4 b :: u8) 7 = False" "drop_bit 4 b AND 0x0f = (drop_bit 4 b :: u8)"
  unfolding mask_0f by (auto simp: bit_simps intro!: bit_eqI) (auto dest: bit_imp_le_length)

lemma mulby_ssse3_good: "length v = 16 \<Longrightarrow> mulby_ssse3 x v = map (mul x) v"
  by (rule nth_equalityI)
    (simp_all add: mulby_ssse3_def Let_def pshufb128_def vand_def VEC16_def pshufb_low
      pshufb_high psraw4_high_nibble mul_nibbles)

context lane_build
begin

lemma v16_mul2_lanes: "length v = 16 \<Longrightarrow> v16_mul2 bld v = map mul2 v"
  by (rule nth_equalityI)
    (auto simp: v16_mul2_def vadd_def vand_def VEC16_def mask_top_bit mul2_bit byte_double)


lemma mulby_loop_lanes:
  "length v = 16 \<Longrightarrow> length vv = 16 \<Longrightarrow> mulby_loop bld x v vv = map2 (mul_loop x) v vv"
proof (induction "unat x" arbitrary: x v vv rule: less_induct)
  case less
  show ?case
  proof (cases "x = 0")
    case True
    with less show ?thesis
      by (subst mulby_loop.simps, intro nth_equalityI) (simp_all add: mul_loop.simps)
  next
    case False
    have "mulby_loop bld x v vv =
        map2 (mul_loop (drop_bit 1 x)) (map mul2 v) (if x AND 1 \<noteq> 0 then vxor vv v else vv)"
      using less.hyps [OF unat_drop_bit_1_less [OF False]] less.prems False
      by (subst mulby_loop.simps) (simp add: v16_mul2_lanes)
    also have "\<dots> = map2 (mul_loop x) v vv"
      using less.prems False
      by (intro nth_equalityI) (auto simp: mul_loop.simps [of x])
    finally show ?thesis .
  qed
qed

lemma mulby_lanes:
  assumes "length v = 16"
  shows "mulby bld x v = map (mul x) v"
proof -
  have "mulby_loop bld x v (VEC16 0) = map (mul x) v"
    using assms by (intro nth_equalityI) (simp_all add: mulby_loop_lanes VEC16_def mul_def)
  with assms show ?thesis
    by (cases bld) (simp_all add: mulby_neon_good mulby_ssse3_good)
qed

end

subsection \<open>Table lookups\<close>

lemma set_r2_pairs: "(x, y) \<in> set r2_pairs \<longleftrightarrow> x < y \<and> y < 64"
  by (force simp: r2_pairs_def RS_LIB_MAX_DATA_BLOCKS_def simp del: upt_rec_numeral upt_Suc)

lemma set_r3_triples: "(x, y, z) \<in> set r3_triples \<longleftrightarrow> x < y \<and> y < z \<and> z < 64"
  by (force simp: r3_triples_def RS_LIB_MAX_DATA_BLOCKS_def simp del: upt_rec_numeral upt_Suc)

lemma distinct_r2_pairs: "distinct r2_pairs"
  unfolding r2_pairs_def by (intro distinct_concat_map) (auto simp: distinct_map inj_on_def)

lemma distinct_r3_triples: "distinct r3_triples"
  unfolding r3_triples_def by (intro distinct_concat_map) (auto simp: distinct_map inj_on_def)

lemma length_r2_pairs: "length r2_pairs = 2016"
  using sum_countdown [of 0 63]
  by (simp add: r2_pairs_def RS_LIB_MAX_DATA_BLOCKS_def length_concat comp_def del: upt_Suc)

lemma length_r3_triples: "length r3_triples = 41664"
proof -
  have inner: "sum_list (map ((-) 63) [Suc x..<64]) = (62 - x) * (63 - x) div 2" if "x < 63" for x :: nat
  proof -
    have "Suc x + (62 - x) = 63" "62 - x + 1 = 63 - x" using that by auto
    then have "2 * sum_list (map ((-) 63) [Suc x..<64]) = (62 - x) * (63 - x)"
      using sum_countdown [of "Suc x" "62 - x"] by (simp only: ) (simp del: upt_Suc)
    then show ?thesis by simp
  qed
  have "[0..<64] = [0..<63] @ [63]" by (simp add: upt_conv_Cons)
  moreover have "map (\<lambda>x. sum_list (map ((-) 63) [Suc x..<64])) [0..<63]
      = map (\<lambda>x. (62 - x) * (63 - x) div 2) [0..<63]"
    by (rule map_cong) (auto simp: inner simp del: upt_Suc upt_rec_numeral)
  ultimately have "length r3_triples = (\<Sum>x\<leftarrow>[0..<63]. (62 - x) * (63 - x) div 2)"
    by (simp add: r3_triples_def RS_LIB_MAX_DATA_BLOCKS_def length_concat comp_def
        del: upt_Suc upt_rec_numeral map_eq_conv)
  then show ?thesis by (simp add: upt_conv_Cons)
qed

lemma rs_r2map_pair:
  assumes "x < y" "y < 64"
  shows "unat (rs_r2map (x, y)) = index_of (x, y) r2_pairs"
proof -
  have mem: "(x, y) \<in> set r2_pairs" using assms by (simp add: set_r2_pairs)
  have "rs_r2map (x, y) = of_nat (0 + index_of (x, y) r2_pairs)"
    unfolding rs_r2map_def
    by (rule fold_enumerate_upd [OF _ _ mem distinct_r2_pairs])
      (use assms in \<open>auto simp: set_r2_pairs split: if_splits\<close>)
  moreover have "index_of (x, y) r2_pairs < 2016"
    using index_of_less [OF mem] by (simp add: length_r2_pairs)
  ultimately show ?thesis by (simp add: unat_of_nat)
qed

lemma rs_r3map_triple:
  assumes "x < y" "y < z" "z < 64"
  shows "unat (rs_r3map (x, y, z)) = index_of (x, y, z) r3_triples"
proof -
  have mem: "(x, y, z) \<in> set r3_triples" using assms by (simp add: set_r3_triples)
  have "rs_r3map (x, y, z) = of_nat (0 + index_of (x, y, z) r3_triples)"
    unfolding rs_r3map_def
    by (rule fold_enumerate_upd [OF _ _ mem distinct_r3_triples])
      (use assms in \<open>auto simp: set_r3_triples split: if_splits\<close>)
  moreover have "index_of (x, y, z) r3_triples < 41664"
    using index_of_less [OF mem] by (simp add: length_r3_triples)
  ultimately show ?thesis by (simp add: unat_of_nat)
qed

lemma tab2_row:
  assumes "x < y" "y < 64"
  shows "tab2 (map row r2_pairs) (int x) (int y) = Some (row (x, y))"
proof -
  have mem: "(x, y) \<in> set r2_pairs" using assms by (simp add: set_r2_pairs)
  then show ?thesis
    using assms index_of_less [OF mem]
    by (simp add: tab2_def in_map_def RS_LIB_MAX_DATA_BLOCKS_def rs_r2map_pair)
qed

lemma tab3_row:
  assumes "x < y" "y < z" "z < 64"
  shows "tab3 (map row r3_triples) (int x) (int y) (int z) = Some (row (x, y, z))"
proof -
  have mem: "(x, y, z) \<in> set r3_triples" using assms by (simp add: set_r3_triples)
  then show ?thesis
    using assms index_of_less [OF mem]
    by (simp add: tab3_def in_map_def RS_LIB_MAX_DATA_BLOCKS_def rs_r3map_triple)
qed

lemma tab1_row: "x < 64 \<Longrightarrow> tab1 (map f [0..<RS_LIB_MAX_DATA_BLOCKS]) (int x) = Some (f x)"
  by (simp add: tab1_def RS_LIB_MAX_DATA_BLOCKS_def del: upt_rec_numeral)

end
