(* ===== verification/RSSyndrome.thy ===== *)
theory RSSyndrome
  imports RSLanes
begin

text \<open>
  The algebra behind the erasure code: the reference parity of a column of bytes as a sum
  of powers of the generator, Horner evaluation of the three syndromes on 16-byte vectors,
  and the proof that the rows of the recovery tables invert the columns of the missing
  blocks.
\<close>

subsection \<open>Reference syndromes\<close>

definition parity :: "nat \<Rightarrow> u8 list \<Rightarrow> u8" where
  "parity k ds = fold (XOR) (map (\<lambda>j. mul (pow2 ! (k * j)) (ds ! j)) [0..<length ds]) 0"

definition lane :: "v16 \<Rightarrow> nat \<Rightarrow> gf" where
  "lane v l = gf_of (v ! l)"

lemma gf_of_fold_xor: "gf_of (fold (XOR) xs z) = gf_of z + sum_list (map gf_of xs)"
  by (induction xs arbitrary: z) (simp_all add: gf_of_xor ac_simps)

lemma gf_of_parity:
  assumes "k * length ds \<le> 255"
  shows "gf_of (parity k ds) = (\<Sum>j<length ds. (gf_of 2 ^ k) ^ j * gf_of (ds ! j))"
proof -
  have "k * j < 256" if "j < length ds" for j
  proof -
    have "k * j \<le> k * length ds" using that by simp
    with assms show ?thesis by linarith
  qed
  then have "map gf_of (map (\<lambda>j. mul (pow2 ! (k * j)) (ds ! j)) [0..<length ds])
      = map (\<lambda>j. (gf_of 2 ^ k) ^ j * gf_of (ds ! j)) [0..<length ds]"
    by (simp add: gf_of_mul gf_of_pow2 power_mult)
  then show ?thesis
    by (simp add: parity_def gf_of_fold_xor gf_of_0 interv_sum_list_conv_sum_set_nat
        atLeast0LessThan del: map_map)
qed

definition horner :: "(v16 \<Rightarrow> v16) \<Rightarrow> (nat \<Rightarrow> v16) \<Rightarrow> nat \<Rightarrow> v16" where
  "horner f c n = foldr (\<lambda>j q. vxor (f q) (c j)) [0..<n - 1] (c (n - 1))"

text \<open>A function that multiplies every lane by a field element.\<close>

definition scales :: "(v16 \<Rightarrow> v16) \<Rightarrow> gf \<Rightarrow> bool" where
  "scales f b \<longleftrightarrow> (\<forall>v. length v = 16 \<longrightarrow> length (f v) = 16 \<and> (\<forall>l<16. lane (f v) l = b * lane v l))"

lemma lane_vxor: "l < length a \<Longrightarrow> l < length b \<Longrightarrow> lane (vxor a b) l = lane a l + lane b l"
  by (simp add: lane_def gf_of_xor)

lemma scales_id: "scales (\<lambda>v. v) 1"
  by (simp add: scales_def)

lemma scales_comp: "scales f a \<Longrightarrow> scales g b \<Longrightarrow> scales (\<lambda>v. f (g v)) (a * b)"
  by (simp add: scales_def mult.assoc)

lemma foldr_horner:
  assumes f: "scales f b" and c: "\<And>j. j < n \<Longrightarrow> length (c j) = 16" and "length e = 16"
  shows "length (foldr (\<lambda>j q. vxor (f q) (c j)) [k..<n] e) = 16 \<and>
    (k \<le> n \<longrightarrow> (\<forall>l<16. lane (foldr (\<lambda>j q. vxor (f q) (c j)) [k..<n] e) l =
        (\<Sum>j=k..<n. b ^ (j - k) * lane (c j) l) + b ^ (n - k) * lane e l))"
proof (induction "n - k" arbitrary: k)
  case 0
  with assms show ?case by simp
next
  case (Suc d)
  then have k: "k < n" "[k..<n] = k # [Suc k..<n]" by (auto simp: upt_conv_Cons)
  let ?q = "foldr (\<lambda>j q. vxor (f q) (c j)) [Suc k..<n] e"
  have q: "length ?q = 16" "\<And>l. l < 16 \<Longrightarrow> lane ?q l =
      (\<Sum>j=Suc k..<n. b ^ (j - Suc k) * lane (c j) l) + b ^ (n - Suc k) * lane e l"
    using Suc.hyps(1) [of "Suc k"] Suc.hyps(2) k(1) by auto
  have fq: "length (f ?q) = 16" "\<And>l. l < 16 \<Longrightarrow> lane (f ?q) l = b * lane ?q l"
    using f q(1) by (auto simp: scales_def)
  have "lane (vxor (f ?q) (c k)) l =
      (\<Sum>j=k..<n. b ^ (j - k) * lane (c j) l) + b ^ (n - k) * lane e l" if "l < 16" for l
  proof -
    have "(\<Sum>j=Suc k..<n. b ^ (j - k) * lane (c j) l) =
        b * (\<Sum>j=Suc k..<n. b ^ (j - Suc k) * lane (c j) l)"
      unfolding sum_distrib_left
    proof (rule sum.cong)
      fix j assume "j \<in> {Suc k..<n}"
      then have "j - k = Suc (j - Suc k)" by auto
      then show "b ^ (j - k) * lane (c j) l = b * (b ^ (j - Suc k) * lane (c j) l)"
        by (simp add: mult.assoc)
    qed simp
    moreover have "b ^ (n - k) = b * b ^ (n - Suc k)"
      using k(1) by (metis Suc_diff_Suc power_Suc)
    ultimately show ?thesis
      using that k(1) c [of k] by (simp add: lane_vxor fq q sum.atLeast_Suc_lessThan algebra_simps)
  qed
  with k c [of k] fq(1) show ?case by simp
qed

lemma horner_lanes:
  assumes "scales f b" and "\<And>j. j < n \<Longrightarrow> length (c j) = 16" and "0 < n"
  shows "length (horner f c n) = 16"
    and "l < 16 \<Longrightarrow> lane (horner f c n) l = (\<Sum>j<n. b ^ j * lane (c j) l)"
proof -
  obtain m where m: "n = Suc m" using assms(3) by (cases n) auto
  show "length (horner f c n) = 16"
    using foldr_horner [of f b m c "c m" 0] assms m by (simp add: horner_def)
  show "l < 16 \<Longrightarrow> lane (horner f c n) l = (\<Sum>j<n. b ^ j * lane (c j) l)"
    using foldr_horner [of f b m c "c m" 0] assms m by (simp add: horner_def lessThan_atLeast0)
qed

lemma ofold_down:
  assumes "\<And>j. j < n \<Longrightarrow> get data (int j) i = Some (c j)" and "0 < n"
  shows "ofold (\<lambda>s j. do { d \<leftarrow> get data j i; Some (g s d) }) e (down_from (int n))
    = Some (foldr (\<lambda>j s. g s (c j)) [0..<n - 1] e)"
proof -
  have "ofold (\<lambda>s j. do { d \<leftarrow> get data j i; Some (g s d) }) e (map int (rev xs))
      = Some (foldr (\<lambda>j s. g s (c j)) xs e)" if "set xs \<subseteq> {..<n}" for xs
    using that by (induction xs arbitrary: e) (auto simp: ofold_append assms(1))
  moreover have "nat (int n - 1) = n - 1" "set [0..<n - 1] \<subseteq> {..<n}" using assms(2) by auto
  ultimately show ?thesis by (simp only: down_from_def)
qed

subsection \<open>The recovery rows invert the missing columns\<close>

lemma gf2_pow_neq: "i < j \<Longrightarrow> j < 255 \<Longrightarrow> gf_of 2 ^ i + gf_of 2 ^ j \<noteq> 0"
  using gf2_pow_inj [of i j] by (auto simp: gf_eq_iff [symmetric])

lemma gf2_pow_compl: "x \<le> 255 \<Longrightarrow> gf_of 2 ^ (255 - x) = inverse (gf_of 2 ^ x)"
  using gf2_pow_255 power_add [of "gf_of 2" "255 - x" x]
  by (simp add: field_simps)

lemma r1Q_solves: "x < 64 \<Longrightarrow> gf_of (pow2 ! (255 - x)) * (gf_of 2 ^ x * d) = d"
  by (simp add: gf_of_pow2 gf2_pow_compl)

lemma r1R_solves: "x < 64 \<Longrightarrow> gf_of (pow2 ! (255 - 2 * x)) * ((gf_of 2 ^ 2) ^ x * d) = d"
  by (simp add: gf_of_pow2 gf2_pow_compl power_mult [symmetric])

lemma gf_solve2:
  fixes a b d e :: gf
  assumes "a + b \<noteq> 0"
  shows "inverse (a + b) * b * (d + e) + inverse (a + b) * (a * d + b * e) = d"
    and "inverse (a + b) * a * (d + e) + inverse (a + b) * (a * d + b * e) = e"
proof -
  have "inverse (a + b) * b * (d + e) + inverse (a + b) * (a * d + b * e) = inverse (a + b) * ((a + b) * d)"
    by (simp add: algebra_simps)
  with assms show "inverse (a + b) * b * (d + e) + inverse (a + b) * (a * d + b * e) = d"
    by (simp flip: mult.assoc)
  have "inverse (a + b) * a * (d + e) + inverse (a + b) * (a * d + b * e) = inverse (a + b) * ((a + b) * e)"
    by (simp add: algebra_simps)
  with assms show "inverse (a + b) * a * (d + e) + inverse (a + b) * (a * d + b * e) = e"
    by (simp flip: mult.assoc)
qed

lemma gf_solve3:
  fixes a b c d e f :: gf
  defines "D \<equiv> (a + b) * ((a + c) * (b + c))"
  shows "(b * c\<^sup>2 + c * b\<^sup>2) * (d + e + f) + (b\<^sup>2 + c\<^sup>2) * (a * d + b * e + c * f)
      + (b + c) * (a\<^sup>2 * d + b\<^sup>2 * e + c\<^sup>2 * f) = D * d"
    and "(a * c\<^sup>2 + c * a\<^sup>2) * (d + e + f) + (a\<^sup>2 + c\<^sup>2) * (a * d + b * e + c * f)
      + (a + c) * (a\<^sup>2 * d + b\<^sup>2 * e + c\<^sup>2 * f) = D * e"
    and "(a * b\<^sup>2 + b * a\<^sup>2) * (d + e + f) + (a\<^sup>2 + b\<^sup>2) * (a * d + b * e + c * f)
      + (a + b) * (a\<^sup>2 * d + b\<^sup>2 * e + c\<^sup>2 * f) = D * f"
  by (simp_all add: D_def algebra_simps power2_eq_square)

lemma r2PQ_solves:
  assumes "x < y" "y < 64"
  defines "c \<equiv> r2PQ_row (x, y)" and "a \<equiv> gf_of 2 ^ x" and "b \<equiv> gf_of 2 ^ y"
  shows "gf_of (c ! 0) * (d + e) + gf_of (c ! 1) * (a * d + b * e) = d"
    and "gf_of (c ! 2) * (d + e) + gf_of (c ! 3) * (a * d + b * e) = e"
proof -
  have "a + b \<noteq> 0" using assms by (simp add: gf2_pow_neq)
  from gf_solve2 [OF this] assms show "gf_of (c ! 0) * (d + e) + gf_of (c ! 1) * (a * d + b * e) = d"
    "gf_of (c ! 2) * (d + e) + gf_of (c ! 3) * (a * d + b * e) = e"
    by (simp_all add: Let_def gf_of_simps gf_of_pow2)
qed

lemma r2PR_solves:
  assumes "x < y" "y < 64"
  defines "c \<equiv> r2PR_row (x, y)" and "a \<equiv> (gf_of 2 ^ 2) ^ x" and "b \<equiv> (gf_of 2 ^ 2) ^ y"
  shows "gf_of (c ! 0) * (d + e) + gf_of (c ! 1) * (a * d + b * e) = d"
    and "gf_of (c ! 2) * (d + e) + gf_of (c ! 3) * (a * d + b * e) = e"
proof -
  have "a + b \<noteq> 0" using assms by (simp add: gf2_pow_neq flip: power_mult)
  from gf_solve2 [OF this] assms show "gf_of (c ! 0) * (d + e) + gf_of (c ! 1) * (a * d + b * e) = d"
    "gf_of (c ! 2) * (d + e) + gf_of (c ! 3) * (a * d + b * e) = e"
    by (simp_all add: Let_def gf_of_simps gf_of_pow2 power_mult)
qed

lemma r2QR_solves:
  assumes "x < y" "y < 64"
  defines "c \<equiv> r2QR_row (x, y)" and "a \<equiv> gf_of 2 ^ x" and "b \<equiv> gf_of 2 ^ y"
  shows "gf_of (c ! 0) * (a * d + b * e) + gf_of (c ! 1) * (a\<^sup>2 * d + b\<^sup>2 * e) = d"
    and "gf_of (c ! 2) * (a * d + b * e) + gf_of (c ! 3) * (a\<^sup>2 * d + b\<^sup>2 * e) = e"
proof -
  have ab: "a \<noteq> 0" "b \<noteq> 0" "a + b \<noteq> 0" using assms by (simp_all add: gf2_pow_neq)
  have "gf_of 2 ^ (y - x) = b * inverse a"
    using assms by (simp add: power_diff field_simps)
  moreover have "gf_of 2 ^ (255 + x - y) = a * inverse b"
    using assms gf2_pow_255 by (simp add: power_diff power_add field_simps)
  ultimately have c: "gf_of (c ! 0) = inverse (a + b) * (b * inverse a)"
      "gf_of (c ! 1) = inverse (a + b) * inverse a"
      "gf_of (c ! 2) = inverse (a + b) * (a * inverse b)"
      "gf_of (c ! 3) = inverse (a + b) * inverse b"
    using assms by (simp_all add: Let_def gf_of_simps gf_of_pow2 gf2_pow_compl)
  show "gf_of (c ! 0) * (a * d + b * e) + gf_of (c ! 1) * (a\<^sup>2 * d + b\<^sup>2 * e) = d"
    using gf_solve2 (1) [OF ab(3), of "d" "b * inverse a * e"] ab unfolding c
    by (simp add: field_simps power2_eq_square)
  show "gf_of (c ! 2) * (a * d + b * e) + gf_of (c ! 3) * (a\<^sup>2 * d + b\<^sup>2 * e) = e"
    using gf_solve2 (2) [OF ab(3), of "a * inverse b * d" e] ab unfolding c
    by (simp add: field_simps power2_eq_square)
qed

lemma r3_solves:
  assumes "x < y" "y < z" "z < 64"
  defines "m \<equiv> r3_row (x, y, z)" and "a \<equiv> gf_of 2 ^ x" and "b \<equiv> gf_of 2 ^ y" and "c \<equiv> gf_of 2 ^ z"
  shows "gf_of (m ! 0) * (d + e + f) + gf_of (m ! 1) * (a * d + b * e + c * f)
      + gf_of (m ! 2) * (a\<^sup>2 * d + b\<^sup>2 * e + c\<^sup>2 * f) = d"
    and "gf_of (m ! 3) * (d + e + f) + gf_of (m ! 4) * (a * d + b * e + c * f)
      + gf_of (m ! 5) * (a\<^sup>2 * d + b\<^sup>2 * e + c\<^sup>2 * f) = e"
    and "gf_of (m ! 6) * (d + e + f) + gf_of (m ! 7) * (a * d + b * e + c * f)
      + gf_of (m ! 8) * (a\<^sup>2 * d + b\<^sup>2 * e + c\<^sup>2 * f) = f"
proof -
  define D where "D = (a + b) * ((a + c) * (b + c))"
  have "D \<noteq> 0" using assms by (simp add: D_def gf2_pow_neq)
  then have D: "inverse D * (D * v) = v" for v by (simp flip: mult.assoc)
  have p: "gf_of (pow2 ! (i + 2 * j)) = gf_of 2 ^ i * (gf_of 2 ^ j)\<^sup>2" if "i < 64" "j < 64" for i j
    using that by (simp add: gf_of_pow2 power_add power_mult [symmetric] mult.commute)
  have p2: "gf_of (pow2 ! (2 * j)) = (gf_of 2 ^ j)\<^sup>2" if "j < 64" for j
    using p [of 0 j] that by simp
  have m: "gf_of (m ! 0) = inverse D * (b * c\<^sup>2 + c * b\<^sup>2)" "gf_of (m ! 1) = inverse D * (b\<^sup>2 + c\<^sup>2)"
      "gf_of (m ! 2) = inverse D * (b + c)"
      "gf_of (m ! 3) = inverse D * (a * c\<^sup>2 + c * a\<^sup>2)" "gf_of (m ! 4) = inverse D * (a\<^sup>2 + c\<^sup>2)"
      "gf_of (m ! 5) = inverse D * (a + c)"
      "gf_of (m ! 6) = inverse D * (a * b\<^sup>2 + b * a\<^sup>2)" "gf_of (m ! 7) = inverse D * (a\<^sup>2 + b\<^sup>2)"
      "gf_of (m ! 8) = inverse D * (a + b)"
    using assms by (simp_all add: D_def Let_def gf_of_simps p p2 gf_of_pow2 [of x] gf_of_pow2 [of y] gf_of_pow2 [of z]
        del: inverse_mult_distrib)
  show "gf_of (m ! 0) * (d + e + f) + gf_of (m ! 1) * (a * d + b * e + c * f)
      + gf_of (m ! 2) * (a\<^sup>2 * d + b\<^sup>2 * e + c\<^sup>2 * f) = d"
    "gf_of (m ! 3) * (d + e + f) + gf_of (m ! 4) * (a * d + b * e + c * f)
      + gf_of (m ! 5) * (a\<^sup>2 * d + b\<^sup>2 * e + c\<^sup>2 * f) = e"
    "gf_of (m ! 6) * (d + e + f) + gf_of (m ! 7) * (a * d + b * e + c * f)
      + gf_of (m ! 8) * (a\<^sup>2 * d + b\<^sup>2 * e + c\<^sup>2 * f) = f"
    unfolding m mult.assoc distrib_left [symmetric] gf_solve3 D_def [symmetric] by (rule D)+
qed

end
