(* ===== verification/RSStripe.thy ===== *)
theory RSStripe
  imports RSSyndrome
begin

text \<open>
  Stripes: \<open>n\<close> data blocks and three parity blocks of \<open>cnt\<close> vectors.  The theory
  states when a stripe is correctly encoded, describes the intermediate states of a stripe
  that is being recovered column by column, and gives the effect of the memory accesses
  of the decoder on those states.
\<close>

subsection \<open>Encoded stripes and partially recovered ones\<close>

definition wf_block :: "nat \<Rightarrow> block \<Rightarrow> bool" where
  "wf_block cnt b \<longleftrightarrow> length b = cnt \<and> (\<forall>v\<in>set b. length v = 16)"

definition column :: "blocks \<Rightarrow> nat \<Rightarrow> nat \<Rightarrow> nat \<Rightarrow> u8 list" where
  "column data n i l = map (\<lambda>j. the (data ! j) ! i ! l) [0..<n]"

definition encoded :: "nat \<Rightarrow> nat \<Rightarrow> blocks \<Rightarrow> bool" where
  "encoded n cnt data \<longleftrightarrow>
     length data = n + 3 \<and>
     (\<forall>p\<in>set data. case p of None \<Rightarrow> False | Some b \<Rightarrow> wf_block cnt b) \<and>
     (\<forall>i<cnt. \<forall>l<16. \<forall>k<3. the (data ! (n + k)) ! i ! l = parity k (column data n i l))"

abbreviation vec :: "blocks \<Rightarrow> nat \<Rightarrow> nat \<Rightarrow> v16" where
  "vec data j i \<equiv> the (data ! j) ! i"

lemma encoded_length: "encoded n cnt orig \<Longrightarrow> length orig = n + 3"
  by (simp add: encoded_def)

lemma encoded_block:
  assumes "encoded n cnt orig" "j < n + 3"
  obtains b where "orig ! j = Some b" "wf_block cnt b"
proof -
  have "orig ! j \<in> set orig" using assms by (simp add: encoded_def)
  then have "case orig ! j of None \<Rightarrow> False | Some b \<Rightarrow> wf_block cnt b"
    using assms(1) by (simp add: encoded_def)
  with that show ?thesis by (cases "orig ! j") auto
qed

lemma wf_block_vec: "wf_block cnt b \<Longrightarrow> i < cnt \<Longrightarrow> length (b ! i) = 16"
  by (auto simp: wf_block_def)

lemma encoded_vec: "encoded n cnt orig \<Longrightarrow> j < n + 3 \<Longrightarrow> i < cnt \<Longrightarrow> length (vec orig j i) = 16"
  by (metis encoded_block option.sel wf_block_vec)

lemma encoded_get:
  assumes "encoded n cnt orig" "j < n + 3" "i < cnt"
  shows "get orig (int j) i = Some (vec orig j i)"
proof -
  obtain b where "orig ! j = Some b" "wf_block cnt b"
    using encoded_block [OF assms(1,2)] .
  with assms encoded_length [OF assms(1)] show ?thesis
    by (simp add: get_def wf_block_def)
qed

lemma encoded_syndrome:
  assumes "encoded n cnt orig" "n \<le> 64" "i < cnt" "l < 16" "k < 3"
  shows "lane (vec orig (n + k) i) l = (\<Sum>j<n. (gf_of 2 ^ k) ^ j * lane (vec orig j i) l)"
proof -
  have "k * n \<le> 2 * 64" using assms by (intro mult_le_mono) auto
  then have "k * length (column orig n i l) \<le> 255" by (simp add: column_def)
  from gf_of_parity [OF this] assms show ?thesis
    by (simp add: encoded_def lane_def column_def)
qed

definition prog :: "blocks \<Rightarrow> nat set \<Rightarrow> nat \<Rightarrow> blocks \<Rightarrow> blocks" where
  "prog orig S k data =
     map (\<lambda>j. if j \<in> S
              then Some (take k (the (orig ! j)) @ replicate (length (the (orig ! j)) - k) (VEC16 0))
              else data ! j) [0..<length data]"

lemma length_prog [simp]: "length (prog orig S k data) = length data"
  by (simp add: prog_def)

lemma nth_prog: "j < length data \<Longrightarrow> prog orig S k data ! j =
    (if j \<in> S
     then Some (take k (the (orig ! j)) @ replicate (length (the (orig ! j)) - k) (VEC16 0))
     else data ! j)"
  by (simp add: prog_def)

lemma get_prog:
  assumes "encoded n cnt orig" "length data = n + 3" "S \<subseteq> {..<n}" "k < cnt" "j < n + 3"
    and "j \<notin> S \<Longrightarrow> data ! j = orig ! j"
  shows "get (prog orig S k data) (int j) k = Some (if j \<in> S then VEC16 0 else vec orig j k)"
proof -
  obtain b where b: "orig ! j = Some b" "wf_block cnt b"
    using encoded_block [OF assms(1,5)] .
  with assms show ?thesis
    by (auto simp: get_def nth_prog wf_block_def nth_append)
qed

lemma put_Some:
  "j < length data \<Longrightarrow> data ! j = Some b \<Longrightarrow> i < length b \<Longrightarrow>
   put data (int j) i v = Some (data[j := Some (b[i := v])])"
  by (simp add: put_def)

lemma take_step:
  "k < length b \<Longrightarrow> (take k b @ replicate (length b - k) z)[k := b ! k] =
     take (Suc k) b @ replicate (length b - Suc k) z"
  by (rule nth_equalityI) (auto simp: nth_list_update nth_append less_Suc_eq min_def)

text \<open>Writing the right vector to one more missing block of the column.\<close>

definition fill :: "blocks \<Rightarrow> nat set \<Rightarrow> nat set \<Rightarrow> nat \<Rightarrow> blocks \<Rightarrow> blocks" where
  "fill orig S T k data = prog orig T (Suc k) (prog orig S k data)"

lemma put_fill:
  assumes "encoded n cnt orig" "length data = n + 3" "S \<subseteq> {..<n}" "k < cnt" "x \<in> S" "x \<notin> T" "T \<subseteq> S"
  shows "put (fill orig S T k data) (int x) k (vec orig x k) = Some (fill orig S (insert x T) k data)"
proof -
  have x: "x < n + 3" using assms by auto
  then obtain b where b: "orig ! x = Some b" "wf_block cnt b"
    using encoded_block [OF assms(1)] by blast
  have "fill orig S T k data ! x = Some (take k b @ replicate (length b - k) (VEC16 0))"
    using assms x b by (simp add: fill_def nth_prog)
  moreover have "(take k b @ replicate (length b - k) (VEC16 0))[k := b ! k] =
      take (Suc k) b @ replicate (length b - Suc k) (VEC16 0)"
    using b assms(4) by (intro take_step) (simp add: wf_block_def)
  ultimately have "put (fill orig S T k data) (int x) k (b ! k) =
      Some ((fill orig S T k data)[x := Some (take (Suc k) b @ replicate (length b - Suc k) (VEC16 0))])"
    using assms x b by (subst put_Some) (auto simp: fill_def wf_block_def)
  also have "\<dots> = Some (fill orig S (insert x T) k data)"
    using assms x b by (auto intro!: nth_equalityI simp: fill_def nth_prog nth_list_update)
  finally show ?thesis using b by simp
qed

lemma fill_empty: "fill orig S {} k data = prog orig S k data"
  by (auto intro!: nth_equalityI simp: fill_def nth_prog)

lemma fill_all: "fill orig S S k data = prog orig S (Suc k) data"
  by (auto intro!: nth_equalityI simp: fill_def nth_prog)

lemma prog_done:
  assumes "encoded n cnt orig" "length data = n + 3" "S \<subseteq> {..<n}"
  shows "prog orig S cnt data = map (\<lambda>j. if j \<in> S then orig ! j else data ! j) [0..<n + 3]"
proof (rule nth_equalityI)
  fix j assume "j < length (prog orig S cnt data)"
  then have j: "j < n + 3" using assms by simp
  then obtain b where "orig ! j = Some b" "wf_block cnt b"
    using encoded_block [OF assms(1)] by blast
  with j assms show "prog orig S cnt data ! j = map (\<lambda>j. if j \<in> S then orig ! j else data ! j) [0..<n + 3] ! j"
    by (simp add: nth_prog wf_block_def del: upt_Suc)
qed (use assms in simp)

lemma zero_bytes_block: "\<forall>v\<in>set b. length v = 16 \<Longrightarrow> zero_bytes (16 * length b) b = replicate (length b) (VEC16 0)"
  by (induction b) (simp_all add: VEC16_def)

lemma memset0_prog:
  assumes "encoded n cnt orig" "length data = n + 3" "x < n" "data ! x = Some b" "wf_block cnt b" "x \<notin> S"
  shows "memset0 (prog orig S 0 data) (int x) (16 * int cnt) = Some (prog orig (insert x S) 0 data)"
proof -
  obtain b' where b': "orig ! x = Some b'" "wf_block cnt b'"
    using encoded_block [OF assms(1), of x] assms(3) by auto
  have "zero_bytes (16 * cnt) b = replicate cnt (VEC16 0)"
    using zero_bytes_block [of b] assms(5) by (auto simp: wf_block_def)
  moreover have "nat (16 * int cnt) = 16 * cnt" by simp
  moreover have "prog orig S 0 data ! x = Some b"
    using assms by (simp add: nth_prog)
  ultimately have "memset0 (prog orig S 0 data) (int x) (16 * int cnt) =
      Some ((prog orig S 0 data)[x := Some (replicate cnt (VEC16 0))])"
    using assms by (simp add: memset0_def wf_block_def)
  also have "(prog orig S 0 data)[x := Some (replicate cnt (VEC16 0))] = prog orig (insert x S) 0 data"
    using assms b' by (auto intro!: nth_equalityI simp: nth_prog nth_list_update wf_block_def)
  finally show ?thesis .
qed

lemma prog_none: "prog orig {} k data = data"
  by (auto intro!: nth_equalityI simp: nth_prog)

lemma nvec_blocksize: "16 * cnt < 2 ^ 31 \<Longrightarrow> nvec (16 * int cnt) = cnt"
  by (simp add: nvec_def)

lemma vec_eqI: "length a = 16 \<Longrightarrow> length b = 16 \<Longrightarrow> (\<And>l. l < 16 \<Longrightarrow> lane a l = lane b l) \<Longrightarrow> a = b"
  by (rule nth_equalityI) (auto simp: lane_def)

lemma lane_zero [simp]: "l < 16 \<Longrightarrow> lane (VEC16 0) l = 0"
  by (simp add: lane_def VEC16_def gf_of_0)

lemma length_VEC16 [simp]: "length (VEC16 x) = 16"
  by (simp add: VEC16_def)

text \<open>A syndrome with the missing blocks zeroed, added to the stored one, leaves the missing terms.\<close>

lemma syndrome_missing:
  assumes "S \<subseteq> {..<n}" "l < 16"
  shows "(\<Sum>j<n. b ^ j * lane (if j \<in> S then VEC16 0 else v j) l) + (\<Sum>j<n. b ^ j * lane (v j) l)
    = (\<Sum>j\<in>S. b ^ j * lane (v j) l)"
proof -
  have "(\<Sum>j<n. b ^ j * lane (if j \<in> S then VEC16 0 else v j) l) + (\<Sum>j<n. b ^ j * lane (v j) l)
      = (\<Sum>j<n. if j \<in> S then b ^ j * lane (v j) l else 0)"
    unfolding sum.distrib [symmetric] by (rule sum.cong) (use assms(2) in auto)
  also have "\<dots> = (\<Sum>j\<in>S. b ^ j * lane (v j) l)"
    using assms(1) by (simp add: sum.If_cases Int_absorb1)
  finally show ?thesis .
qed

subsection \<open>Stripes with missing data blocks\<close>

definition recoverable :: "nat \<Rightarrow> nat \<Rightarrow> blocks \<Rightarrow> nat set \<Rightarrow> nat set \<Rightarrow> blocks \<Rightarrow> bool" where
  "recoverable n cnt orig S A data \<longleftrightarrow>
     encoded n cnt orig \<and> 0 < n \<and> n \<le> 64 \<and> 16 * cnt < 2 ^ 31 \<and> length data = n + 3 \<and>
     S \<subseteq> {..<n} \<and> A \<subseteq> {n..<n + 3} \<and>
     (\<forall>j<n. j \<notin> S \<longrightarrow> data ! j = orig ! j) \<and> (\<forall>j\<in>A. data ! j = orig ! j) \<and>
     (\<forall>j\<in>S. \<exists>b. data ! j = Some b \<and> wf_block cnt b)"

definition restore :: "blocks \<Rightarrow> nat set \<Rightarrow> blocks \<Rightarrow> blocks" where
  "restore orig S data = map (\<lambda>j. if j \<in> S then orig ! j else data ! j) [0..<length data]"

definition seen :: "blocks \<Rightarrow> nat set \<Rightarrow> nat \<Rightarrow> nat \<Rightarrow> v16" where
  "seen orig S k j = (if j \<in> S then VEC16 0 else vec orig j k)"

lemma recoverable_get:
  assumes "recoverable n cnt orig S A data" "k < cnt" "j < n \<or> j \<in> A"
  shows "get (prog orig S k data) (int j) k = Some (seen orig S k j)"
proof -
  have "j < n + 3" using assms by (auto simp: recoverable_def)
  with assms show ?thesis
    unfolding seen_def by (intro get_prog) (auto simp: recoverable_def)
qed

lemma recoverable_seen_length:
  assumes "recoverable n cnt orig S A data" "k < cnt" "j < n + 3"
  shows "length (seen orig S k j) = 16"
  using assms encoded_vec [of n cnt orig j k] by (auto simp: seen_def recoverable_def)

lemma recover_loop:
  assumes "recoverable n cnt orig S A data"
    and "\<And>k. k < cnt \<Longrightarrow> f (prog orig S k data) k = Some (prog orig S (Suc k) data)"
  shows "ofold f (prog orig S 0 data) [0..<cnt] = Some (restore orig S data)"
proof -
  have "\<exists>s. ofold f (prog orig S 0 data) [0..<cnt] = Some s \<and> s = prog orig S cnt data"
    by (rule ofold_upt_inv) (use assms(2) in auto)
  with assms(1) prog_done [of n cnt orig data S] show ?thesis
    by (auto simp: restore_def recoverable_def)
qed

lemma recover_loop_pd:
  assumes "recoverable n cnt orig S A data"
    and "\<And>k. k < cnt \<Longrightarrow> f (prog orig S k data, pd) k = Some (prog orig S (Suc k) data, pd)"
  shows "ofold f (prog orig S 0 data, pd) [0..<cnt] = Some (restore orig S data, pd)"
proof -
  have "\<exists>s. ofold f (prog orig S 0 data, pd) [0..<cnt] = Some s \<and> s = (prog orig S cnt data, pd)"
    by (rule ofold_upt_inv) (use assms(2) in auto)
  with assms(1) prog_done [of n cnt orig data S] show ?thesis
    by (auto simp: restore_def recoverable_def)
qed

lemma foldr_pair:
  "foldr (\<lambda>j s. case s of (p, q) \<Rightarrow> (f p (c j), g q (c j))) xs (a, b) =
    (foldr (\<lambda>j p. f p (c j)) xs a, foldr (\<lambda>j q. g q (c j)) xs b)"
  by (induction xs) simp_all

lemma foldr_triple:
  "foldr (\<lambda>j s. case s of (p, q, r) \<Rightarrow> (f p (c j), g q (c j), h r (c j))) xs (a, b, e) =
    (foldr (\<lambda>j p. f p (c j)) xs a, foldr (\<lambda>j q. g q (c j)) xs b, foldr (\<lambda>j r. h r (c j)) xs e)"
  by (induction xs) simp_all

lemma memset_one:
  assumes "recoverable n cnt orig {x} A data"
  shows "memset0 data (int x) (16 * int cnt) = Some (prog orig {x} 0 data)"
  using assms memset0_prog [of n cnt orig data x _ "{}"]
  by (auto simp: recoverable_def prog_none)

lemma memset_two:
  assumes "recoverable n cnt orig {x, y} A data" "x \<noteq> y"
  shows "do { data \<leftarrow> memset0 data (int x) (16 * int cnt); memset0 data (int y) (16 * int cnt) }
    = Some (prog orig {x, y} 0 data)"
  using assms memset0_prog [of n cnt orig data x _ "{}"] memset0_prog [of n cnt orig data y _ "{x}"]
  by (auto simp: recoverable_def prog_none insert_commute)

lemma memset_three:
  assumes "recoverable n cnt orig {x, y, z} A data" "x \<noteq> y" "x \<noteq> z" "y \<noteq> z"
  shows "do { data \<leftarrow> memset0 data (int x) (16 * int cnt);
              data \<leftarrow> memset0 data (int y) (16 * int cnt);
              memset0 data (int z) (16 * int cnt) }
    = Some (prog orig {x, y, z} 0 data)"
  using assms memset0_prog [of n cnt orig data x _ "{}"] memset0_prog [of n cnt orig data y _ "{x}"]
    memset0_prog [of n cnt orig data z _ "{y, x}"]
  by (auto simp: recoverable_def prog_none insert_commute)

lemma recoverable_put:
  assumes "recoverable n cnt orig S A data" "k < cnt" "x \<in> S" "x \<notin> T" "T \<subseteq> S" "v = vec orig x k"
  shows "put (fill orig S T k data) (int x) k v = Some (fill orig S (insert x T) k data)"
  using assms put_fill [of n cnt orig data S k x T] by (auto simp: recoverable_def)


end
