(* ===== verification/RSDecode.thy ===== *)
theory RSDecode
  imports RSStripe
begin

text \<open>
  The data decoders of decode.c: each of \<open>rs_decode1p\<close>, \<open>rs_decode1q\<close>, \<open>rs_decode1r\<close>,
  \<open>rs_decode2pq\<close>, \<open>rs_decode2pr\<close>, \<open>rs_decode2qr\<close> and \<open>rs_decode3pqr\<close> restores the missing
  data blocks from the others and from the parity blocks it reads.  Everything is proved
  once, for any build that meets the \<open>lane_build\<close> contract.
\<close>

declare r2PQ_row.simps [simp del] r2PR_row.simps [simp del] r2QR_row.simps [simp del] r3_row.simps [simp del]

text \<open>Syndrome \<open>k\<close> over the stripe with zeroed blocks, plus the stored one.\<close>

definition double :: "rs_build \<Rightarrow> nat \<Rightarrow> v16 \<Rightarrow> v16" where
  "double bld k v = (v16_mul2 bld ^^ k) v"

definition delta :: "rs_build \<Rightarrow> blocks \<Rightarrow> nat set \<Rightarrow> nat \<Rightarrow> nat \<Rightarrow> nat \<Rightarrow> v16" where
  "delta bld orig S n i k = vxor (horner (double bld k) (seen orig S i) n) (vec orig (n + k) i)"

context lane_build
begin

lemma scales_mul2: "scales (v16_mul2 bld) (gf_of 2)"
  by (simp add: scales_def v16_mul2_lanes lane_def gf_of_mul2)

lemma scales_double: "scales (double bld k) (gf_of 2 ^ k)"
proof (induction k)
  case 0
  then show ?case using scales_id by (simp add: double_def [abs_def])
next
  case (Suc k)
  from scales_comp [OF scales_mul2 this] show ?case
    by (simp add: double_def [abs_def])
qed

lemma scales_mulby: "scales (mulby bld c) (gf_of c)"
  by (simp add: scales_def mulby_lanes lane_def gf_of_mul)

lemmas lane_mulby = scales_mulby [unfolded scales_def, rule_format]

lemma delta_lanes:
  assumes "recoverable n cnt orig S A data" "i < cnt" "k < 3"
  shows "length (delta bld orig S n i k) = 16"
    and "l < 16 \<Longrightarrow> lane (delta bld orig S n i k) l = (\<Sum>j\<in>S. (gf_of 2 ^ k) ^ j * lane (vec orig j i) l)"
proof -
  have n: "0 < n" and c: "\<And>j. j < n \<Longrightarrow> length (seen orig S i j) = 16"
    using assms recoverable_seen_length [OF assms(1,2)] by (auto simp: recoverable_def)
  note h = horner_lanes [OF scales_double [of k] c n]
  have v: "length (vec orig (n + k) i) = 16"
    using assms encoded_vec [of n cnt orig "n + k" i] by (simp add: recoverable_def)
  show "length (delta bld orig S n i k) = 16"
    by (simp add: delta_def h v)
  assume l: "l < 16"
  have "lane (vec orig (n + k) i) l = (\<Sum>j<n. (gf_of 2 ^ k) ^ j * lane (vec orig j i) l)"
    using assms l by (intro encoded_syndrome) (auto simp: recoverable_def)
  then show "lane (delta bld orig S n i k) l = (\<Sum>j\<in>S. (gf_of 2 ^ k) ^ j * lane (vec orig j i) l)"
    using syndrome_missing [of S n l "gf_of 2 ^ k" "\<lambda>j. vec orig j i"] assms l
    by (simp add: delta_def lane_vxor h v seen_def recoverable_def)
qed

lemma syndromes_seen:
  assumes "recoverable n cnt orig S A data" "i < cnt"
  shows "P (prog orig S i data) (int n) i = Some (horner (double bld 0) (seen orig S i) n)"
    and "Q bld (prog orig S i data) (int n) i = Some (horner (double bld 1) (seen orig S i) n)"
    and "R bld (prog orig S i data) (int n) i = Some (horner (double bld 2) (seen orig S i) n)"
proof -
  have n: "0 < n" and g: "\<And>j. j < n \<Longrightarrow> get (prog orig S i data) (int j) i = Some (seen orig S i j)"
    using assms recoverable_get [OF assms] by (auto simp: recoverable_def)
  have last: "get (prog orig S i data) (int n - 1) i = Some (seen orig S i (n - 1))"
    using g [of "n - 1"] n by (simp add: of_nat_diff)
  show "P (prog orig S i data) (int n) i = Some (horner (double bld 0) (seen orig S i) n)"
    using ofold_down [of n "prog orig S i data" i "seen orig S i" vxor] g n
    by (simp add: P_def last horner_def double_def)
  show "Q bld (prog orig S i data) (int n) i = Some (horner (double bld 1) (seen orig S i) n)"
    using ofold_down [of n "prog orig S i data" i "seen orig S i" "\<lambda>q d. vxor (v16_mul2 bld q) d"] g n
    by (simp add: Q_def last horner_def double_def)
  show "R bld (prog orig S i data) (int n) i = Some (horner (double bld 2) (seen orig S i) n)"
    using ofold_down [of n "prog orig S i data" i "seen orig S i"
        "\<lambda>r d. vxor (v16_mul2 bld (v16_mul2 bld r)) d"] g n
    by (simp add: R_def last horner_def double_def numeral_2_eq_2)
qed

end

context lane_build
begin

lemma recover1:
  assumes "recoverable n cnt orig {x} A data" "i < cnt" "k < 3"
    and "\<And>d. gf_of c * ((gf_of 2 ^ k) ^ x * d) = d"
  shows "mulby bld c (delta bld orig {x} n i k) = vec orig x i"
proof (rule vec_eqI)
  note d = delta_lanes [OF assms(1-3)]
  show "length (mulby bld c (delta bld orig {x} n i k)) = 16" by (simp add: lane_mulby d)
  show "length (vec orig x i) = 16"
    using assms encoded_vec [of n cnt orig x i] by (simp add: recoverable_def)
  fix l :: nat assume "l < 16"
  then show "lane (mulby bld c (delta bld orig {x} n i k)) l = lane (vec orig x i) l"
    using assms(4) by (simp add: lane_mulby d)
qed

lemma recover2:
  assumes "recoverable n cnt orig {x, y} A data" "x \<noteq> y" "i < cnt" "k < 3" "m < 3" "w < n"
    and "\<And>l. l < 16 \<Longrightarrow> gf_of c * ((gf_of 2 ^ k) ^ x * lane (vec orig x i) l + (gf_of 2 ^ k) ^ y * lane (vec orig y i) l)
        + gf_of e * ((gf_of 2 ^ m) ^ x * lane (vec orig x i) l + (gf_of 2 ^ m) ^ y * lane (vec orig y i) l)
        = lane (vec orig w i) l"
  shows "vxor (mulby bld c (delta bld orig {x, y} n i k)) (mulby bld e (delta bld orig {x, y} n i m))
    = vec orig w i"
proof (rule vec_eqI)
  note d = delta_lanes [OF assms(1,3,4)] delta_lanes [OF assms(1,3,5)]
  show "length (vxor (mulby bld c (delta bld orig {x, y} n i k)) (mulby bld e (delta bld orig {x, y} n i m))) = 16"
    by (simp add: lane_mulby d)
  show "length (vec orig w i) = 16"
    using assms encoded_vec [of n cnt orig w i] by (simp add: recoverable_def)
  fix l :: nat assume "l < 16"
  then show "lane (vxor (mulby bld c (delta bld orig {x, y} n i k)) (mulby bld e (delta bld orig {x, y} n i m))) l
      = lane (vec orig w i) l"
    using assms(2) assms(7) [of l] by (simp add: lane_mulby lane_vxor d)
qed

lemma recover3:
  assumes "recoverable n cnt orig {x, y, z} A data" "x < y" "y < z" "i < cnt" "w < n"
    and "\<And>l. l < 16 \<Longrightarrow>
        gf_of c * (lane (vec orig x i) l + lane (vec orig y i) l + lane (vec orig z i) l)
        + gf_of e * (gf_of 2 ^ x * lane (vec orig x i) l + gf_of 2 ^ y * lane (vec orig y i) l
            + gf_of 2 ^ z * lane (vec orig z i) l)
        + gf_of f * ((gf_of 2 ^ x)\<^sup>2 * lane (vec orig x i) l + (gf_of 2 ^ y)\<^sup>2 * lane (vec orig y i) l
            + (gf_of 2 ^ z)\<^sup>2 * lane (vec orig z i) l)
        = lane (vec orig w i) l"
  shows "vxor (vxor (mulby bld c (delta bld orig {x, y, z} n i 0)) (mulby bld e (delta bld orig {x, y, z} n i 1)))
      (mulby bld f (delta bld orig {x, y, z} n i 2)) = vec orig w i"
proof (rule vec_eqI)
  note d = delta_lanes [OF assms(1,4), of 0, simplified] delta_lanes [OF assms(1,4), of 1, simplified]
    delta_lanes [OF assms(1,4), of 2, simplified]
  let ?v = "vxor (vxor (mulby bld c (delta bld orig {x, y, z} n i 0)) (mulby bld e (delta bld orig {x, y, z} n i 1)))
      (mulby bld f (delta bld orig {x, y, z} n i 2))"
  show "length ?v = 16" by (simp add: lane_mulby d)
  show "length (vec orig w i) = 16"
    using assms encoded_vec [of n cnt orig w i] by (simp add: recoverable_def)
  fix l :: nat assume l: "l < 16"
  have "(gf_of 2)\<^sup>2 ^ j = (gf_of 2 ^ j)\<^sup>2" for j by (simp flip: power_mult add: mult.commute)
  with l show "lane ?v l = lane (vec orig w i) l"
    using assms(2,3) assms(6) [of l] by (simp add: lane_mulby lane_vxor d add.assoc)
qed

lemma recoverable_parity:
  assumes "recoverable n cnt orig S A data" "i < cnt" "n + k \<in> A"
  shows "get (prog orig S i data) (int n + int k) i = Some (vec orig (n + k) i)"
  using recoverable_get [OF assms(1,2), of "n + k"] assms
  by (auto simp: seen_def recoverable_def)

lemma rs_decode1p_ok:
  assumes "recoverable n cnt orig {x} {n} data"
  shows "rs_decode1p (int n) (16 * int cnt) (int x) data = Some (restore orig {x} data)"
proof -
  have "ofold (\<lambda>data i. do { p \<leftarrow> P data (int n) i; d \<leftarrow> get data (int n) i; put data (int x) i (vxor p d) })
      (prog orig {x} 0 data) [0..<cnt] = Some (restore orig {x} data)"
  proof (rule recover_loop [OF assms])
    fix i assume i: "i < cnt"
    have "mulby bld 1 (delta bld orig {x} n i 0) = vec orig x i"
      using recover1 [OF assms i, of 0 1] by (simp add: gf_of_simps)
    moreover have "mulby bld 1 v = v" if "length v = 16" for v
      using that by (auto intro!: vec_eqI simp: lane_mulby gf_of_1)
    ultimately have "delta bld orig {x} n i 0 = vec orig x i"
      using delta_lanes [OF assms i, of 0] by simp
    then show "do { p \<leftarrow> P (prog orig {x} i data) (int n) i; d \<leftarrow> get (prog orig {x} i data) (int n) i;
        put (prog orig {x} i data) (int x) i (vxor p d) } = Some (prog orig {x} (Suc i) data)"
      using syndromes_seen [OF assms i] recoverable_parity [OF assms i, of 0]
        recoverable_put [OF assms i, of x "{}"]
      by (simp add: delta_def fill_empty fill_all)
  qed
  with memset_one [OF assms] show ?thesis
    using assms nvec_blocksize by (simp add: rs_decode1p_def recoverable_def)
qed

lemma rs_decode1q_ok:
  assumes "recoverable n cnt orig {x} {n + 1} data"
  shows "rs_decode1q bld (int n) (16 * int cnt) (int x) data = Some (restore orig {x} data)"
proof -
  have x: "x < 64" using assms by (auto simp: recoverable_def)
  have t: "tab1 rs_r1Q (int x) = Some (pow2 ! (255 - x))"
    using tab1_row [OF x] by (simp add: rs_r1Q_def)
  have "ofold (\<lambda>data i. do { c \<leftarrow> tab1 rs_r1Q (int x); q \<leftarrow> Q bld data (int n) i; d \<leftarrow> get data (int n + 1) i;
      put data (int x) i (mulby bld c (vxor q d)) }) (prog orig {x} 0 data) [0..<cnt]
    = Some (restore orig {x} data)"
    by (rule recover_loop [OF assms])
      (use recover1 [OF assms, of _ 1 "pow2 ! (255 - x)"] r1Q_solves [OF x]
        syndromes_seen [OF assms] recoverable_parity [OF assms, of _ 1]
        recoverable_put [OF assms, of _ x "{}"]
       in \<open>simp add: t delta_def fill_empty fill_all\<close>)
  with memset_one [OF assms] show ?thesis
    using assms nvec_blocksize by (simp add: rs_decode1q_def recoverable_def)
qed

lemma rs_decode1r_ok:
  assumes "recoverable n cnt orig {x} {n + 2} data"
  shows "rs_decode1r bld (int n) (16 * int cnt) (int x) data = Some (restore orig {x} data)"
proof -
  have x: "x < 64" using assms by (auto simp: recoverable_def)
  have t: "tab1 rs_r1R (int x) = Some (pow2 ! (255 - 2 * x))"
    using tab1_row [OF x] by (simp add: rs_r1R_def)
  have "ofold (\<lambda>data i. do { c \<leftarrow> tab1 rs_r1R (int x); r \<leftarrow> R bld data (int n) i; d \<leftarrow> get data (int n + 2) i;
      put data (int x) i (mulby bld c (vxor r d)) }) (prog orig {x} 0 data) [0..<cnt]
    = Some (restore orig {x} data)"
    by (rule recover_loop [OF assms])
      (use recover1 [OF assms, of _ 2 "pow2 ! (255 - 2 * x)"] r1R_solves [OF x]
        syndromes_seen [OF assms] recoverable_parity [OF assms, of _ 2]
        recoverable_put [OF assms, of _ x "{}"]
       in \<open>simp add: t delta_def fill_empty fill_all\<close>)
  with memset_one [OF assms] show ?thesis
    using assms nvec_blocksize by (simp add: rs_decode1r_def recoverable_def)
qed

end

context lane_build
begin

lemma scan2:
  assumes "recoverable n cnt orig S A data" "i < cnt"
    and f: "f = (\<lambda>a d. vxor (double bld k a) d)" and g: "g = (\<lambda>a d. vxor (double bld m a) d)"
  shows "do { d0 \<leftarrow> get (prog orig S i data) (int n - 1) i;
      ofold (\<lambda>(a, b) j. do { d \<leftarrow> get (prog orig S i data) j i; Some (f a d, g b d) })
        (d0, d0) (down_from (int n - 1 + 1)) }
    = Some (horner (double bld k) (seen orig S i) n, horner (double bld m) (seen orig S i) n)"
proof -
  have n: "0 < n" and get: "\<And>j. j < n \<Longrightarrow> get (prog orig S i data) (int j) i = Some (seen orig S i j)"
    using assms recoverable_get [OF assms(1,2)] by (auto simp: recoverable_def)
  have "(\<lambda>(a, b) j. do { d \<leftarrow> get (prog orig S i data) j i; Some (f a d, g b d) })
     = (\<lambda>s j. do { d \<leftarrow> get (prog orig S i data) j i; Some (case s of (a, b) \<Rightarrow> (f a d, g b d)) })"
    by (auto simp: fun_eq_iff split: prod.splits)
  moreover have "get (prog orig S i data) (int n - 1) i = Some (seen orig S i (n - 1))"
    using get [of "n - 1"] n by (simp add: of_nat_diff)
  ultimately show ?thesis
    using ofold_down [of n "prog orig S i data" i "seen orig S i"
        "\<lambda>s d. case s of (a, b) \<Rightarrow> (f a d, g b d)"] get n
    by (simp add: foldr_pair [of f "seen orig S i" g] horner_def) (simp add: f g)
qed

lemma scan3:
  assumes "recoverable n cnt orig S A data" "i < cnt"
    and f: "f = (\<lambda>a d. vxor (double bld 0 a) d)" and g: "g = (\<lambda>a d. vxor (double bld 1 a) d)"
    and h: "h = (\<lambda>a d. vxor (double bld 2 a) d)"
  shows "do { d0 \<leftarrow> get (prog orig S i data) (int n - 1) i;
      ofold (\<lambda>(a, b, c) j. do { d \<leftarrow> get (prog orig S i data) j i; Some (f a d, g b d, h c d) })
        (d0, d0, d0) (down_from (int n - 1 + 1)) }
    = Some (horner (double bld 0) (seen orig S i) n, horner (double bld 1) (seen orig S i) n,
            horner (double bld 2) (seen orig S i) n)"
proof -
  have n: "0 < n" and get: "\<And>j. j < n \<Longrightarrow> get (prog orig S i data) (int j) i = Some (seen orig S i j)"
    using assms recoverable_get [OF assms(1,2)] by (auto simp: recoverable_def)
  have "(\<lambda>(a, b, c) j. do { d \<leftarrow> get (prog orig S i data) j i; Some (f a d, g b d, h c d) })
     = (\<lambda>s j. do { d \<leftarrow> get (prog orig S i data) j i;
                  Some (case s of (a, b, c) \<Rightarrow> (f a d, g b d, h c d)) })"
    by (auto simp: fun_eq_iff split: prod.splits)
  moreover have "get (prog orig S i data) (int n - 1) i = Some (seen orig S i (n - 1))"
    using get [of "n - 1"] n by (simp add: of_nat_diff)
  ultimately show ?thesis
    using ofold_down [of n "prog orig S i data" i "seen orig S i"
        "\<lambda>s d. case s of (a, b, c) \<Rightarrow> (f a d, g b d, h c d)"] get n
    by (simp add: foldr_triple [of f "seen orig S i" g h] horner_def) (simp add: f g h)
qed
lemma gf2_square_pow: "(gf_of 2)\<^sup>2 ^ j = (gf_of 2 ^ j)\<^sup>2"
  by (simp flip: power_mult add: mult.commute)

lemma double_simps: "double bld 0 v = v" "double bld 1 v = v16_mul2 bld v" "double bld (Suc 0) v = v16_mul2 bld v"
    "double bld 2 v = v16_mul2 bld (v16_mul2 bld v)"
  by (simp_all add: double_def numeral_2_eq_2)

lemma put_two:
  assumes "recoverable n cnt orig {x, y} A data" "x \<noteq> y" "i < cnt" "v = vec orig x i" "w = vec orig y i"
  shows "do { data \<leftarrow> put (prog orig {x, y} i data) (int x) i v; data \<leftarrow> put data (int y) i w; Some (data, pd) }
    = Some (prog orig {x, y} (Suc i) data, pd)"
  using recoverable_put [OF assms(1,3), of x "{}"] recoverable_put [OF assms(1,3), of y "{x}"] assms
  by (simp add: fill_empty fill_all insert_commute flip: fill_all)

lemma put_three:
  assumes "recoverable n cnt orig {x, y, z} A data" "x < y" "y < z" "i < cnt"
    "v = vec orig x i" "w = vec orig y i" "u = vec orig z i"
  shows "do { data \<leftarrow> put (prog orig {x, y, z} i data) (int x) i v; data \<leftarrow> put data (int y) i w;
      data \<leftarrow> put data (int z) i u; Some (data, pd) }
    = Some (prog orig {x, y, z} (Suc i) data, pd)"
  using recoverable_put [OF assms(1,4), of x "{}"] recoverable_put [OF assms(1,4), of y "{x}"]
    recoverable_put [OF assms(1,4), of z "{y, x}"] assms
  by (simp add: fill_empty insert_commute flip: fill_all)

lemma decode2pq_col_ok:
  assumes "recoverable n cnt orig {x, y} {n, n + 1} data" "x < y" "i < cnt"
  shows "decode2pq_col bld (int n) (int x) (int y) (r2PQ_row (x, y)) (prog orig {x, y} i data, int n - 1) i
    = Some (prog orig {x, y} (Suc i) data, int n - 1)"
proof -
  have y: "y < n" "x < n" "y < 64" using assms by (auto simp: recoverable_def)
  define c where "c = r2PQ_row (x, y)"
  note rows = r2PQ_solves [OF assms(2) y(3), folded c_def]
  have "vxor (mulby bld (c ! 0) (delta bld orig {x, y} n i 0)) (mulby bld (c ! 1) (delta bld orig {x, y} n i 1))
        = vec orig x i"
    by (rule recover2 [OF assms(1) _ assms(3)]) (use assms(2) y rows in auto)
  moreover have "vxor (mulby bld (c ! 2) (delta bld orig {x, y} n i 0)) (mulby bld (c ! 3) (delta bld orig {x, y} n i 1))
        = vec orig y i"
    by (rule recover2 [OF assms(1) _ assms(3)]) (use assms(2) y rows in auto)
  moreover note put_two [OF assms(1) _ assms(3)]
  ultimately show ?thesis
    using scan2 [OF assms(1,3), of "vxor" 0 "\<lambda>q d. vxor (v16_mul2 bld q) d" 1] assms(2)
      recoverable_parity [OF assms(1,3), of 0] recoverable_parity [OF assms(1,3), of 1]
    by (simp add: decode2pq_col_def double_simps delta_def flip: c_def bind_assoc)
qed

lemma rs_decode2pq_ok:
  assumes "recoverable n cnt orig {x, y} {n, n + 1} data" "x < y"
  shows "rs_decode2pq bld (int n) (16 * int cnt) (int x) (int y) data = Some (restore orig {x, y} data)"
proof -
  have y: "y < 64" using assms by (auto simp: recoverable_def)
  have "tab2 rs_r2PQ (int x) (int y) = Some (r2PQ_row (x, y))"
    using tab2_row [OF assms(2) y] by (simp add: rs_r2PQ_def)
  moreover have "ofold (decode2pq_col bld (int n) (int x) (int y) (r2PQ_row (x, y))) (prog orig {x, y} 0 data, int n - 1)
      [0..<cnt] = Some (restore orig {x, y} data, int n - 1)"
    by (rule recover_loop_pd [OF assms(1)]) (rule decode2pq_col_ok [OF assms])
  moreover note memset_two [OF assms(1)]
  ultimately show ?thesis
    using assms nvec_blocksize by (simp add: rs_decode2pq_def recoverable_def flip: bind_assoc)
qed

lemma decode2pr_col_ok:
  assumes "recoverable n cnt orig {x, y} {n, n + 2} data" "x < y" "i < cnt"
  shows "decode2pr_col bld (int n) (int x) (int y) (r2PR_row (x, y)) (prog orig {x, y} i data, int n - 1) i
    = Some (prog orig {x, y} (Suc i) data, int n - 1)"
proof -
  have y: "y < n" "x < n" "y < 64" using assms by (auto simp: recoverable_def)
  define c where "c = r2PR_row (x, y)"
  note rows = r2PR_solves [OF assms(2) y(3), folded c_def]
  have "vxor (mulby bld (c ! 0) (delta bld orig {x, y} n i 0)) (mulby bld (c ! 1) (delta bld orig {x, y} n i 2))
        = vec orig x i"
    by (rule recover2 [OF assms(1) _ assms(3)]) (use assms(2) y rows in auto)
  moreover have "vxor (mulby bld (c ! 2) (delta bld orig {x, y} n i 0)) (mulby bld (c ! 3) (delta bld orig {x, y} n i 2))
        = vec orig y i"
    by (rule recover2 [OF assms(1) _ assms(3)]) (use assms(2) y rows in auto)
  moreover note put_two [OF assms(1) _ assms(3)]
  ultimately show ?thesis
    using scan2 [OF assms(1,3), of "vxor" 0 "\<lambda>r d. vxor (v16_mul2 bld (v16_mul2 bld r)) d" 2] assms(2)
      recoverable_parity [OF assms(1,3), of 0] recoverable_parity [OF assms(1,3), of 2]
    by (simp add: decode2pr_col_def double_simps delta_def flip: c_def bind_assoc)
qed

lemma rs_decode2pr_ok:
  assumes "recoverable n cnt orig {x, y} {n, n + 2} data" "x < y"
  shows "rs_decode2pr bld (int n) (16 * int cnt) (int x) (int y) data = Some (restore orig {x, y} data)"
proof -
  have y: "y < 64" using assms by (auto simp: recoverable_def)
  have "tab2 rs_r2PR (int x) (int y) = Some (r2PR_row (x, y))"
    using tab2_row [OF assms(2) y] by (simp add: rs_r2PR_def)
  moreover have "ofold (decode2pr_col bld (int n) (int x) (int y) (r2PR_row (x, y))) (prog orig {x, y} 0 data, int n - 1)
      [0..<cnt] = Some (restore orig {x, y} data, int n - 1)"
    by (rule recover_loop_pd [OF assms(1)]) (rule decode2pr_col_ok [OF assms])
  moreover note memset_two [OF assms(1)]
  ultimately show ?thesis
    using assms nvec_blocksize by (simp add: rs_decode2pr_def recoverable_def flip: bind_assoc)
qed

lemma decode2qr_col_ok:
  assumes "recoverable n cnt orig {x, y} {n + 1, n + 2} data" "x < y" "i < cnt"
  shows "decode2qr_col bld (int n) (int x) (int y) (r2QR_row (x, y)) (prog orig {x, y} i data, int n - 1) i
    = Some (prog orig {x, y} (Suc i) data, int n - 1)"
proof -
  have y: "y < n" "x < n" "y < 64" using assms by (auto simp: recoverable_def)
  define c where "c = r2QR_row (x, y)"
  note rows = r2QR_solves [OF assms(2) y(3), folded c_def]
  have "vxor (mulby bld (c ! 0) (delta bld orig {x, y} n i 1)) (mulby bld (c ! 1) (delta bld orig {x, y} n i 2))
        = vec orig x i"
    by (rule recover2 [OF assms(1) _ assms(3)]) (use assms(2) y rows gf2_square_pow in \<open>auto\<close>)
  moreover have "vxor (mulby bld (c ! 2) (delta bld orig {x, y} n i 1)) (mulby bld (c ! 3) (delta bld orig {x, y} n i 2))
        = vec orig y i"
    by (rule recover2 [OF assms(1) _ assms(3)]) (use assms(2) y rows gf2_square_pow in \<open>auto\<close>)
  moreover note put_two [OF assms(1) _ assms(3)]
  ultimately show ?thesis
    using scan2 [OF assms(1,3), of "\<lambda>q d. vxor (v16_mul2 bld q) d" 1 "\<lambda>r d. vxor (v16_mul2 bld (v16_mul2 bld r)) d" 2] assms(2)
      recoverable_parity [OF assms(1,3), of 1] recoverable_parity [OF assms(1,3), of 2]
    by (simp add: decode2qr_col_def add.commute [of 1 "int n"] double_simps delta_def flip: c_def bind_assoc)
qed

lemma rs_decode2qr_ok:
  assumes "recoverable n cnt orig {x, y} {n + 1, n + 2} data" "x < y"
  shows "rs_decode2qr bld (int n) (16 * int cnt) (int x) (int y) data = Some (restore orig {x, y} data)"
proof -
  have y: "y < 64" using assms by (auto simp: recoverable_def)
  have "tab2 rs_r2QR (int x) (int y) = Some (r2QR_row (x, y))"
    using tab2_row [OF assms(2) y] by (simp add: rs_r2QR_def)
  moreover have "ofold (decode2qr_col bld (int n) (int x) (int y) (r2QR_row (x, y))) (prog orig {x, y} 0 data, int n - 1)
      [0..<cnt] = Some (restore orig {x, y} data, int n - 1)"
    by (rule recover_loop_pd [OF assms(1)]) (rule decode2qr_col_ok [OF assms])
  moreover note memset_two [OF assms(1)]
  ultimately show ?thesis
    using assms nvec_blocksize by (simp add: rs_decode2qr_def recoverable_def flip: bind_assoc)
qed

lemma decode3pqr_col_ok:
  assumes "recoverable n cnt orig {x, y, z} {n, n + 1, n + 2} data" "x < y" "y < z" "i < cnt"
  shows "decode3pqr_col bld (int n) (int x) (int y) (int z) (r3_row (x, y, z)) (prog orig {x, y, z} i data, int n - 1) i
    = Some (prog orig {x, y, z} (Suc i) data, int n - 1)"
proof -
  have z: "x < n" "y < n" "z < n" "z < 64" using assms by (auto simp: recoverable_def)
  define c where "c = r3_row (x, y, z)"
  note rows = r3_solves [OF assms(2,3) z(4), folded c_def]
  let ?row = "\<lambda>k m p. vxor (vxor (mulby bld (c ! k) (delta bld orig {x, y, z} n i 0))
      (mulby bld (c ! m) (delta bld orig {x, y, z} n i 1)))
      (mulby bld (c ! p) (delta bld orig {x, y, z} n i 2))"
  have "?row 0 1 2 = vec orig x i" "?row 3 4 5 = vec orig y i" "?row 6 7 8 = vec orig z i"
    by (rule recover3 [OF assms]; use z rows in simp)+
  moreover note put_three [OF assms]
  ultimately show ?thesis
    using scan3 [OF assms(1,4), of vxor "\<lambda>q d. vxor (v16_mul2 bld q) d" "\<lambda>r d. vxor (v16_mul2 bld (v16_mul2 bld r)) d"]
      recoverable_parity [OF assms(1,4), of 0] recoverable_parity [OF assms(1,4), of 1] recoverable_parity [OF assms(1,4), of 2]
    by (simp add: decode3pqr_col_def double_simps delta_def add.commute [of 1 "int n"] flip: c_def bind_assoc)
qed

lemma rs_decode3pqr_ok:
  assumes "recoverable n cnt orig {x, y, z} {n, n + 1, n + 2} data" "x < y" "y < z"
  shows "rs_decode3pqr bld (int n) (16 * int cnt) (int x) (int y) (int z) data = Some (restore orig {x, y, z} data)"
proof -
  have "z < 64" using assms by (auto simp: recoverable_def)
  from tab3_row [OF assms(2,3) this] have "tab3 rs_r3 (int x) (int y) (int z) = Some (r3_row (x, y, z))"
    by (simp add: rs_r3_def)
  moreover have "ofold (decode3pqr_col bld (int n) (int x) (int y) (int z) (r3_row (x, y, z)))
      (prog orig {x, y, z} 0 data, int n - 1) [0..<cnt] = Some (restore orig {x, y, z} data, int n - 1)"
    by (rule recover_loop_pd [OF assms(1)]) (rule decode3pqr_col_ok [OF assms])
  moreover note memset_three [OF assms(1)]
  ultimately show ?thesis
    using assms nvec_blocksize by (simp add: rs_decode3pqr_def recoverable_def flip: bind_assoc)
qed

end

end
