(* ===== verification/RSEncode.thy ===== *)
theory RSEncode
  imports RSDecode
begin

text \<open>
  The encoder of encode.c against a reference encoder that computes every parity byte from
  its definition.
\<close>

definition stripe :: "nat \<Rightarrow> nat \<Rightarrow> blocks \<Rightarrow> bool" where
  "stripe n cnt data \<longleftrightarrow>
     length data = n + 3 \<and> (\<forall>p\<in>set data. case p of None \<Rightarrow> False | Some b \<Rightarrow> wf_block cnt b)"

definition with_parity :: "nat \<Rightarrow> nat \<Rightarrow> blocks \<Rightarrow> blocks" where
  "with_parity n cnt data =
     take n data @ map (\<lambda>k. Some (map (\<lambda>i. map (\<lambda>l. parity k (column data n i l)) [0..<16]) [0..<cnt])) [0..<3]"

lemma stripe_block:
  assumes "stripe n cnt data" "j < n + 3"
  obtains b where "data ! j = Some b" "wf_block cnt b"
proof -
  have "data ! j \<in> set data" using assms by (simp add: stripe_def)
  then have "case data ! j of None \<Rightarrow> False | Some b \<Rightarrow> wf_block cnt b"
    using assms(1) by (simp add: stripe_def)
  with that show ?thesis by (cases "data ! j") auto
qed

lemma stripeI:
  assumes "length data = n + 3" "\<And>j. j < n + 3 \<Longrightarrow> \<exists>b. data ! j = Some b \<and> wf_block cnt b"
  shows "stripe n cnt data"
  using assms by (fastforce simp: stripe_def in_set_conv_nth)

lemma encoded_stripe: "encoded n cnt data \<Longrightarrow> stripe n cnt data"
  by (simp add: encoded_def stripe_def)

lemma stripe_get:
  assumes "stripe n cnt data" "j < n + 3" "i < cnt"
  shows "get data (int j) i = Some (vec data j i)"
proof -
  obtain b where "data ! j = Some b" "wf_block cnt b" using stripe_block [OF assms(1,2)] .
  with assms show ?thesis by (simp add: get_def stripe_def wf_block_def)
qed

lemma stripe_vec: "stripe n cnt data \<Longrightarrow> j < n + 3 \<Longrightarrow> i < cnt \<Longrightarrow> length (vec data j i) = 16"
  by (metis stripe_block option.sel wf_block_vec)

lemma stripe_put:
  assumes "stripe n cnt data" "j < n + 3" "i < cnt" "length v = 16"
  shows "put data (int j) i v = Some (data[j := Some ((the (data ! j))[i := v])])"
    and "stripe n cnt (data[j := Some ((the (data ! j))[i := v])])"
proof -
  obtain b where b: "data ! j = Some b" "wf_block cnt b" using stripe_block [OF assms(1,2)] .
  then show "put data (int j) i v = Some (data[j := Some ((the (data ! j))[i := v])])"
    using assms by (simp add: put_def stripe_def wf_block_def)
  have "wf_block cnt (b[i := v])"
    using b assms(4) set_update_subset_insert [of b i v] by (auto simp: wf_block_def)
  then show "stripe n cnt (data[j := Some ((the (data ! j))[i := v])])"
    using assms(1) b(1) set_update_subset_insert [of data j "Some (b[i := v])"]
    by (auto simp: stripe_def)
qed

lemma length_with_parity: "stripe n cnt data \<Longrightarrow> length (with_parity n cnt data) = n + 3"
  by (simp add: with_parity_def stripe_def)

lemma nth_with_parity:
  assumes "stripe n cnt data"
  shows "j < n \<Longrightarrow> with_parity n cnt data ! j = data ! j"
    and "k < 3 \<Longrightarrow> with_parity n cnt data ! (n + k) =
      Some (map (\<lambda>i. map (\<lambda>l. parity k (column data n i l)) [0..<16]) [0..<cnt])"
  using assms by (simp_all add: with_parity_def stripe_def nth_append del: upt_rec_numeral)

lemma with_parity_encoded:
  assumes "stripe n cnt data"
  shows "encoded n cnt (with_parity n cnt data)"
proof -
  have c: "column (with_parity n cnt data) n i l = column data n i l" for i l
    by (simp add: column_def nth_with_parity [OF assms])
  have "wf_block cnt (map (\<lambda>i. map (\<lambda>l. parity k (column data n i l)) [0..<16]) [0..<cnt])" for k
    by (auto simp: wf_block_def)
  then have "\<forall>p\<in>set (with_parity n cnt data). case p of None \<Rightarrow> False | Some b \<Rightarrow> wf_block cnt b"
    using assms by (auto simp: with_parity_def stripe_def dest: in_set_takeD)
  then show ?thesis
    using assms by (simp add: encoded_def length_with_parity nth_with_parity c del: upt_rec_numeral)
qed

lemma encoded_with_parity:
  assumes "encoded n cnt orig" "stripe n cnt data" "\<And>j. j < n \<Longrightarrow> data ! j = orig ! j"
  shows "with_parity n cnt data = orig"
proof (rule nth_equalityI)
  show "length (with_parity n cnt data) = length orig"
    using assms by (simp add: length_with_parity encoded_length)
  fix j assume "j < length (with_parity n cnt data)"
  then have j: "j < n + 3" using assms(2) by (simp add: length_with_parity)
  show "with_parity n cnt data ! j = orig ! j"
  proof (cases "j < n")
    case False
    define k where "k = j - n"
    with False j have k: "j = n + k" "k < 3" by auto
    obtain b where b: "orig ! j = Some b" "wf_block cnt b" using encoded_block [OF assms(1) j] .
    have "column data n i l = column orig n i l" for i l
      using assms(3) by (simp add: column_def)
    moreover have "b ! i ! l = parity k (column orig n i l)" if "i < cnt" "l < 16" for i l
    proof -
      have "vec orig (n + k) i ! l = parity k (column orig n i l)"
        using assms(1) that k(2) unfolding encoded_def by blast
      with b(1) k(1) show ?thesis by simp
    qed
    ultimately show ?thesis using b assms(1) k
      by (auto intro!: nth_equalityI simp: nth_with_parity [OF assms(2)] encoded_def wf_block_def
          simp del: upt_rec_numeral)
  qed (simp add: assms nth_with_parity)
qed

text \<open>Storing the three parity vectors of a column.\<close>

definition setpar :: "nat \<Rightarrow> nat \<Rightarrow> v16 \<Rightarrow> v16 \<Rightarrow> v16 \<Rightarrow> blocks \<Rightarrow> blocks" where
  "setpar n i p q r data =
     data[n := Some ((the (data ! n))[i := p]), n + 1 := Some ((the (data ! (n + 1)))[i := q]),
          n + 2 := Some ((the (data ! (n + 2)))[i := r])]"

lemma setpar_stripe:
  assumes "stripe n cnt data" "i < cnt" "length p = 16" "length q = 16" "length r = 16"
  shows "stripe n cnt (setpar n i p q r data)"
proof -
  let ?d1 = "data[n := Some ((the (data ! n))[i := p])]"
  let ?d2 = "?d1[n + 1 := Some ((the (?d1 ! (n + 1)))[i := q])]"
  have "stripe n cnt (?d2[n + 2 := Some ((the (?d2 ! (n + 2)))[i := r])])"
    using assms by (intro stripe_put(2)) auto
  then show ?thesis by (simp add: setpar_def)
qed

lemma setpar_nth:
  assumes "stripe n cnt data"
  shows "j < n \<Longrightarrow> setpar n i p q r data ! j = data ! j"
    and "setpar n i p q r data ! n = Some ((the (data ! n))[i := p])"
    and "setpar n i p q r data ! (n + 1) = Some ((the (data ! (n + 1)))[i := q])"
    and "setpar n i p q r data ! (n + 2) = Some ((the (data ! (n + 2)))[i := r])"
    and "length (setpar n i p q r data) = n + 3"
  using assms by (auto simp: setpar_def stripe_def)

lemma setpar_get:
  assumes "stripe n cnt data" "i < cnt"
  shows "j < n \<Longrightarrow> get (setpar n i p q r data) (int j) i = Some (vec data j i)"
    and "get (setpar n i p q r data) (int n) i = Some p"
    and "get (setpar n i p q r data) (int n + 1) i = Some q"
    and "get (setpar n i p q r data) (int n + 2) i = Some r"
proof -
  show "j < n \<Longrightarrow> get (setpar n i p q r data) (int j) i = Some (vec data j i)"
    using stripe_get [OF assms(1), of j i] assms by (simp add: get_def setpar_nth [OF assms(1)] stripe_def)
  have len: "i < length (the (data ! (n + k)))" if "k < 3" for k
    using stripe_block [OF assms(1), of "n + k"] that assms(2) by (metis add_less_cancel_left option.sel wf_block_def)
  show "get (setpar n i p q r data) (int n) i = Some p"
    "get (setpar n i p q r data) (int n + 1) i = Some q"
    "get (setpar n i p q r data) (int n + 2) i = Some r"
    using len [of 0] len [of 1] len [of 2]
    by (simp_all add: get_def setpar_nth [OF assms(1), simplified] nat_add_distrib)
qed

lemma setpar_put:
  assumes "stripe n cnt data" "i < cnt"
  shows "put (setpar n i p q r data) (int n) i p' = Some (setpar n i p' q r data)"
    and "put (setpar n i p q r data) (int n + 1) i q' = Some (setpar n i p q' r data)"
    and "put (setpar n i p q r data) (int n + 2) i r' = Some (setpar n i p q r' data)"
proof -
  have len: "i < length (the (data ! (n + k)))" if "k < 3" for k
    using stripe_block [OF assms(1), of "n + k"] that assms(2) by (metis add_less_cancel_left option.sel wf_block_def)
  show "put (setpar n i p q r data) (int n) i p' = Some (setpar n i p' q r data)"
    using len [of 0] by (simp add: put_def setpar_nth [OF assms(1)]) (simp add: setpar_def list_update_swap)
  show "put (setpar n i p q r data) (int n + 1) i q' = Some (setpar n i p q' r data)"
    using len [of 1] by (simp add: put_def setpar_nth [OF assms(1), simplified] nat_add_distrib)
      (simp add: setpar_def list_update_swap)
  show "put (setpar n i p q r data) (int n + 2) i r' = Some (setpar n i p q r' data)"
    using len [of 2] by (simp add: put_def setpar_nth [OF assms(1), simplified] nat_add_distrib)
      (simp add: setpar_def list_update_swap)
qed

lemma encode_step_ok:
  assumes "stripe n cnt data" "i < cnt" "j < n"
  shows "encode_step bld (int n) i (setpar n i p q r data) (int j)
    = Some (setpar n i (vxor p (vec data j i)) (vxor (v16_mul2 bld q) (vec data j i))
        (vxor (v16_mul2 bld (v16_mul2 bld r)) (vec data j i)) data)"
  using assms by (simp add: encode_step_def setpar_get [OF assms(1,2)] setpar_put [OF assms(1,2)])

lemma encode_steps_ok:
  assumes "stripe n cnt data" "i < cnt" "set js \<subseteq> {..<n}"
  shows "ofold (encode_step bld (int n) i) (setpar n i p q r data) (map int (rev js))
    = Some (setpar n i (foldr (\<lambda>j p. vxor (double bld 0 p) (vec data j i)) js p)
        (foldr (\<lambda>j q. vxor (double bld 1 q) (vec data j i)) js q)
        (foldr (\<lambda>j r. vxor (double bld 2 r) (vec data j i)) js r) data)"
  using assms(3)
proof (induction js)
  case (Cons j js)
  then show ?case
    by (simp add: ofold_append encode_step_ok [OF assms(1,2)] double_def numeral_2_eq_2)
qed simp

context lane_build
begin

lemma horner_stripe:
  assumes "stripe n cnt data" "0 < n" "n \<le> 64" "i < cnt" "k < 3"
  shows "horner (double bld k) (\<lambda>j. vec data j i) n = vec (with_parity n cnt data) (n + k) i"
proof (rule vec_eqI)
  note h = horner_lanes [OF scales_double [of k] stripe_vec [OF assms(1) _ assms(4)] assms(2)]
  show "length (horner (double bld k) (\<lambda>j. vec data j i) n) = 16" using h(1) by simp
  note enc = with_parity_encoded [OF assms(1)]
  show "length (vec (with_parity n cnt data) (n + k) i) = 16"
    using encoded_vec [OF enc, of "n + k" i] assms by simp
  fix l :: nat assume "l < 16"
  with h(2) encoded_syndrome [OF enc assms(3,4) _ assms(5)]
  show "lane (horner (double bld k) (\<lambda>j. vec data j i) n) l = lane (vec (with_parity n cnt data) (n + k) i) l"
    by (simp add: nth_with_parity [OF assms(1)])
qed

lemma encode_col_ok:
  assumes "stripe n cnt data" "0 < n" "n \<le> 64" "i < cnt"
  shows "encode_col bld (int n) data i = Some (setpar n i (vec (with_parity n cnt data) n i)
    (vec (with_parity n cnt data) (n + 1) i) (vec (with_parity n cnt data) (n + 2) i) data)"
proof -
  let ?e = "vec data (n - 1) i"
  have e: "get data (int n - 1) i = Some ?e" "length ?e = 16"
    using stripe_get [OF assms(1), of "n - 1" i] stripe_vec [OF assms(1), of "n - 1" i] assms
    by (simp_all add: of_nat_diff)
  have "do { data \<leftarrow> put data (int n + 2) i ?e; data \<leftarrow> put data (int n + 1) i ?e; put data (int n) i ?e }
    = Some (setpar n i ?e ?e ?e data)"
  proof -
    define d1 where "d1 = data[n + 2 := Some ((the (data ! (n + 2)))[i := ?e])]"
    define d2 where "d2 = d1[n + 1 := Some ((the (d1 ! (n + 1)))[i := ?e])]"
    have 1: "put data (int n + 2) i ?e = Some d1" "stripe n cnt d1"
      using stripe_put [OF assms(1), of "n + 2" i ?e] assms(4) e(2) by (simp_all add: d1_def add.commute)
    have 2: "put d1 (int n + 1) i ?e = Some d2" "stripe n cnt d2"
      using stripe_put [OF 1(2), of "n + 1" i ?e] assms(4) e(2) by (simp_all add: d2_def add.commute)
    have "put d2 (int n) i ?e = Some (d2[n := Some ((the (d2 ! n))[i := ?e])])"
      using stripe_put(1) [OF 2(2), of n i ?e] assms(4) e(2) by simp
    also have "d2[n := Some ((the (d2 ! n))[i := ?e])] = setpar n i ?e ?e ?e data"
      by (simp add: d1_def d2_def setpar_def list_update_swap)
    finally show ?thesis using 1 2 by simp
  qed
  moreover have "horner f (\<lambda>j. vec data j i) n = foldr (\<lambda>j q. vxor (f q) (vec data j i)) [0..<n - 1] ?e" for f
    by (simp add: horner_def)
  moreover have "nat (int n - 1) = n - 1" by arith
  then have "down_from (int n) = map int (rev [0..<n - 1])" "set [0..<n - 1] \<subseteq> {..<n}"
    by (auto simp: down_from_def)
  ultimately show ?thesis
    using encode_steps_ok [OF assms(1,4), of "[0..<n - 1]" bld ?e ?e ?e]
      horner_stripe [OF assms, of 0] horner_stripe [OF assms, of 1] horner_stripe [OF assms, of 2]
    by (simp add: encode_col_def e(1) flip: bind_assoc)
qed

end

text \<open>Columns below \<open>i\<close> of the parity blocks are done, the rest of the stripe is as before.\<close>

definition encoding :: "nat \<Rightarrow> nat \<Rightarrow> blocks \<Rightarrow> nat \<Rightarrow> blocks \<Rightarrow> bool" where
  "encoding n cnt data i s \<longleftrightarrow> stripe n cnt s \<and> (\<forall>j<n. s ! j = data ! j) \<and>
     (\<forall>k<3. \<forall>m<i. vec s (n + k) m = vec (with_parity n cnt data) (n + k) m)"

lemma with_parity_cong:
  assumes "stripe n cnt s" "stripe n cnt data" "\<forall>j<n. s ! j = data ! j"
  shows "with_parity n cnt s = with_parity n cnt data"
proof -
  have "column s n i l = column data n i l" for i l using assms by (simp add: column_def)
  moreover have "take n s = take n data" using assms by (auto intro: nth_equalityI simp: stripe_def)
  ultimately show ?thesis by (simp add: with_parity_def)
qed

context lane_build
begin

lemma encoding_step:
  assumes "encoding n cnt data i s" "stripe n cnt data" "0 < n" "n \<le> 64" "i < cnt"
  shows "\<exists>s'. encode_col bld (int n) s i = Some s' \<and> encoding n cnt data (Suc i) s'"
proof -
  let ?w = "\<lambda>k. vec (with_parity n cnt data) (n + k) i"
  let ?s = "setpar n i (?w 0) (?w 1) (?w 2) s"
  have st: "stripe n cnt s" using assms(1) by (simp add: encoding_def)
  have w: "with_parity n cnt s = with_parity n cnt data"
    using assms(1) by (intro with_parity_cong [OF st assms(2)]) (simp add: encoding_def)
  have len: "length (?w k) = 16" if "k < 3" for k
    using encoded_vec [OF with_parity_encoded [OF assms(2)], of "n + k" i] assms(5) that by simp
  have "stripe n cnt ?s" by (intro setpar_stripe [OF st assms(5)] len) simp_all
  moreover have "vec ?s (n + k) m = vec (with_parity n cnt data) (n + k) m" if "k < 3" "m < Suc i" for k m
  proof -
    have k: "k = 0 \<or> k = 1 \<or> k = 2" using that by auto
    have "i < length (the (s ! (n + k)))"
      using stripe_block [OF st, of "n + k"] that(1) assms(5) by (metis add_less_cancel_left option.sel wf_block_def)
    with k have "vec ?s (n + k) m = (if m = i then ?w k else vec s (n + k) m)"
      by (auto simp: setpar_nth [OF st, simplified] nth_list_update)
    with assms(1) that show ?thesis by (auto simp: encoding_def less_Suc_eq)
  qed
  moreover have "\<forall>j<n. ?s ! j = data ! j"
    using assms(1) by (simp add: setpar_nth [OF st] encoding_def)
  ultimately have "encoding n cnt data (Suc i) ?s" unfolding encoding_def by blast
  with encode_col_ok [OF st assms(3-5)] w show ?thesis by simp
qed

lemma encoding_done:
  assumes "encoding n cnt data cnt s" "stripe n cnt data"
  shows "s = with_parity n cnt data"
proof (rule nth_equalityI)
  have st: "stripe n cnt s" using assms by (simp add: encoding_def)
  then show "length s = length (with_parity n cnt data)"
    using assms by (simp add: length_with_parity stripe_def)
  fix j assume "j < length s"
  then have j: "j < n + 3" using st by (simp add: stripe_def)
  show "s ! j = with_parity n cnt data ! j"
  proof (cases "j < n")
    case False
    define k where "k = j - n"
    with False j have k: "j = n + k" "k < 3" by auto
    obtain b where b: "s ! j = Some b" "wf_block cnt b" using stripe_block [OF st j] .
    obtain b' where b': "with_parity n cnt data ! j = Some b'" "wf_block cnt b'"
      using encoded_block [OF with_parity_encoded [OF assms(2)] j] .
    have "vec s (n + k) m = vec (with_parity n cnt data) (n + k) m" if "m < cnt" for m
      using assms(1) k(2) that unfolding encoding_def by blast
    then have "b ! m = b' ! m" if "m < cnt" for m
      using that b(1) b'(1) k(1) by (metis option.sel)
    then have "b = b'" using b(2) b'(2) by (intro nth_equalityI) (simp_all add: wf_block_def)
    with b b' show ?thesis by simp
  qed (use assms(1) nth_with_parity [OF assms(2)] in \<open>simp add: encoding_def\<close>)
qed

lemma rs_encode_ok:
  assumes "stripe n cnt data" "0 < n" "n \<le> 64" "16 * cnt < 2 ^ 31"
  shows "rs_encode bld (int n + 3) (16 * int cnt) data = Some (with_parity n cnt data)"
proof -
  have "\<exists>s. ofold (encode_col bld (int n)) data [0..<cnt] = Some s \<and> encoding n cnt data cnt s"
  proof (rule ofold_upt_inv [where I = "encoding n cnt data"])
    show "encoding n cnt data 0 data" using assms(1) by (simp add: encoding_def)
    show "\<exists>s'. encode_col bld (int n) s i = Some s' \<and> encoding n cnt data (Suc i) s'"
      if "encoding n cnt data i s" "i < cnt" for i s
      using encoding_step [OF that(1) assms(1-3) that(2)] .
  qed
  then have "ofold (encode_col bld (int n)) data [0..<cnt] = Some (with_parity n cnt data)"
    using encoding_done [OF _ assms(1)] by blast
  then show ?thesis
    using assms(1,2) nvec_blocksize [OF assms(4)] by (simp add: rs_encode_def ptr_def stripe_def)
qed

end

end
