(* ===== verification/ReedSolomon.thy ===== *)
theory ReedSolomon
  imports RSEncode
begin

text \<open>
  The entry points of the erasure coder (rs.h): \<open>rs_encode\<close> and \<open>rs_decode1\<close>,
  \<open>rs_decode2\<close>, \<open>rs_decode3\<close>, with the choice of the recovery routine and the convention
  that null parity pointers ask for the data blocks only.
\<close>

subsection \<open>Damaged stripes and what a decoder must return\<close>

definition damaged :: "nat \<Rightarrow> nat \<Rightarrow> blocks \<Rightarrow> nat set \<Rightarrow> blocks \<Rightarrow> bool" where
  "damaged n cnt orig M data \<longleftrightarrow>
     encoded n cnt orig \<and> 0 < n \<and> n \<le> RS_LIB_MAX_DATA_BLOCKS \<and> 16 * cnt < 2 ^ 31 \<and>
     length data = n + 3 \<and> (\<forall>j<n + 3. j \<notin> M \<longrightarrow> data ! j = orig ! j) \<and>
     (\<forall>j<n + 3. j \<in> M \<longrightarrow>
        (case data ! j of None \<Rightarrow> n \<le> j | Some b \<Rightarrow> wf_block cnt b))"

definition parity_wanted :: "nat \<Rightarrow> blocks \<Rightarrow> bool" where
  "parity_wanted n data \<longleftrightarrow> data ! n \<noteq> None \<and> data ! (n + 1) \<noteq> None \<and> data ! (n + 2) \<noteq> None"

definition repaired :: "nat \<Rightarrow> blocks \<Rightarrow> blocks \<Rightarrow> blocks" where
  "repaired n orig data = (if parity_wanted n data then orig else take n orig @ drop n data)"

lemma damaged_recoverable:
  assumes d: "damaged n cnt orig M data" and S: "S = M \<inter> {..<n}" and A: "A \<subseteq> {n..<n + 3} - M"
  shows "recoverable n cnt orig S A data"
proof -
  have "\<exists>b. data ! j = Some b \<and> wf_block cnt b" if "j \<in> S" for j
  proof -
    have "j < n + 3" "j \<in> M" "\<not> n \<le> j" using that S by auto
    with d show ?thesis by (auto simp: damaged_def split: option.splits)
  qed
  moreover have "data ! j = orig ! j" if "j < n \<and> j \<notin> S \<or> j \<in> A" for j
  proof -
    have "j < n + 3" "j \<notin> M" using that S A by auto
    with d show ?thesis by (simp add: damaged_def)
  qed
  moreover have "S \<subseteq> {..<n}" "A \<subseteq> {n..<n + 3}" using S A by auto
  ultimately show ?thesis
    using d by (simp add: recoverable_def damaged_def RS_LIB_MAX_DATA_BLOCKS_def)
qed

lemma damaged_intact: "damaged n cnt orig M data \<Longrightarrow> j < n + 3 \<Longrightarrow> j \<notin> M \<Longrightarrow> data ! j = orig ! j"
  by (simp add: damaged_def)

lemma damaged_length: "damaged n cnt orig M data \<Longrightarrow> length data = n + 3 \<and> length orig = n + 3"
  by (auto simp: damaged_def encoded_length)

lemma damaged_encoded: "damaged n cnt orig M data \<Longrightarrow> encoded n cnt orig"
  by (simp add: damaged_def)

lemma length_restore [simp]: "length (restore orig S data) = length data"
  by (simp add: restore_def)

lemma nth_restore: "j < length data \<Longrightarrow> restore orig S data ! j = (if j \<in> S then orig ! j else data ! j)"
  by (simp add: restore_def)

lemma damaged_restore:
  assumes "damaged n cnt orig M data"
  shows "damaged n cnt orig (M - {..<n}) (restore orig (M \<inter> {..<n}) data)"
  using assms by (auto simp: damaged_def nth_restore)

lemma repaired_restore:
  assumes "damaged n cnt orig M data"
  shows "repaired n orig (restore orig (M \<inter> {..<n}) data) = repaired n orig data"
  using assms by (auto intro!: nth_equalityI simp: repaired_def parity_wanted_def nth_restore damaged_def)

lemma restore_repaired:
  assumes "damaged n cnt orig M data" "M \<subseteq> {..<n}"
  shows "restore orig M data = repaired n orig data"
proof -
  have p: "data ! (n + k) = orig ! (n + k)" if "k < 3" for k
    by (rule damaged_intact [OF assms(1)]) (use that assms(2) in auto)
  have s: "orig ! (n + k) \<noteq> None" if "k < 3" for k
    using encoded_block [OF damaged_encoded [OF assms(1)], of "n + k"] that by fastforce
  from p [of 0] p [of 1] p [of 2] s [of 0] s [of 1] s [of 2] have "repaired n orig data = orig"
    by (simp add: repaired_def parity_wanted_def)
  moreover have "restore orig M data = orig"
    using damaged_length [OF assms(1)]
    by (intro nth_equalityI) (auto simp: nth_restore damaged_intact [OF assms(1)])
  ultimately show ?thesis by simp
qed

lemma damaged_parity_stripe:
  assumes "damaged n cnt orig M data" "M \<subseteq> {n..}" "parity_wanted n data"
  shows "stripe n cnt data"
proof (rule stripeI)
  show "length data = n + 3" using assms by (simp add: damaged_def)
  fix j assume j: "j < n + 3"
  show "\<exists>b. data ! j = Some b \<and> wf_block cnt b"
  proof (cases "j \<in> M")
    case True
    with assms(2) have "n \<le> j" by auto
    with j have "j = n \<or> j = n + 1 \<or> j = n + 2" by auto
    then have "data ! j \<noteq> None" using assms(3) by (auto simp: parity_wanted_def)
    with True assms(1) j show ?thesis by (auto simp: damaged_def)
  next
    case False
    with assms(1) j have "data ! j = orig ! j" by (simp add: damaged_def)
    then show ?thesis using encoded_block [of n cnt orig j] assms(1) j by (metis damaged_def)
  qed
qed

context lane_build
begin

lemma rs_encode_if_requested_ok:
  assumes "damaged n cnt orig M data" "M \<subseteq> {n..}"
  shows "rs_encode_if_requested bld (int n + 3) (16 * int cnt) data = Some (repaired n orig data)"
proof -
  have intact: "data ! j = orig ! j" if "j < n" for j
    by (rule damaged_intact [OF assms(1)]) (use that assms(2) in auto)
  show ?thesis
  proof (cases "parity_wanted n data")
  case True
  have st: "stripe n cnt data" using damaged_parity_stripe [OF assms True] .
  have "with_parity n cnt data = orig"
    using encoded_with_parity [OF damaged_encoded [OF assms(1)] st intact] .
  then have "rs_encode bld (int n + 3) (16 * int cnt) data = Some orig"
    using rs_encode_ok [OF st] assms(1) by (simp add: damaged_def RS_LIB_MAX_DATA_BLOCKS_def)
  with True assms(1) show ?thesis
    by (simp add: rs_encode_if_requested_def ptr_def repaired_def parity_wanted_def damaged_def nat_add_distrib)
next
  case False
  have "take n orig @ drop n data = data"
    using intact damaged_length [OF assms(1)] by (intro nth_equalityI) (auto simp: nth_append)
  with False assms(1) show ?thesis
    by (auto simp: rs_encode_if_requested_def ptr_def repaired_def parity_wanted_def damaged_def nat_add_distrib)
  qed
qed

text \<open>A data decoder followed by the conditional encoder.\<close>

lemma restore_then_encode:
  assumes "damaged n cnt orig M data" "S = M \<inter> {..<n}"
  shows "rs_encode_if_requested bld (int n + 3) (16 * int cnt) (restore orig S data) = Some (repaired n orig data)"
proof -
  have "M - {..<n} \<subseteq> {n..}" by auto
  from rs_encode_if_requested_ok [OF damaged_restore [OF assms(1)] this] show ?thesis
    by (simp add: repaired_restore [OF assms(1)] assms(2))
qed

lemma rs_decode1_ok:
  assumes "damaged n cnt orig {x} data" "x < n + 3"
  shows "rs_decode1 bld (int n + 3) (16 * int cnt) (int x) data = Some (repaired n orig data)"
proof (cases "x < n")
  case True
  then have "recoverable n cnt orig {x} {n} data" by (intro damaged_recoverable [OF assms(1)]) auto
  with True show ?thesis
    using rs_decode1p_ok [of n cnt orig x data] restore_repaired [OF assms(1)] by (simp add: rs_decode1_def)
next
  case False
  then show ?thesis using rs_encode_if_requested_ok [OF assms(1)] by (simp add: rs_decode1_def)
qed

lemma rs_decode2_sorted:
  assumes "damaged n cnt orig {x, y} data" "x < y" "y < n + 3"
  shows "rs_decode2 bld (int n + 3) (16 * int cnt) (int x) (int y) data = Some (repaired n orig data)"
proof -
  note rec = damaged_recoverable [OF assms(1)]
  consider "n \<le> x" | "x < n" "y = n" | "x < n" "y = n + 1 \<or> y = n + 2" | "y < n"
    using assms(2,3) by linarith
  then show ?thesis
  proof cases
    case 1
    with assms(2) rs_encode_if_requested_ok [OF assms(1)] show ?thesis by (simp add: rs_decode2_def)
  next
    case 2
    have "recoverable n cnt orig {x} {n + 1} data" by (rule rec) (use 2 in auto)
    note rs_decode1q_ok [OF this]
    moreover have "{x} = {x, y} \<inter> {..<n}" using 2 by auto
    note restore_then_encode [OF assms(1) this]
    moreover note 2
    ultimately show ?thesis by (simp add: rs_decode2_def)
  next
    case 3
    have "recoverable n cnt orig {x} {n} data" by (rule rec) (use 3 in auto)
    note rs_decode1p_ok [OF this]
    moreover have "{x} = {x, y} \<inter> {..<n}" using 3 by auto
    note restore_then_encode [OF assms(1) this]
    moreover note 3
    ultimately show ?thesis by (auto simp: rs_decode2_def)
  next
    case 4
    have "recoverable n cnt orig {x, y} {n, n + 1} data" by (rule rec) (use 4 assms(2) in auto)
    note rs_decode2pq_ok [OF this assms(2)]
    moreover have "{x, y} \<subseteq> {..<n}" using 4 assms(2) by auto
    note restore_repaired [OF assms(1) this]
    moreover note 4 assms(2)
    ultimately show ?thesis by (simp add: rs_decode2_def)
  qed
qed

lemma rs_decode2_swap: "rs_decode2 bld nblocks blocksize x y data = rs_decode2 bld nblocks blocksize y x data"
proof -
  have "(if x > y then (y, x) else (x, y)) = (if y > x then (x, y) else (y, x))" by auto
  then show ?thesis by (simp only: rs_decode2_def)
qed

lemma rs_decode2_ok:
  assumes "damaged n cnt orig {x, y} data" "x \<noteq> y" "x < n + 3" "y < n + 3"
  shows "rs_decode2 bld (int n + 3) (16 * int cnt) (int x) (int y) data = Some (repaired n orig data)"
proof (cases "x < y")
  case True
  with rs_decode2_sorted [OF assms(1)] assms(4) show ?thesis by blast
next
  case False
  then have "y < x" using assms(2) by simp
  from rs_decode2_sorted [OF _ this assms(3)] assms(1) show ?thesis
    by (subst rs_decode2_swap) (simp add: insert_commute)
qed

lemma rs_decode3_sorted:
  assumes "damaged n cnt orig {x, y, z} data" "x < y" "y < z" "z < n + 3"
  shows "rs_decode3 bld (int n + 3) (16 * int cnt) (int x) (int y) (int z) data = Some (repaired n orig data)"
proof -
  note rec = damaged_recoverable [OF assms(1)]
  have srt: "sort3 (int x) (int y) (int z) = (int x, int y, int z)" using assms(2,3) by (simp add: sort3_def)
  note d3 = rs_decode3_def [of bld "int n + 3" "16 * int cnt" "int x" "int y" "int z" data, unfolded srt]
  consider "n \<le> x" | "x < n" "y = n" "z = n + 1" | "x < n" "y = n" "z = n + 2" | "x < n" "y = n + 1" "z = n + 2"
    | "y < n" "z = n" | "y < n" "z = n + 1" | "y < n" "z = n + 2" | "z < n"
    using assms(2-4) by linarith
  then show ?thesis
  proof cases
    case 1
    with assms(2,3) rs_encode_if_requested_ok [OF assms(1)] show ?thesis unfolding d3 by simp
  next
    case 2
    have "recoverable n cnt orig {x} {n + 2} data" by (rule rec) (use 2 in auto)
    note rs_decode1r_ok [OF this]
    moreover have "{x} = {x, y, z} \<inter> {..<n}" using 2 by auto
    note restore_then_encode [OF assms(1) this]
    ultimately show ?thesis using 2 unfolding d3 by simp
  next
    case 3
    have "recoverable n cnt orig {x} {n + 1} data" by (rule rec) (use 3 in auto)
    note rs_decode1q_ok [OF this]
    moreover have "{x} = {x, y, z} \<inter> {..<n}" using 3 by auto
    note restore_then_encode [OF assms(1) this]
    ultimately show ?thesis using 3 unfolding d3 by simp
  next
    case 4
    have "recoverable n cnt orig {x} {n} data" by (rule rec) (use 4 in auto)
    note rs_decode1p_ok [OF this]
    moreover have "{x} = {x, y, z} \<inter> {..<n}" using 4 by auto
    note restore_then_encode [OF assms(1) this]
    ultimately show ?thesis using 4 unfolding d3 by simp
  next
    case 5
    have "recoverable n cnt orig {x, y} {n + 1, n + 2} data" by (rule rec) (use 5 assms(2) in auto)
    note rs_decode2qr_ok [OF this assms(2)]
    moreover have "{x, y} = {x, y, z} \<inter> {..<n}" using 5 assms(2) by auto
    note restore_then_encode [OF assms(1) this]
    ultimately show ?thesis using 5 assms(2) unfolding d3 by simp
  next
    case 6
    have "recoverable n cnt orig {x, y} {n, n + 2} data" by (rule rec) (use 6 assms(2) in auto)
    note rs_decode2pr_ok [OF this assms(2)]
    moreover have "{x, y} = {x, y, z} \<inter> {..<n}" using 6 assms(2) by auto
    note restore_then_encode [OF assms(1) this]
    ultimately show ?thesis using 6 assms(2) unfolding d3 by simp
  next
    case 7
    have "recoverable n cnt orig {x, y} {n, n + 1} data" by (rule rec) (use 7 assms(2) in auto)
    note rs_decode2pq_ok [OF this assms(2)]
    moreover have "{x, y} = {x, y, z} \<inter> {..<n}" using 7 assms(2) by auto
    note restore_then_encode [OF assms(1) this]
    ultimately show ?thesis using 7 assms(2) unfolding d3 by simp
  next
    case 8
    have "recoverable n cnt orig {x, y, z} {n, n + 1, n + 2} data" by (rule rec) (use 8 assms(2,3) in auto)
    note rs_decode3pqr_ok [OF this assms(2,3)]
    moreover have "{x, y, z} \<subseteq> {..<n}" using 8 assms(2,3) by auto
    note restore_repaired [OF assms(1) this]
    ultimately show ?thesis using 8 assms(2,3) unfolding d3 by simp
  qed
qed

lemma rs_decode3_swap:
  assumes "sort3 a b c = sort3 x y z"
  shows "rs_decode3 bld nblocks blocksize a b c data = rs_decode3 bld nblocks blocksize x y z data"
  using assms by (simp only: rs_decode3_def)

lemma rs_decode3_ok:
  assumes "damaged n cnt orig {x, y, z} data" "distinct [x, y, z]" "x < n + 3" "y < n + 3" "z < n + 3"
  shows "rs_decode3 bld (int n + 3) (16 * int cnt) (int x) (int y) (int z) data = Some (repaired n orig data)"
proof -
  obtain a b c where abc: "{x, y, z} = {a, b, c}" "a < b" "b < c"
    "sort3 (int x) (int y) (int z) = sort3 (int a) (int b) (int c)"
  proof -
    consider "x < y" "y < z" | "x < z" "z < y" | "y < x" "x < z" | "y < z" "z < x" | "z < x" "x < y" | "z < y" "y < x"
      using assms(2) by (auto simp: neq_iff)
    then show thesis
    proof cases
      case 1 then show ?thesis using that [of x y z] by auto
    next
      case 2 then show ?thesis using that [of x z y] by (auto simp: sort3_def)
    next
      case 3 then show ?thesis using that [of y x z] by (auto simp: sort3_def)
    next
      case 4 then show ?thesis using that [of y z x] by (auto simp: sort3_def)
    next
      case 5 then show ?thesis using that [of z x y] by (auto simp: sort3_def)
    next
      case 6 then show ?thesis using that [of z y x] by (auto simp: sort3_def)
    qed
  qed
  have "c \<in> {x, y, z}" using abc(1) by blast
  then have "c < n + 3" using assms(3-5) by auto
  moreover have "damaged n cnt orig {a, b, c} data" using assms(1) abc(1) by simp
  ultimately show ?thesis
    using rs_decode3_sorted [of n cnt orig a b c data] abc(2,3) unfolding rs_decode3_swap [OF abc(4)] by blast
qed

end

subsection \<open>Properties\<close>

text \<open>A stripe of three data blocks of one vector, and the same stripe with bad blocks.\<close>

definition sample_stripe :: blocks where
  "sample_stripe = map (\<lambda>j. Some [map (\<lambda>l. word_of_nat (17 * j + 31 * l + 5)) [0..<16]]) [0..<6]"

definition wipe :: "nat \<Rightarrow> nat set \<Rightarrow> blocks \<Rightarrow> blocks" where
  "wipe cnt M data =
     map (\<lambda>j. if j \<in> M then Some (replicate cnt (VEC16 0)) else data ! j) [0..<length data]"

lemma sample_stripe: "stripe 3 1 sample_stripe"
  by (rule stripeI) (auto simp: sample_stripe_def wf_block_def less_Suc_eq numeral_eq_Suc)

lemma wipe_damaged:
  assumes "encoded n cnt orig" "0 < n" "n \<le> 64" "16 * cnt < 2 ^ 31"
  shows "damaged n cnt orig M (wipe cnt M orig)"
  using assms encoded_length [OF assms(1)]
  by (auto simp: damaged_def wipe_def wf_block_def RS_LIB_MAX_DATA_BLOCKS_def)

lemma wipe_parity_wanted:
  assumes "encoded n cnt orig"
  shows "parity_wanted n (wipe cnt M orig)"
proof -
  have "wipe cnt M orig ! (n + k) \<noteq> None" if "k < 3" for k
    using that encoded_length [OF assms] encoded_block [OF assms, of "n + k"] by (fastforce simp: wipe_def)
  from this [of 0] this [of 1] this [of 2] show ?thesis by (simp add: parity_wanted_def)
qed

lemmas sample_encoded = with_parity_encoded [OF sample_stripe]
lemmas sample_damaged = wipe_damaged [OF sample_encoded, simplified]

text \<open>
  C2. \<open>rs_decode3\<close> recovers any three missing blocks of a correctly encoded stripe of up to
  64 data blocks, in every build whose lane mask is right: it touches no memory outside the
  blocks, and when all three parity pointers are given the whole original stripe comes back;
  otherwise all data blocks do and the parity pointers are left alone.
\<close>

theorem rs_decode3_recovers:
  assumes "good_build bld"
    and "damaged n cnt orig {x, y, z} data"
    and "distinct [x, y, z]" "x < n + 3" "y < n + 3" "z < n + 3"
  shows "rs_decode3 bld (int n + 3) (16 * int cnt) (int x) (int y) (int z) data
    = Some (if parity_wanted n data then orig else take n orig @ drop n data)"
  using lane_build.rs_decode3_ok [OF good_build_lanes [OF assms(1)] assms(2-6)]
  by (simp add: repaired_def)

theorem rs_decode3_recovers_witness:
  "rs_decode3 SSSE3 6 16 4 0 2 (wipe 1 {4, 0, 2} (with_parity 3 1 sample_stripe))
    = Some (with_parity 3 1 sample_stripe)"
  using rs_decode3_recovers [OF _ sample_damaged, of SSSE3 4 0 2] wipe_parity_wanted [OF sample_encoded]
  by (simp add: good_build_def)

text \<open>
  C5. \<open>rs_decode2\<close> recovers any two missing blocks of a correctly encoded stripe, in either
  order of the arguments, with the same convention for the parity pointers.
\<close>

theorem rs_decode2_recovers:
  assumes "good_build bld"
    and "damaged n cnt orig {x, y} data" "x \<noteq> y" "x < n + 3" "y < n + 3"
  shows "rs_decode2 bld (int n + 3) (16 * int cnt) (int x) (int y) data
    = Some (if parity_wanted n data then orig else take n orig @ drop n data)"
  using lane_build.rs_decode2_ok [OF good_build_lanes [OF assms(1)] assms(2-5)]
  by (simp add: repaired_def)

theorem rs_decode2_recovers_witness:
  "rs_decode2 NEON 6 16 3 1 (wipe 1 {3, 1} (with_parity 3 1 sample_stripe))
    = Some (with_parity 3 1 sample_stripe)"
  using rs_decode2_recovers [OF _ sample_damaged, of NEON 3 1] wipe_parity_wanted [OF sample_encoded]
  by (simp add: good_build_def)

text \<open>
  C15. \<open>rs_decode1\<close> recovers the one missing block of a correctly encoded stripe, be it a data
  block (from the XOR parity alone) or a parity block (by encoding again).
\<close>

theorem rs_decode1_recovers:
  assumes "good_build bld" and "damaged n cnt orig {x} data" "x < n + 3"
  shows "rs_decode1 bld (int n + 3) (16 * int cnt) (int x) data
    = Some (if parity_wanted n data then orig else take n orig @ drop n data)"
  using lane_build.rs_decode1_ok [OF good_build_lanes [OF assms(1)] assms(2-3)]
  by (simp add: repaired_def)

theorem rs_decode1_recovers_witness:
  "rs_decode1 SSE2 6 16 5 (wipe 1 {5} (with_parity 3 1 sample_stripe))
    = Some (with_parity 3 1 sample_stripe)"
  using rs_decode1_recovers [OF _ sample_damaged, of SSE2 5] wipe_parity_wanted [OF sample_encoded]
  by (simp add: good_build_def)

text \<open>
  C16. \<open>rs_encode\<close> implements the reference encoder: on a stripe of \<open>n\<close> data blocks and three
  parity buffers it leaves the data blocks as they are and fills byte \<open>l\<close> of vector \<open>i\<close> of
  parity block \<open>k\<close> with the sum over \<open>j\<close> of \<open>2 ^ (k * j)\<close> times the byte of data block \<open>j\<close>,
  in the field of 256 elements.
\<close>

theorem rs_encode_refines:
  assumes "good_build bld" and "stripe n cnt data" "0 < n" "n \<le> RS_LIB_MAX_DATA_BLOCKS" "16 * cnt < 2 ^ 31"
  shows "rs_encode bld (int n + 3) (16 * int cnt) data = Some (with_parity n cnt data)"
  using lane_build.rs_encode_ok [OF good_build_lanes [OF assms(1)] assms(2,3)] assms(4,5)
  by (simp add: RS_LIB_MAX_DATA_BLOCKS_def)

theorem rs_encode_refines_witness:
  "rs_encode PORTABLE 6 16 sample_stripe = Some (with_parity 3 1 sample_stripe)"
  using rs_encode_refines [OF _ sample_stripe, of PORTABLE]
  by (simp add: good_build_def RS_LIB_MAX_DATA_BLOCKS_def)



text \<open>
  C30. The three implementations of \<open>mulby\<close> (shift and add, the NEON table look-up and the SSSE3
  table look-up) agree: each multiplies the sixteen bytes of a vector by the constant.
\<close>

theorem mulby_agrees:
  assumes "good_build bld" "length v = 16"
  shows "mulby bld x v = map (mul x) v"
  using lane_build.mulby_lanes [OF good_build_lanes [OF assms(1)] assms(2)] .

theorem mulby_agrees_witness: "mulby SSSE3 0x1b (VEC16 0xc7) = map (mul 0x1b) (VEC16 0xc7)"
  using mulby_agrees [of SSSE3 "VEC16 0xc7" "0x1b"] by (simp add: good_build_def)

text \<open>
  C35. In the builds that compare vectors with \<open>VEC16(128) > v\<close> the lane mask is inverted, so
  \<open>v16_mul2\<close> is wrong in every lane, by the reduction constant \<open>0x1d\<close>: it maps 0 to \<open>0x1d\<close>.
\<close>

theorem v16_mul2_inverted_mask:
  assumes "\<not> good_build bld" "length v = 16"
  shows "v16_mul2 bld v = map (\<lambda>b. mul2 b XOR 0x1d) v"
proof -
  have m: "mask bld v = map (\<lambda>b. if bit b 7 then 0 else 0xff) v"
    using mask_bad [OF assms(1), of v] by (auto simp: byte_less_128)
  have "(x XOR 0x1d) XOR 0x1d = x" for x :: u8
    by (simp add: xor.assoc)
  then show ?thesis
    using assms(2) by (intro nth_equalityI) (auto simp: v16_mul2_def vadd_def vand_def VEC16_def m mul2_bit byte_double)
qed

theorem v16_mul2_inverted_mask_witness: "v16_mul2 GNUC_VECTOR (VEC16 0) = VEC16 0x1d"
  using v16_mul2_inverted_mask [of GNUC_VECTOR "VEC16 0"]
  by (simp add: good_build_def VEC16_def mul2_bit)

text \<open>
  C34. The arithmetic of the table generator is a field: \<open>mul\<close> is commutative and
  associative, distributes over XOR, and the table computed by \<open>inv\<close> holds the inverse of
  every non-zero byte.
\<close>

theorem mktable_field:
  "mul x y = mul y x \<and> mul (mul x y) z = mul x (mul y z) \<and> mul x (y XOR z) = mul x y XOR mul x z
    \<and> mul x 1 = x \<and> (x \<noteq> 0 \<longrightarrow> mul x (inv_tab ! unat x) = 1)"
  using mul_commute [of x y] mul_assoc [of x y z] mul_xor_right [of x y z] mul_inv_tab [of x]
  by simp

theorem mktable_field_witness: "mul 0x53 (inv_tab ! unat (0x53 :: u8)) = 1"
  using mktable_field [of "0x53" 0 0] by simp

end
