(* ===== verification/MetaKey.thy ===== *)
theory MetaKey
  imports Prelude
begin

text \<open>
  Search keys of the metadata tree (Key.h).  A key packs the class bits of the metadata
  type, the 64-bit identifier and the upper 60 bits of the second datum into 128 bits; the
  theorems show that the packed comparison is the lexicographic comparison of the parts.
\<close>

subsection \<open>Metadata types and keys\<close>

datatype MetaType = KFS_UNINIT | KFS_INTERNAL | KFS_FATTR | KFS_CHUNKINFO | KFS_DENTRY | KFS_SENTINEL

primrec meta_code :: "MetaType \<Rightarrow> u64" where
  "meta_code KFS_UNINIT = 0x00"
| "meta_code KFS_INTERNAL = 0x10"
| "meta_code KFS_FATTR = 0x20"
| "meta_code KFS_CHUNKINFO = 0x21"
| "meta_code KFS_DENTRY = 0x22"
| "meta_code KFS_SENTINEL = 0x30"

text \<open>The members \<open>hi\<close> and \<open>lo\<close> of class \<open>Key\<close>.\<close>

datatype Key = MkKey (hi: u64) (lo: u64)

text \<open>\<open>KeyData\<close> is a signed 64-bit integer, kept here as the word that holds it.\<close>

definition Key_of :: "MetaType \<Rightarrow> u64 \<Rightarrow> u64 \<Rightarrow> Key" where
  "Key_of k d1 d2 =
     (let dh = d1 - push_bit 63 1;
          dl = d2 - push_bit 63 1
      in MkKey (push_bit 58 (meta_code k AND 0x30) OR (drop_bit 2 dh AND NOT (push_bit 62 3)))
               (push_bit 62 dh OR (drop_bit 2 dl AND NOT 3) OR (meta_code k AND 3)))"

definition key_less :: "Key \<Rightarrow> Key \<Rightarrow> bool" where
  "key_less a b \<longleftrightarrow> hi a < hi b \<or> (hi a = hi b \<and> lo a < lo b)"

definition key_eq :: "Key \<Rightarrow> Key \<Rightarrow> bool" where
  "key_eq a b \<longleftrightarrow> (hi a XOR hi b) OR (lo a XOR lo b) = 0"

text \<open>\<open>PartialMatch\<close> holds a key and ignores the bits of the second datum.\<close>

datatype PartialMatch = PM Key

definition PartialMatch_of :: "MetaType \<Rightarrow> u64 \<Rightarrow> PartialMatch" where
  "PartialMatch_of k d1 = PM (Key_of k d1 0)"

definition pm_mask :: u64 where
  "pm_mask = push_bit 62 3 OR 3"

fun pm_less :: "PartialMatch \<Rightarrow> Key \<Rightarrow> bool" where
  "pm_less (PM key) test \<longleftrightarrow>
     hi key < hi test \<or> (hi key = hi test \<and> lo key AND pm_mask < lo test AND pm_mask)"

fun pm_greater :: "PartialMatch \<Rightarrow> Key \<Rightarrow> bool" where
  "pm_greater (PM key) test \<longleftrightarrow>
     hi key > hi test \<or> (hi key = hi test \<and> lo key AND pm_mask > lo test AND pm_mask)"

fun pm_eq :: "PartialMatch \<Rightarrow> Key \<Rightarrow> bool" where
  "pm_eq (PM key) test \<longleftrightarrow> (hi key XOR hi test) OR ((lo key XOR lo test) AND pm_mask) = 0"

subsection \<open>Keys are linearly ordered\<close>

instantiation Key :: linorder
begin

definition less_Key :: "Key \<Rightarrow> Key \<Rightarrow> bool" where
  "a < b \<longleftrightarrow> key_less a b" for a b :: Key

definition less_eq_Key :: "Key \<Rightarrow> Key \<Rightarrow> bool" where
  "a \<le> b \<longleftrightarrow> \<not> key_less b a" for a b :: Key

instance
proof
  fix x y z :: Key
  show "(x < y) = (x \<le> y \<and> \<not> y \<le> x)"
    by (auto simp: less_Key_def less_eq_Key_def key_less_def)
  show "x \<le> x" by (auto simp: less_eq_Key_def key_less_def)
  show "x \<le> y \<Longrightarrow> y \<le> z \<Longrightarrow> x \<le> z"
    by (auto simp: less_eq_Key_def key_less_def)
  show "x \<le> y \<Longrightarrow> y \<le> x \<Longrightarrow> x = y"
    by (cases x; cases y) (auto simp: less_eq_Key_def key_less_def)
  show "x \<le> y \<or> y \<le> x" by (auto simp: less_eq_Key_def key_less_def)
qed

end

lemma xor_or_zero: "(a XOR b) OR c = 0 \<longleftrightarrow> a = b \<and> c = 0" for a b c :: "'a::len word"
  by (auto simp: bit_eq_iff bit_simps)

lemma key_eq_iff: "key_eq a b \<longleftrightarrow> a = b"
  by (cases a; cases b) (auto simp: key_eq_def xor_or_zero bit_eq_iff bit_simps)

subsection \<open>The parts of a packed key\<close>

text \<open>Class bits and low bits of the type, the identifier and the second datum as numbers.\<close>

definition meta_class :: "MetaType \<Rightarrow> nat" where
  "meta_class k = unat (meta_code k) div 16"

definition meta_low :: "MetaType \<Rightarrow> nat" where
  "meta_low k = unat (meta_code k) mod 4"

definition biased :: "u64 \<Rightarrow> nat" where
  "biased d = unat (d - push_bit 63 1)"

lemma biased_less: "biased d < 2 ^ 64"
  using unsigned_less [of "d - push_bit 63 1"] by (simp add: biased_def)

lemma or_disjoint: "a AND b = 0 \<Longrightarrow> a OR b = a + b" for a b :: "'a::len word"
  using word_plus_and_or [of a b] by simp

lemma unat_or_disjoint:
  assumes "a AND b = 0" "unat a + unat b < 2 ^ 64"
  shows "unat (a OR b :: u64) = unat a + unat b"
  using assms by (simp add: or_disjoint unat_add_lem [THEN iffD1])

lemma unat_hi_Key_of: "unat (hi (Key_of k d1 d2)) = meta_class k * 2 ^ 62 + biased d1 div 4"
proof -
  define dh where "dh = d1 - push_bit 63 (1 :: u64)"
  have m: "drop_bit 2 dh AND NOT (push_bit 62 3) = drop_bit 2 dh"
    unfolding bit_eq_iff bit_and_iff bit_not_iff bit_push_bit_iff bit_drop_bit_eq comp_def
    by (auto dest: bit_imp_le_length)
  have u: "unat (drop_bit 2 dh) = biased d1 div 4"
    unfolding unat_drop_bit_eq by (simp add: biased_def dh_def drop_bit_eq_div)
  moreover have "biased d1 div 4 < 2 ^ 62" using biased_less [of d1] by simp
  moreover have c: "unat (push_bit 58 (meta_code k AND 0x30)) = meta_class k * 2 ^ 62"
    by (cases k) (simp_all add: meta_class_def)
  moreover have "push_bit 58 (meta_code k AND 0x30) AND drop_bit 2 dh = 0"
  proof -
    have "(0x30 :: u64) = push_bit 4 3" by simp
    then have "bit (meta_code k AND 0x30) n \<Longrightarrow> 4 \<le> n" for n
      by (simp only: bit_and_iff bit_push_bit_iff)
    then show ?thesis
      unfolding bit_eq_iff bit_and_iff bit_push_bit_iff bit_drop_bit_eq comp_def
      by (fastforce dest: bit_imp_le_length)
  qed
  moreover have "meta_class k \<le> 3" by (cases k) (simp_all add: meta_class_def)
  ultimately have "unat (push_bit 58 (meta_code k AND 0x30) OR drop_bit 2 dh) = meta_class k * 2 ^ 62 + biased d1 div 4"
    by (subst unat_or_disjoint) simp_all
  then show ?thesis
    unfolding Key_of_def Let_def dh_def [symmetric] m by simp
qed

lemma unat_push_bit: "unat (push_bit n (w :: u64)) = (unat w * 2 ^ n) mod 2 ^ 64"
  unfolding unsigned_push_bit_eq by (simp add: push_bit_eq_mult take_bit_eq_mod)

lemma drop_2_clear_2: "drop_bit 2 w AND NOT 3 = push_bit 2 (drop_bit 4 w)" for w :: u64
proof -
  have m: "(3 :: u64) = Bit_Operations.mask 2" by (simp add: mask_eq_exp_minus_1)
  show ?thesis
  proof (rule bit_eqI)
    fix n assume "possible_bit TYPE(u64) n"
    then have n: "n < 64" by simp
    show "bit (drop_bit 2 w AND NOT 3) n = bit (push_bit 2 (drop_bit 4 w)) n"
    proof (cases "2 \<le> n")
      case True
      then have "2 + n = 4 + (n - 2)" by simp
      with n True show ?thesis
        unfolding m bit_and_iff bit_not_iff bit_push_bit_iff bit_drop_bit_eq comp_def bit_mask_iff by simp
    next
      case False
      then show ?thesis
        unfolding m bit_and_iff bit_not_iff bit_push_bit_iff bit_drop_bit_eq comp_def bit_mask_iff by simp
    qed
  qed
qed

lemma push_mod_4: "(a * 2 ^ 62) mod 2 ^ 64 = (a mod 4) * (2 ^ 62 :: nat)"
proof -
  have "(2 ^ 64 :: nat) = 4 * 2 ^ 62" by simp
  then show ?thesis by (simp only: mult_mod_left)
qed

lemma no_high_bit:
  assumes "unat (w :: u64) < 2 ^ m" "m \<le> n"
  shows "\<not> bit w n"
proof
  assume "bit w n"
  then have "bit (unat w) n" by (simp add: bit_unsigned_iff)
  moreover have "unat w = take_bit m (unat w)" using assms(1) by (simp add: take_bit_nat_eq_self)
  ultimately have "bit (take_bit m (unat w)) n" by simp
  with assms(2) show False by (simp add: bit_take_bit_iff)
qed

lemma sint_eq_iff: "sint (a :: u64) = sint b \<longleftrightarrow> a = b"
  by (auto intro: signed_word_eqI)

lemma unat_lo_Key_of:
  "unat (lo (Key_of k d1 d2)) = (biased d1 mod 4) * 2 ^ 62 + (biased d2 div 16) * 4 + meta_low k"
proof -
  define dh where "dh = d1 - push_bit 63 (1 :: u64)"
  define dl where "dl = d2 - push_bit 63 (1 :: u64)"
  define X where "X = push_bit 62 dh"
  define Y where "Y = drop_bit 2 dl AND NOT 3"
  define Z where "Z = meta_code k AND 3"
  have lo: "lo (Key_of k d1 d2) = X OR (Y OR Z)"
    unfolding Key_of_def Let_def dh_def [symmetric] dl_def [symmetric] X_def Y_def Z_def
    by (simp add: or.assoc)
  have X: "unat X = (biased d1 mod 4) * 2 ^ 62"
    unfolding X_def unat_push_bit biased_def dh_def by (rule push_mod_4)
  have b: "biased d2 div 16 * 4 \<le> 2 ^ 62 - 4" using biased_less [of d2] by simp
  have Y: "unat Y = biased d2 div 16 * 4"
  proof -
    have "unat (drop_bit 4 dl) = biased d2 div 16"
      unfolding unat_drop_bit_eq by (simp add: biased_def dl_def drop_bit_eq_div)
    with b show ?thesis unfolding Y_def drop_2_clear_2 unat_push_bit by simp
  qed
  have Z: "unat Z = meta_low k" "meta_low k < 4"
    by (cases k; simp add: Z_def meta_low_def)+
  have "Y AND Z = 0"
    unfolding Y_def Z_def by (simp add: bit_eq_iff bit_simps)
  then have YZ: "unat (Y OR Z) = biased d2 div 16 * 4 + meta_low k"
    using b Z by (subst unat_or_disjoint) (simp_all add: Y)
  then have less: "unat (Y OR Z) < 2 ^ 62" using b Z by simp
  have "X AND (Y OR Z) = 0"
  proof -
    have "\<not> bit (Y OR Z) n" if "62 \<le> n" for n
      using no_high_bit [OF less that] .
    then show ?thesis
      unfolding X_def bit_eq_iff bit_and_iff bit_push_bit_iff by auto
  qed
  moreover have "biased d1 mod 4 \<le> 3" by simp
  ultimately have "unat (X OR (Y OR Z)) = unat X + unat (Y OR Z)"
    using less by (intro unat_or_disjoint) (simp_all add: X)
  then show ?thesis by (simp add: lo X YZ)
qed

lemma lex_less_nat:
  assumes "x < N" "y < (N :: nat)"
  shows "a * N + x < b * N + y \<longleftrightarrow> a < b \<or> (a = b \<and> x < y)"
proof (cases a b rule: linorder_cases)
  case less
  then have "Suc a * N \<le> b * N" by (intro mult_le_mono1) simp
  with less assms show ?thesis by simp
next
  case greater
  then have "Suc b * N \<le> a * N" by (intro mult_le_mono1) simp
  with greater assms show ?thesis by simp
qed simp

lemma int_biased: "int (biased d) = sint d + 2 ^ 63"
proof -
  have "d - push_bit 63 1 = word_of_int (sint d + 2 ^ 63)"
    by simp
  then have "uint (d - push_bit 63 1) = (sint d + 2 ^ 63) mod 2 ^ 64"
    by (simp only: uint_word_of_int) simp
  moreover have "- (2 ^ 63) \<le> sint d" "sint d < 2 ^ 63"
    using sint_range_size [of d] by (simp_all add: word_size)
  ultimately show ?thesis by (simp add: biased_def)
qed

lemma biased_less_iff: "biased a < biased b \<longleftrightarrow> sint a < sint b"
  unfolding of_nat_less_iff [where 'a = int, symmetric] int_biased by (rule add_less_cancel_right)

lemma biased_eq_iff: "biased a = biased b \<longleftrightarrow> a = b"
  unfolding of_nat_eq_iff [where 'a = int, symmetric] int_biased add_right_cancel by (rule sint_eq_iff)

lemma int_biased_div: "int (biased d div 16) = sint d div 16 + 2 ^ 59"
proof -
  have "(sint d + 2 ^ 63) div 16 = sint d div 16 + (2 ^ 59 :: int)"
    using div_mult_self1 [of 16 "sint d" "2 ^ 59"] by simp
  then show ?thesis by (simp only: zdiv_int int_biased of_nat_numeral)
qed

lemma biased_div_less_iff: "biased a div 16 < biased b div 16 \<longleftrightarrow> sint a div 16 < sint b div 16"
  unfolding of_nat_less_iff [where 'a = int, symmetric] int_biased_div by (rule add_less_cancel_right)

lemma biased_div_eq_iff: "biased a div 16 = biased b div 16 \<longleftrightarrow> sint a div 16 = sint b div 16"
  unfolding of_nat_eq_iff [where 'a = int, symmetric] int_biased_div by (rule add_right_cancel)

lemma split_4: "a < b \<longleftrightarrow> a div 4 < b div 4 \<or> (a div 4 = b div 4 \<and> a mod 4 < b mod 4)" for a b :: nat
  using lex_less_nat [of "a mod 4" 4 "b mod 4" "a div 4" "b div 4"] by simp

lemma split_4_eq: "a = b \<longleftrightarrow> a div 4 = b div 4 \<and> a mod 4 = b mod 4" for a b :: nat
  by (metis div_mult_mod_eq)

lemma meta_low_less: "meta_low k < 4"
  by (simp add: meta_low_def)

lemma lo_rest_less: "biased d div 16 * 4 + meta_low k < 2 ^ 62"
proof -
  have "biased d div 16 < 2 ^ 60" using biased_less [of d] by (simp add: less_mult_imp_div_less)
  with meta_low_less [of k] show ?thesis by simp
qed

lemma biased_div_4_less: "biased d div 4 < 2 ^ 62"
  using biased_less [of d] by (simp add: less_mult_imp_div_less)

lemma eq_iff_not_less: "x = y \<longleftrightarrow> \<not> x < y \<and> \<not> y < x" for x y :: "'a::linorder"
  by auto

lemma Key_of_hi_less:
  "hi (Key_of k d1 d2) < hi (Key_of k' e1 e2) \<longleftrightarrow>
     meta_class k < meta_class k' \<or> (meta_class k = meta_class k' \<and> biased d1 div 4 < biased e1 div 4)"
  unfolding word_less_nat_alt unat_hi_Key_of
  by (rule lex_less_nat [OF biased_div_4_less biased_div_4_less])

lemma Key_of_hi_eq:
  "hi (Key_of k d1 d2) = hi (Key_of k' e1 e2) \<longleftrightarrow>
     meta_class k = meta_class k' \<and> biased d1 div 4 = biased e1 div 4"
  unfolding eq_iff_not_less [of "hi (Key_of k d1 d2)"] Key_of_hi_less by (auto simp: not_less)

lemma Key_of_lo_less:
  "lo (Key_of k d1 d2) < lo (Key_of k' e1 e2) \<longleftrightarrow>
     biased d1 mod 4 < biased e1 mod 4 \<or> (biased d1 mod 4 = biased e1 mod 4 \<and>
       (sint d2 div 16 < sint e2 div 16 \<or> (sint d2 div 16 = sint e2 div 16 \<and> meta_low k < meta_low k')))"
  unfolding word_less_nat_alt unat_lo_Key_of add.assoc
    lex_less_nat [OF lo_rest_less lo_rest_less] lex_less_nat [OF meta_low_less meta_low_less]
    biased_div_less_iff biased_div_eq_iff ..

lemma Key_of_less:
  "Key_of k d1 d2 < Key_of k' e1 e2 \<longleftrightarrow>
     meta_class k < meta_class k' \<or> (meta_class k = meta_class k' \<and>
       (sint d1 < sint e1 \<or> (sint d1 = sint e1 \<and>
         (sint d2 div 16 < sint e2 div 16 \<or> (sint d2 div 16 = sint e2 div 16 \<and> meta_low k < meta_low k')))))"
  unfolding less_Key_def key_less_def Key_of_hi_less Key_of_hi_eq Key_of_lo_less
    biased_less_iff [symmetric] sint_eq_iff biased_eq_iff [of d1 e1, symmetric]
    split_4 [of "biased d1" "biased e1"] split_4_eq [of "biased d1" "biased e1"]
  by auto

lemma Key_of_eq:
  "Key_of k d1 d2 = Key_of k' e1 e2 \<longleftrightarrow>
     meta_class k = meta_class k' \<and> meta_low k = meta_low k' \<and> d1 = e1 \<and> sint d2 div 16 = sint e2 div 16"
  unfolding eq_iff_not_less [of "Key_of k d1 d2"] Key_of_less sint_eq_iff [symmetric] by (auto simp: not_less)

subsection \<open>Partial matches\<close>

lemma lo_and_pm_mask:
  "lo (Key_of k d1 d2) AND pm_mask = push_bit 62 (d1 - push_bit 63 1) OR (meta_code k AND 3)"
proof (rule bit_eqI)
  fix n assume "possible_bit TYPE(u64) n"
  then have n: "n < 64" by simp
  have m3: "(3 :: u64) = Bit_Operations.mask 2" by (simp add: mask_eq_exp_minus_1)
  have b3: "bit (3 :: u64) i \<longleftrightarrow> i < 2" for i
    unfolding m3 bit_mask_iff by auto
  have b: "bit pm_mask n \<longleftrightarrow> n < 2 \<or> 62 \<le> n"
    unfolding pm_mask_def bit_or_iff bit_push_bit_iff b3 using n by auto
  have y: "\<not> bit (drop_bit 2 (d2 - push_bit 63 1)) i" if "62 \<le> i" for i
    using that unfolding bit_drop_bit_eq comp_def by (auto dest: bit_imp_le_length)
  show "bit (lo (Key_of k d1 d2) AND pm_mask) n =
      bit (push_bit 62 (d1 - push_bit 63 1) OR (meta_code k AND 3)) n"
    unfolding Key_of_def Let_def Key.sel bit_and_iff bit_or_iff b bit_not_iff b3
      bit_push_bit_iff [of 62]
    using n y by auto
qed

lemma unat_lo_and_pm_mask:
  "unat (lo (Key_of k d1 d2) AND pm_mask) = (biased d1 mod 4) * 2 ^ 62 + meta_low k"
proof -
  let ?X = "push_bit 62 (d1 - push_bit 63 1)"
  have X: "unat ?X = (biased d1 mod 4) * 2 ^ 62"
    unfolding unat_push_bit biased_def by (rule push_mod_4)
  have Z: "unat (meta_code k AND 3) = meta_low k"
    by (cases k; simp add: meta_low_def)
  have "\<not> bit (meta_code k AND 3) n" if "62 \<le> n" for n
    using Z meta_low_less [of k] that by (intro no_high_bit [of _ 2]) auto
  then have "?X AND (meta_code k AND 3) = 0"
    unfolding bit_eq_iff bit_and_iff bit_push_bit_iff by auto
  moreover have "biased d1 mod 4 \<le> 3" by simp
  then have "unat ?X + unat (meta_code k AND 3) < 2 ^ 64"
    unfolding X Z using meta_low_less [of k] by simp
  ultimately have "unat (?X OR (meta_code k AND 3)) = unat ?X + unat (meta_code k AND 3)"
    by (rule unat_or_disjoint)
  then show ?thesis by (simp only: lo_and_pm_mask X Z)
qed

lemma meta_low_less': "meta_low k < 2 ^ 62"
  using meta_low_less [of k] by simp

lemma pm_less_iff:
  "pm_less (PartialMatch_of k d1) (Key_of k' e1 e2) \<longleftrightarrow>
     meta_class k < meta_class k' \<or> (meta_class k = meta_class k' \<and>
       (sint d1 < sint e1 \<or> (d1 = e1 \<and> meta_low k < meta_low k')))"
  unfolding PartialMatch_of_def pm_less.simps Key_of_hi_less Key_of_hi_eq word_less_nat_alt [of "_ AND _"]
    unat_lo_and_pm_mask lex_less_nat [OF meta_low_less' meta_low_less']
    biased_less_iff [symmetric] biased_eq_iff [of d1 e1, symmetric]
    split_4 [of "biased d1" "biased e1"] split_4_eq [of "biased d1" "biased e1"]
  by auto

lemma pm_greater_iff:
  "pm_greater (PartialMatch_of k d1) (Key_of k' e1 e2) \<longleftrightarrow>
     meta_class k' < meta_class k \<or> (meta_class k = meta_class k' \<and>
       (sint e1 < sint d1 \<or> (d1 = e1 \<and> meta_low k' < meta_low k)))"
  unfolding PartialMatch_of_def pm_greater.simps Key_of_hi_less Key_of_hi_eq word_less_nat_alt [of "_ AND _"]
    unat_lo_and_pm_mask lex_less_nat [OF meta_low_less' meta_low_less']
    biased_less_iff [symmetric] biased_eq_iff [of d1 e1, symmetric]
    split_4 [of "biased e1" "biased d1"] split_4_eq [of "biased d1" "biased e1"]
  by auto

lemma pm_eq_not_less: "pm_eq p t \<longleftrightarrow> \<not> pm_less p t \<and> \<not> pm_greater p t"
proof (cases p)
  case (PM key)
  have "(lo key XOR lo t) AND pm_mask = (lo key AND pm_mask) XOR (lo t AND pm_mask)"
    by (auto simp: bit_eq_iff bit_simps)
  moreover have "a XOR b = 0 \<longleftrightarrow> a = b" for a b :: u64
    by (auto simp: bit_eq_iff bit_simps)
  ultimately show ?thesis
    by (auto simp: PM xor_or_zero)
qed

lemma pm_eq_iff:
  "pm_eq (PartialMatch_of k d1) (Key_of k' e1 e2) \<longleftrightarrow>
     meta_class k = meta_class k' \<and> meta_low k = meta_low k' \<and> d1 = e1"
  unfolding pm_eq_not_less pm_less_iff pm_greater_iff sint_eq_iff [of d1 e1, symmetric] by auto

subsection \<open>Properties\<close>

text \<open>
  C18. Comparing packed keys is the lexicographic comparison of: the class of the type, the
  identifier as a signed number, the second datum without its four low bits, the type within
  its class; and packed keys are equal exactly when these four parts are.
\<close>

theorem Key_lexicographic:
  "(key_less (Key_of k d1 d2) (Key_of k' e1 e2) \<longleftrightarrow>
     meta_class k < meta_class k' \<or> (meta_class k = meta_class k' \<and>
       (sint d1 < sint e1 \<or> (sint d1 = sint e1 \<and>
         (sint d2 div 16 < sint e2 div 16 \<or> (sint d2 div 16 = sint e2 div 16 \<and> meta_low k < meta_low k')))))) \<and>
   (key_eq (Key_of k d1 d2) (Key_of k' e1 e2) \<longleftrightarrow>
     meta_class k = meta_class k' \<and> meta_low k = meta_low k' \<and> d1 = e1 \<and> sint d2 div 16 = sint e2 div 16)"
  using Key_of_less [of k d1 d2 k' e1 e2] Key_of_eq [of k d1 d2 k' e1 e2]
  unfolding less_Key_def key_eq_iff by blast

text \<open>
  C29. A partial match equals exactly the keys of its type and identifier, whatever their
  second datum, and orders the others by type class, identifier and type.
\<close>

theorem PartialMatch_by_type_and_id:
  "(pm_eq (PartialMatch_of k d1) (Key_of k' e1 e2) \<longleftrightarrow>
     meta_class k = meta_class k' \<and> meta_low k = meta_low k' \<and> d1 = e1) \<and>
   (pm_greater (PartialMatch_of k d1) (Key_of k' e1 e2) \<longleftrightarrow>
     meta_class k' < meta_class k \<or> (meta_class k = meta_class k' \<and>
       (sint e1 < sint d1 \<or> (d1 = e1 \<and> meta_low k' < meta_low k))))"
  using pm_eq_iff [of k d1 k' e1 e2] pm_greater_iff [of k d1 k' e1 e2] by blast

end
