(* ===== verification/MetaTree.thy ===== *)
theory MetaTree
  imports MetaKey
begin

text \<open>
  The metadata search tree (kfstree.h, kfstree.cc): a B+ tree whose level-1 nodes hold keys
  and pointers to metadata and whose nodes are linked to their right neighbour on the same
  level.  A node carries the address it was allocated at (\<open>nid\<close>) and its \<open>next\<close> pointer
  (\<open>nxt\<close>); the arrays \<open>childKey\<close> and \<open>childNode\<close> are the list of its first \<open>count\<close> pairs.
  Pointers to metadata are addresses, 0 is the null pointer.  A failed \<open>assert\<close>, a read
  outside the arrays or a null pointer gives \<open>None\<close>.
\<close>

subsection \<open>Nodes\<close>

type_synonym addr = nat

datatype node =
    Level1 (nid: nat) (nxt: "nat option") (ents: "(Key \<times> addr) list")
  | Inner (nid: nat) (nxt: "nat option") (subs: "(Key \<times> node) list")

definition NKEY :: nat where
  "NKEY = 32"

definition NSPLIT :: nat where
  "NSPLIT = NKEY div 2"

definition NFEWEST :: nat where
  "NFEWEST = NKEY - NSPLIT"

fun children :: "node \<Rightarrow> nat" where
  "children (Level1 i nx es) = length es"
| "children (Inner i nx cs) = length cs"

fun hasleaves :: "node \<Rightarrow> bool" where
  "hasleaves (Level1 i nx es) = True"
| "hasleaves (Inner i nx cs) = False"

definition isfull :: "node \<Rightarrow> bool" where
  "isfull n \<longleftrightarrow> children n = NKEY"

definition isdepleted :: "node \<Rightarrow> bool" where
  "isdepleted n \<longleftrightarrow> children n < NFEWEST"

text \<open>\<open>excess\<close>: the callers only use the value when it is positive.\<close>

definition excess :: "node \<Rightarrow> nat" where
  "excess n = (children n - NFEWEST) div 2"

definition last_key :: "(Key \<times> 'c) list \<Rightarrow> Key option" where
  "last_key xs = (if xs = [] then None else Some (fst (last xs)))"

fun keySelf :: "node \<Rightarrow> Key option" where
  "keySelf (Level1 i nx es) = last_key es"
| "keySelf (Inner i nx cs) = last_key cs"

text \<open>
  \<open>findplace\<close> is \<open>std::lower_bound\<close> on the keys: the first position whose key is not below
  the searched one.  The search key may be a key or a partial match, so the comparison with
  it is a parameter.
\<close>

definition findplace :: "(Key \<Rightarrow> bool) \<Rightarrow> (Key \<times> 'c) list \<Rightarrow> nat" where
  "findplace lt xs = length (takeWhile (\<lambda>e. lt (fst e)) xs)"

fun place :: "(Key \<Rightarrow> bool) \<Rightarrow> node \<Rightarrow> nat" where
  "place lt (Level1 i nx es) = findplace lt es"
| "place lt (Inner i nx cs) = findplace lt cs"

text \<open>\<open>openHole\<close> for one place and storing the child there.\<close>

definition addChild :: "'c \<Rightarrow> nat \<Rightarrow> 'c list \<Rightarrow> 'c list option" where
  "addChild x pos xs =
     (if length xs + 1 \<le> NKEY \<and> pos \<le> length xs then Some (take pos xs @ x # drop pos xs) else None)"

definition closeHole :: "nat \<Rightarrow> nat \<Rightarrow> 'c list \<Rightarrow> 'c list option" where
  "closeHole pos skip xs =
     (if skip < length xs \<and> pos + skip \<le> length xs then Some (take pos xs @ drop (pos + skip) xs) else None)"

text \<open>\<open>split\<close>: the brother, allocated at \<open>b\<close>, takes the last \<open>NSPLIT\<close> children.\<close>

fun split_node :: "nat \<Rightarrow> node \<Rightarrow> node \<times> node" where
  "split_node b (Level1 i nx es) =
     (Level1 i (Some b) (take (length es - NSPLIT) es), Level1 b nx (drop (length es - NSPLIT) es))"
| "split_node b (Inner i nx cs) =
     (Inner i (Some b) (take (length cs - NSPLIT) cs), Inner b nx (drop (length cs - NSPLIT) cs))"

subsection \<open>Insertion\<close>

text \<open>
  The loop of \<open>Tree::insert\<close> below a node that is not full: the child to visit is split
  first when it is full, which adds the brother to this node.  \<open>fr\<close> is the next address
  given out by the allocator.
\<close>

function descend :: "Key \<Rightarrow> addr \<Rightarrow> nat \<Rightarrow> nat \<Rightarrow> node \<Rightarrow> (nat \<times> node) option" where
  "descend k a fr cpos (Level1 i nx es) =
     do { es' \<leftarrow> addChild (k, a) cpos es; Some (fr, Level1 i nx es') }"
| "descend k a fr cpos (Inner i nx cs) =
     (if cpos < length cs then
        let c = snd (cs ! cpos); p = place (\<lambda>x. x < k) c in
        if isfull c then
          let (c1, br) = split_node fr c in
          do { k1 \<leftarrow> keySelf c1;
               k2 \<leftarrow> keySelf br;
               cs' \<leftarrow> addChild (k2, br) (Suc cpos) (cs[cpos := (k1, c1)]);
               if p \<ge> children c1
               then do { (fr', br') \<leftarrow> descend k a (Suc fr) (place (\<lambda>x. x < k) br) br;
                         Some (fr', Inner i nx (cs'[Suc cpos := (k2, br')])) }
               else do { (fr', c1') \<leftarrow> descend k a (Suc fr) p c1;
                         Some (fr', Inner i nx (cs'[cpos := (k1, c1')])) } }
        else do { (fr', c') \<leftarrow> descend k a fr p c;
                  Some (fr', Inner i nx (cs[cpos := (fst (cs ! cpos), c')])) }
      else None)"
  by pat_completeness auto

fun node_count :: "node \<Rightarrow> nat" where
  "node_count (Level1 i nx es) = 1"
| "node_count (Inner i nx cs) = Suc (sum_list (map (\<lambda>e. node_count (snd e)) cs))"

lemma node_count_child: "p < length cs \<Longrightarrow> node_count (snd (cs ! p)) < node_count (Inner i nx cs)"
  using member_le_sum_list [of "node_count (snd (cs ! p))" "map (\<lambda>e. node_count (snd e)) cs"]
  by (auto simp: less_Suc_eq_le)

lemma node_count_split:
  assumes "split_node b c = (c1, br)"
  shows "node_count c1 \<le> node_count c" "node_count br \<le> node_count c"
proof (atomize (full), cases c)
  case (Inner i nx cs)
  let ?m = "length cs - NSPLIT"
  have "sum_list (map (\<lambda>e. node_count (snd e)) cs) =
      sum_list (map (\<lambda>e. node_count (snd e)) (take ?m cs)) + sum_list (map (\<lambda>e. node_count (snd e)) (drop ?m cs))"
    by (metis append_take_drop_id map_append sum_list_append)
  with assms Inner show "node_count c1 \<le> node_count c \<and> node_count br \<le> node_count c" by auto
qed (use assms in auto)

termination descend
proof (relation "measure (\<lambda>(k, a, fr, cpos, n). node_count n)", goal_cases)
  case (2 k a fr cpos i nx cs c p pr c1 br k1 k2 cs')
  then show ?case using node_count_child [of cpos cs i nx] node_count_split(2) [of fr c c1 br] by auto
next
  case (3 k a fr cpos i nx cs c p pr c1 br k1 k2 cs')
  then show ?case using node_count_child [of cpos cs i nx] node_count_split(1) [of fr c c1 br] by auto
next
  case (4 k a fr cpos i nx cs c p)
  then show ?case using node_count_child [of cpos cs i nx] by auto
qed simp

text \<open>
  Class \<open>Tree\<close>: the root, the leftmost level-1 node, the height and, standing for the
  allocator, the next fresh address.
\<close>

record Tree =
  root :: node
  first :: nat
  hgt :: nat
  fresh :: nat

definition new_root_node :: "nat \<Rightarrow> node \<Rightarrow> node \<Rightarrow> node option" where
  "new_root_node i n brother =
     do { k \<leftarrow> keySelf n;
          k' \<leftarrow> keySelf brother;
          Some (Inner i None [(k, n), (k', brother)]) }"

definition pushroot :: "nat \<Rightarrow> node \<Rightarrow> node \<Rightarrow> Tree \<Rightarrow> Tree option" where
  "pushroot i n brother t =
     do { r \<leftarrow> new_root_node i n brother;
          Some (t\<lparr>root := r, hgt := Suc (hgt t)\<rparr>) }"

definition set_child :: "nat \<Rightarrow> node \<Rightarrow> node \<Rightarrow> node" where
  "set_child p c n =
     (case n of Level1 i nx es \<Rightarrow> n
      | Inner i nx cs \<Rightarrow> Inner i nx (cs[p := (fst (cs ! p), c)]))"

definition Tree_insert :: "Key \<Rightarrow> addr \<Rightarrow> Tree \<Rightarrow> Tree option" where
  "Tree_insert mkey item t =
     (let n = root t; cpos = place (\<lambda>x. x < mkey) n; b = fresh t in
      if isfull n then
        let (n1, brother) = split_node b n in
        do { t \<leftarrow> pushroot (b + 1) n1 brother t;
             if cpos \<ge> children n1
             then do { (fr, m) \<leftarrow> descend mkey item (b + 2) (place (\<lambda>x. x < mkey) brother) brother;
                       Some (t\<lparr>root := set_child 1 m (root t), fresh := fr\<rparr>) }
             else do { (fr, m) \<leftarrow> descend mkey item (b + 2) cpos n1;
                       Some (t\<lparr>root := set_child 0 m (root t), fresh := fr\<rparr>) } }
      else do { (fr, m) \<leftarrow> descend mkey item b cpos n;
                Some (t\<lparr>root := m, fresh := fr\<rparr>) })"

text \<open>The constructor of \<open>Tree\<close>: one level-1 root that holds the sentinel.\<close>

definition sentinel :: Key where
  "sentinel = Key_of KFS_SENTINEL 0 0"

definition new_Tree :: Tree where
  "new_Tree = \<lparr>root = Level1 1 None [(sentinel, 0)], first = 1, hgt = 1, fresh = 2\<rparr>"

subsection \<open>Search and iteration\<close>

function lowerBound :: "(Key \<Rightarrow> bool) \<Rightarrow> node \<Rightarrow> (nat \<times> nat) option" where
  "lowerBound lt (Level1 i nx es) =
     (let p = findplace lt es in if p \<noteq> length es then Some (i, p) else None)"
| "lowerBound lt (Inner i nx cs) =
     (let p = findplace lt cs in if p < length cs then lowerBound lt (snd (cs ! p)) else None)"
  by pat_completeness auto
termination
  by (relation "measure (\<lambda>(lt, n). node_count n)") (use node_count_child in auto)

fun nodes :: "node \<Rightarrow> node list" where
  "nodes (Level1 i nx es) = [Level1 i nx es]"
| "nodes (Inner i nx cs) = Inner i nx cs # concat (map (\<lambda>e. nodes (snd e)) cs)"

text \<open>Following a node pointer.\<close>

definition get_node :: "node \<Rightarrow> nat \<Rightarrow> node option" where
  "get_node r i = find (\<lambda>n. nid n = i) (nodes r)"

text \<open>
  The pairs of key and metadata that repeated \<open>LeafIter::next\<close> visits from a position on.
  Fuel bounds the number of nodes visited.
\<close>

fun leaf_seq :: "nat \<Rightarrow> node \<Rightarrow> nat option \<Rightarrow> nat \<Rightarrow> (Key \<times> addr) list" where
  "leaf_seq 0 r i pos = []"
| "leaf_seq (Suc f) r None pos = []"
| "leaf_seq (Suc f) r (Some i) pos =
     (case get_node r i of
        None \<Rightarrow> []
      | Some (Inner _ _ _) \<Rightarrow> []
      | Some (Level1 _ nx es) \<Rightarrow> drop pos es @ leaf_seq f r nx 0)"

definition iterate_from :: "Tree \<Rightarrow> nat \<times> nat \<Rightarrow> (Key \<times> addr) list" where
  "iterate_from t it = leaf_seq (length (nodes (root t))) (root t) (Some (fst it)) (snd it)"

definition getkey :: "node \<Rightarrow> nat \<times> nat \<Rightarrow> Key option" where
  "getkey r it =
     (case get_node r (fst it) of
        Some (Level1 _ _ es) \<Rightarrow> if snd it < length es then Some (fst (es ! snd it)) else None
      | _ \<Rightarrow> None)"

definition findLeaf :: "(Key \<Rightarrow> bool) \<Rightarrow> (Key \<Rightarrow> bool) \<Rightarrow> Tree \<Rightarrow> (nat \<times> nat) option" where
  "findLeaf lt eq t =
     (case lowerBound lt (root t) of
        None \<Rightarrow> None
      | Some it \<Rightarrow>
          (case getkey (root t) it of
             Some k \<Rightarrow> if eq k then Some it else None
           | None \<Rightarrow> None))"

text \<open>The metadata \<open>extractAll\<close> and the loops written like it collect.\<close>

definition extractAll :: "(Key \<Rightarrow> bool) \<Rightarrow> (Key \<Rightarrow> bool) \<Rightarrow> Tree \<Rightarrow> addr list" where
  "extractAll lt eq t =
     (case findLeaf lt eq t of
        None \<Rightarrow> []
      | Some it \<Rightarrow> map snd (takeWhile (\<lambda>e. eq (fst e)) (iterate_from t it)))"

subsection \<open>Deletion\<close>

fun repl :: "nat \<Rightarrow> node \<Rightarrow> node \<Rightarrow> node" where
  "repl i m (Level1 j nx es) = (if j = i then m else Level1 j nx es)"
| "repl i m (Inner j nx cs) =
     (if j = i then m else Inner j nx (map (\<lambda>e. (fst e, repl i m (snd e))) cs))"

text \<open>The descent of \<open>Tree::del\<close> with the path from the root, outermost node first.\<close>

function del_path :: "Key \<Rightarrow> node \<Rightarrow> ((nat \<times> nat) list \<times> nat \<times> nat) option" where
  "del_path mkey (Level1 i nx es) = Some ([], i, findplace (\<lambda>x. x < mkey) es)"
| "del_path mkey (Inner i nx cs) =
     (let pos = findplace (\<lambda>x. x < mkey) cs in
      if pos < length cs
      then do { (path, n, p) \<leftarrow> del_path mkey (snd (cs ! pos)); Some ((i, pos) # path, n, p) }
      else None)"
  by pat_completeness auto
termination
  by (relation "measure (\<lambda>(k, n). node_count n)") (use node_count_child in auto)

text \<open>\<open>shift_path\<close> works from the end of the path; the list here is innermost first.\<close>

fun shift_path :: "node \<Rightarrow> (nat \<times> nat) list \<Rightarrow> (nat \<times> nat) list option" where
  "shift_path r [] = None"
| "shift_path r ((i, pos) # path) =
     do { n \<leftarrow> get_node r i;
          if Suc pos \<noteq> children n then Some ((i, Suc pos) # path)
          else do { j \<leftarrow> nxt n;
                    path' \<leftarrow> shift_path r path;
                    Some ((j, 0) # path') } }"

text \<open>
  The loop that looks for the item among those with its key.  The result is \<open>Some None\<close>
  when there is none; fuel bounds the number of entries visited.
\<close>

fun del_find :: "nat \<Rightarrow> node \<Rightarrow> Key \<Rightarrow> (addr \<Rightarrow> bool) \<Rightarrow> (nat \<times> nat) list \<Rightarrow> nat \<Rightarrow> nat \<Rightarrow>
    ((nat \<times> nat) list \<times> nat \<times> nat) option option" where
  "del_find 0 r mkey match path i pos = None"
| "del_find (Suc f) r mkey match path i pos =
     (case get_node r i of
        Some (Level1 _ nx es) \<Rightarrow>
          if pos < length es then
            if fst (es ! pos) = mkey then
              if match (snd (es ! pos)) then Some (Some (path, i, pos))
              else if Suc pos = length es
              then do { j \<leftarrow> nx;
                        path' \<leftarrow> shift_path r path;
                        del_find f r mkey match path' j 0 }
              else del_find f r mkey match path i (Suc pos)
            else Some None
          else None
      | _ \<Rightarrow> None)"

definition remove_entry :: "nat \<Rightarrow> node \<Rightarrow> (addr \<times> node) option" where
  "remove_entry pos n =
     (case n of
        Level1 i nx es \<Rightarrow>
          if pos < length es
          then do { es' \<leftarrow> closeHole pos 1 es; Some (snd (es ! pos), Level1 i nx es') }
          else None
      | Inner _ _ _ \<Rightarrow> None)"

definition resetKey :: "nat \<Rightarrow> node \<Rightarrow> node option" where
  "resetKey pos n =
     (case n of
        Inner i nx cs \<Rightarrow>
          if pos < length cs
          then do { k \<leftarrow> keySelf (snd (cs ! pos)); Some (Inner i nx (cs[pos := (k, snd (cs ! pos))])) }
          else None
      | Level1 _ _ _ \<Rightarrow> None)"

text \<open>Going back up the path (innermost first) after the last child was removed.\<close>

fun reset_keys :: "node \<Rightarrow> (nat \<times> nat) list \<Rightarrow> node option" where
  "reset_keys r [] = Some r"
| "reset_keys r ((d, pos) # path) =
     do { dad \<leftarrow> get_node r d;
          dad \<leftarrow> resetKey pos dad;
          if pos \<noteq> children dad - 1 then Some (repl d dad r) else reset_keys (repl d dad r) path }"

text \<open>\<open>middle.absorb(left)\<close>.\<close>

fun absorb :: "node \<Rightarrow> node \<Rightarrow> node option" where
  "absorb (Level1 i nx es) (Level1 li lnx les) =
     (if length es + length les \<le> NKEY then Some (Level1 li nx (les @ es)) else None)"
| "absorb (Inner i nx cs) (Inner li lnx lcs) =
     (if length cs + length lcs \<le> NKEY then Some (Inner li nx (lcs @ cs)) else None)"
| "absorb _ _ = None"

definition neighbor_left :: "nat \<Rightarrow> (Key \<times> node) list \<Rightarrow> node option" where
  "neighbor_left pos cs = (if pos = 0 then None else Some (snd (cs ! (pos - 1))))"

definition neighbor_right :: "nat \<Rightarrow> (Key \<times> node) list \<Rightarrow> node option" where
  "neighbor_right pos cs = (if pos = length cs - 1 then None else Some (snd (cs ! (pos + 1))))"

text \<open>The end of \<open>mergeNeighbor\<close>: child \<open>base + 1\<close> is gone, \<open>m\<close> replaces child \<open>base\<close>.\<close>

definition merge_at :: "nat \<Rightarrow> node \<Rightarrow> (Key \<times> node) list \<Rightarrow> (Key \<times> node) list option" where
  "merge_at base m cs = closeHole (base + 1) 1 (cs[base := (fst (cs ! (base + 1)), m)])"

text \<open>The inner option is the boolean result: \<open>Some None\<close> when nothing was merged.\<close>

definition mergeNeighbor :: "nat \<Rightarrow> node \<Rightarrow> node option option" where
  "mergeNeighbor pos n =
     (case n of
        Level1 _ _ _ \<Rightarrow> None
      | Inner i nx cs \<Rightarrow>
          if pos < length cs then
            let middle = snd (cs ! pos);
                fits = (\<lambda>nb. case nb of None \<Rightarrow> False | Some b \<Rightarrow> children middle + children b < NKEY);
                left = neighbor_left pos cs;
                right = neighbor_right pos cs
            in if fits left
               then do { m \<leftarrow> absorb middle (the left);
                         cs' \<leftarrow> merge_at (pos - 1) m cs;
                         Some (Some (Inner i nx cs')) }
               else if fits right
               then do { m \<leftarrow> absorb (the right) middle;
                         cs' \<leftarrow> merge_at pos m cs;
                         Some (Some (Inner i nx cs')) }
               else Some None
          else None)"

text \<open>\<open>left.shiftRight(middle, n)\<close>; the result is the pair of the new nodes.\<close>

fun shiftRight :: "node \<Rightarrow> node \<Rightarrow> nat \<Rightarrow> (node \<times> node) option" where
  "shiftRight (Level1 li lnx les) (Level1 i nx es) n =
     (if n + length es \<le> NKEY
      then Some (Level1 li lnx (take (length les - n) les), Level1 i nx (drop (length les - n) les @ es))
      else None)"
| "shiftRight (Inner li lnx lcs) (Inner i nx cs) n =
     (if n + length cs \<le> NKEY
      then Some (Inner li lnx (take (length lcs - n) lcs), Inner i nx (drop (length lcs - n) lcs @ cs))
      else None)"
| "shiftRight _ _ n = None"

text \<open>\<open>right.shiftLeft(middle, n)\<close>.\<close>

fun shiftLeft :: "node \<Rightarrow> node \<Rightarrow> nat \<Rightarrow> (node \<times> node) option" where
  "shiftLeft (Level1 ri rnx res) (Level1 i nx es) n =
     (if n + length es \<le> NKEY \<and> n < length res
      then Some (Level1 i nx (es @ take n res), Level1 ri rnx (drop n res)) else None)"
| "shiftLeft (Inner ri rnx rcs) (Inner i nx cs) n =
     (if n + length cs \<le> NKEY \<and> n < length rcs
      then Some (Inner i nx (cs @ take n rcs), Inner ri rnx (drop n rcs)) else None)"
| "shiftLeft _ _ n = None"

definition balanceNeighbor :: "nat \<Rightarrow> node \<Rightarrow> node option option" where
  "balanceNeighbor pos n =
     (case n of
        Level1 _ _ _ \<Rightarrow> None
      | Inner i nx cs \<Rightarrow>
          if pos < length cs then
            let middle = snd (cs ! pos);
                cnt = (\<lambda>nb. case nb of None \<Rightarrow> - 1 | Some b \<Rightarrow> int (children b));
                left = neighbor_left pos cs;
                right = neighbor_right pos cs;
                from_left = (cnt left \<ge> cnt right);
                donor = (if from_left then left else right)
            in case donor of
                 None \<Rightarrow> Some None
               | Some d \<Rightarrow>
                   let nmove = excess d in
                   if nmove = 0 then Some None
                   else if from_left
                   then do { (l, m) \<leftarrow> shiftRight d middle nmove;
                             n' \<leftarrow> resetKey (pos - 1)
                                    (Inner i nx (cs[pos - 1 := (fst (cs ! (pos - 1)), l),
                                                    pos := (fst (cs ! pos), m)]));
                             Some (Some n') }
                   else do { (m, r) \<leftarrow> shiftLeft d middle nmove;
                             n' \<leftarrow> resetKey pos
                                    (Inner i nx (cs[pos := (fst (cs ! pos), m),
                                                    pos + 1 := (fst (cs ! (pos + 1)), r)]));
                             Some (Some n') }
          else None)"

definition merge_or_balance :: "nat \<Rightarrow> node \<Rightarrow> node option option" where
  "merge_or_balance pos dad =
     do { res \<leftarrow> mergeNeighbor pos dad;
          case res of Some dad' \<Rightarrow> Some (Some dad') | None \<Rightarrow> balanceNeighbor pos dad }"

text \<open>
  Going back up the path to remove the first underfull node: the new root node, whether a
  node was rearranged and the last node visited.
\<close>

fun rebalance :: "node \<Rightarrow> (nat \<times> nat) list \<Rightarrow> nat \<Rightarrow> nat option \<Rightarrow> (node \<times> bool \<times> nat option) option" where
  "rebalance r [] n dad = Some (r, False, dad)"
| "rebalance r ((d, pos) # path) n _ =
     do { dad \<leftarrow> get_node r d;
          c \<leftarrow> get_node r n;
          case dad of
            Level1 _ _ _ \<Rightarrow> None
          | Inner _ _ cs \<Rightarrow>
              if pos < length cs \<and> nid (snd (cs ! pos)) = n then
                do { res \<leftarrow> (if isdepleted c then merge_or_balance pos dad else Some None);
                     case res of
                       Some dad' \<Rightarrow> Some (repl d dad' r, True, Some d)
                     | None \<Rightarrow> rebalance r path d (Some d) }
              else None }"

definition poproot :: "Tree \<Rightarrow> Tree" where
  "poproot t =
     (case root t of
        Inner i nx [(k, c)] \<Rightarrow> t\<lparr>root := c, hgt := hgt t - 1\<rparr>
      | _ \<Rightarrow> t)"

text \<open>
  \<open>Tree::del\<close> for an item with key \<open>mkey\<close>; \<open>match\<close> is \<open>m->match\<close>.  The result is the
  metadata that was removed (and destroyed), if any, and the tree.
\<close>

definition Tree_del :: "Key \<Rightarrow> (addr \<Rightarrow> bool) \<Rightarrow> Tree \<Rightarrow> (addr option \<times> Tree) option" where
  "Tree_del mkey match t =
     do { (path, i, pos) \<leftarrow> del_path mkey (root t);
          found \<leftarrow> del_find (sum_list (map children (nodes (root t)))) (root t) mkey match (rev path) i pos;
          case found of
            None \<Rightarrow> Some (None, t)
          | Some (rpath, i, pos) \<Rightarrow>
              do { n \<leftarrow> get_node (root t) i;
                   (a, n') \<leftarrow> remove_entry pos n;
                   let r = repl i n' (root t);
                   r \<leftarrow> (if pos = children n' then reset_keys r rpath else Some r);
                   (r, balanced, dad) \<leftarrow> rebalance r rpath i None;
                   let t' = t\<lparr>root := r\<rparr>;
                   Some (Some a, if balanced \<and> dad = Some (nid r) then poproot t' else t') } }"

end
