(* ===== verification/MetaTreeInv.thy ===== *)
theory MetaTreeInv
  imports MetaTree "HOL-Library.Multiset"
begin

text \<open>
  The invariant of the metadata tree: every node has between one and \<open>NKEY\<close> children, all
  level-1 nodes have the same depth, every key of an inner node is the largest key below the
  child, the nodes of each level are chained by their \<open>next\<close> pointers, node addresses are
  distinct, the entries are sorted and end with the sentinel.  The fill condition bounds the
  number of entries of a level-1 node from below.
\<close>

subsection \<open>Views of a tree\<close>

fun leaves :: "node \<Rightarrow> (Key \<times> addr) list" where
  "leaves (Level1 i nx es) = es"
| "leaves (Inner i nx cs) = concat (map (\<lambda>e. leaves (snd e)) cs)"

definition max_key :: "node \<Rightarrow> Key" where
  "max_key n = fst (last (leaves n))"

definition ids :: "node \<Rightarrow> nat list" where
  "ids n = map nid (nodes n)"

text \<open>The nodes at a depth, from left to right, and their addresses and \<open>next\<close> pointers.\<close>

fun level :: "nat \<Rightarrow> node \<Rightarrow> node list" where
  "level 0 n = [n]"
| "level (Suc d) (Level1 i nx es) = []"
| "level (Suc d) (Inner i nx cs) = concat (map (\<lambda>e. level d (snd e)) cs)"

definition skel :: "nat \<Rightarrow> node \<Rightarrow> (nat \<times> nat option) list" where
  "skel d n = map (\<lambda>m. (nid m, nxt m)) (level d n)"

fun linked :: "(nat \<times> nat option) list \<Rightarrow> bool" where
  "linked [] = True"
| "linked [(i, nx)] = (nx = None)"
| "linked ((i, nx) # (j, ny) # xs) = (nx = Some j \<and> linked ((j, ny) # xs))"

text \<open>
  Shape: uniform height, between one and \<open>NKEY\<close> children, every child key the largest key
  below it.
\<close>

fun wfn :: "nat \<Rightarrow> node \<Rightarrow> bool" where
  "wfn h (Level1 i nx es) = (h = 0 \<and> es \<noteq> [] \<and> length es \<le> NKEY)"
| "wfn 0 (Inner i nx cs) = False"
| "wfn (Suc h) (Inner i nx cs) =
     (cs \<noteq> [] \<and> length cs \<le> NKEY \<and> (\<forall>e\<in>set cs. wfn h (snd e) \<and> fst e = max_key (snd e)))"

text \<open>
  Fill: a level-1 node has at least 15 entries more than there are only children on the way
  up from it (itself included).
\<close>

fun fill :: "int \<Rightarrow> node \<Rightarrow> bool" where
  "fill c (Level1 i nx es) = (int (length es) \<ge> 15 + c)"
| "fill c (Inner i nx cs) = (\<forall>e\<in>set cs. fill (if length cs = 1 then c + 1 else 0) (snd e))"

lemmas tree_consts = NKEY_def NSPLIT_def NFEWEST_def

lemma wfn_leaves: "wfn h n \<Longrightarrow> leaves n \<noteq> []"
proof (induction h n rule: wfn.induct)
  case (3 h i nx cs)
  then show ?case by (cases cs) auto
qed auto

lemma wfn_keySelf: "wfn h n \<Longrightarrow> keySelf n = Some (max_key n)"
proof (cases n)
  case (Inner i nx cs)
  assume wfn: "wfn h n"
  with Inner obtain h' where h: "h = Suc h'" by (cases h) auto
  from wfn Inner h obtain xs k c where cs: "cs = xs @ [(k, c)]" "wfn h' c" "k = max_key c"
    by (cases cs rule: rev_cases) auto
  with wfn_leaves [OF cs(2)] Inner show ?thesis
    by (simp add: last_key_def max_key_def)
qed (auto simp: last_key_def max_key_def)

lemma wfn_children: "wfn h n \<Longrightarrow> 0 < children n \<and> children n \<le> NKEY"
  by (cases "(h, n)" rule: wfn.cases) auto

lemma fill_mono: "fill c n \<Longrightarrow> c' \<le> c \<Longrightarrow> fill c' n"
proof (induction c n arbitrary: c' rule: fill.induct)
  case (2 c i nx cs)
  then show ?case by (cases "length cs = 1") auto
qed auto

subsection \<open>Positions in sorted lists\<close>

text \<open>The predicate holds on an initial part of the list.\<close>

definition initial :: "(Key \<Rightarrow> bool) \<Rightarrow> (Key \<times> 'c) list \<Rightarrow> bool" where
  "initial lt xs \<longleftrightarrow> sorted_wrt (\<lambda>x y. lt (fst y) \<longrightarrow> lt (fst x)) xs"

definition ins_at :: "('b \<Rightarrow> bool) \<Rightarrow> 'b \<Rightarrow> 'b list \<Rightarrow> 'b list" where
  "ins_at P x xs = takeWhile P xs @ x # dropWhile P xs"

lemma initial_append:
  "initial lt (xs @ ys) \<longleftrightarrow> initial lt xs \<and> initial lt ys \<and> (\<forall>x\<in>set xs. \<forall>y\<in>set ys. lt (fst y) \<longrightarrow> lt (fst x))"
  by (simp add: initial_def sorted_wrt_append)

lemma initial_less: "sorted (map fst xs) \<Longrightarrow> initial (\<lambda>x. x < k) xs"
  by (auto simp: initial_def sorted_map elim!: sorted_wrt_mono_rel [rotated])

lemma initial_last:
  assumes "initial lt xs" "xs \<noteq> []" "lt (fst (last xs))" "x \<in> set xs"
  shows "lt (fst x)"
proof -
  from assms(2) obtain ys y where "xs = ys @ [y]" by (cases xs rule: rev_cases) auto
  with assms show ?thesis by (auto simp: initial_append)
qed

lemma ins_at_middle:
  assumes "\<And>x. x \<in> set A \<Longrightarrow> P x" "\<exists>x\<in>set c. \<not> P x"
  shows "ins_at P x (A @ c @ B) = A @ ins_at P x c @ B"
    and "dropWhile P (A @ c @ B) = dropWhile P c @ B"
    and "takeWhile P (A @ c @ B) = A @ takeWhile P c"
  using assms by (auto simp: ins_at_def takeWhile_append dropWhile_append)

lemma ins_at_left: "\<exists>x\<in>set c. \<not> P x \<Longrightarrow> ins_at P x (c @ B) = ins_at P x c @ B"
  using ins_at_middle(1) [of "[]" P c x B] by simp

lemma ins_at_right: "(\<And>x. x \<in> set A \<Longrightarrow> P x) \<Longrightarrow> \<exists>x\<in>set c. \<not> P x \<Longrightarrow> ins_at P x (A @ c) = A @ ins_at P x c"
  using ins_at_middle(1) [of A P c x "[]"] by simp

lemma last_ins_at: "xs \<noteq> [] \<Longrightarrow> \<not> P (last xs) \<Longrightarrow> last (ins_at P x xs) = last xs"
proof -
  assume xs: "xs \<noteq> []" "\<not> P (last xs)"
  then have "dropWhile P xs \<noteq> []" using dropWhile_eq_Nil_conv [of P xs] last_in_set by blast
  moreover from this have "last xs = last (dropWhile P xs)" by (metis last_append takeWhile_dropWhile_id)
  ultimately show ?thesis by (auto simp: ins_at_def)
qed

lemma sorted_ins_at: "sorted (map fst xs) \<Longrightarrow> sorted (map fst (ins_at (\<lambda>e. fst e < k) (k, a) xs))"
  for k :: "'k::linorder"
proof (induction xs)
  case (Cons x xs)
  then show ?case
    by (cases "fst x < k") (auto simp: ins_at_def dest: set_takeWhileD set_dropWhileD)
qed (simp add: ins_at_def)

subsection \<open>Search in a node\<close>

lemma leaves_append: "leaves (Inner i nx (A @ (k, c) # B)) =
    concat (map (\<lambda>e. leaves (snd e)) A) @ leaves c @ concat (map (\<lambda>e. leaves (snd e)) B)"
  by simp

lemma findplace_less: "findplace lt xs < length xs \<longleftrightarrow> (\<exists>x\<in>set xs. \<not> lt (fst x))"
  by (induction xs) (auto simp: findplace_def)

lemma findplace_split:
  assumes "findplace lt xs < length xs"
  obtains A x B where "xs = A @ x # B" "length A = findplace lt xs" "\<And>y. y \<in> set A \<Longrightarrow> lt (fst y)" "\<not> lt (fst x)"
proof -
  let ?A = "takeWhile (\<lambda>e. lt (fst e)) xs"
  from assms have "dropWhile (\<lambda>e. lt (fst e)) xs \<noteq> []" by (auto simp: findplace_less)
  then obtain x B where "dropWhile (\<lambda>e. lt (fst e)) xs = x # B" by (cases "dropWhile (\<lambda>e. lt (fst e)) xs") auto
  with that [of ?A x B] show ?thesis
    using takeWhile_dropWhile_id [of "\<lambda>e. lt (fst e)" xs] hd_dropWhile [of "\<lambda>e. lt (fst e)" xs]
    by (auto simp: findplace_def dest: set_takeWhileD)
qed

lemma wfn_Inner_member: "wfn (Suc h) (Inner i nx cs) \<Longrightarrow> (k, c) \<in> set cs \<Longrightarrow> wfn h c \<and> k = max_key c"
  by auto

lemma initial_child: "initial lt (leaves (Inner i nx cs)) \<Longrightarrow> (k, c) \<in> set cs \<Longrightarrow> initial lt (leaves c)"
  by (metis in_set_conv_decomp initial_append leaves_append)

text \<open>Everything below the children passed over by \<open>findplace\<close> is below the searched key.\<close>

lemma passed_below:
  assumes "wfn (Suc h) (Inner i nx cs)" "initial lt (leaves (Inner i nx cs))"
    and "set A \<subseteq> set cs" "\<And>y. y \<in> set A \<Longrightarrow> lt (fst y)"
    and "x \<in> set (concat (map (\<lambda>e. leaves (snd e)) A))"
  shows "lt (fst x)"
proof -
  from assms(5) obtain k c where e: "(k, c) \<in> set A" "x \<in> set (leaves c)" by auto
  with assms(3) have "(k, c) \<in> set cs" by auto
  with assms(1,2) have "wfn h c" "k = max_key c" "initial lt (leaves c)"
    using wfn_Inner_member initial_child by blast+
  with e assms(4) [OF e(1)] show ?thesis
    using initial_last [of lt "leaves c" x] wfn_leaves [of h c] by (simp add: max_key_def)
qed

lemma max_key_Inner:
  assumes "wfn (Suc h) (Inner i nx cs)"
  shows "max_key (Inner i nx cs) = fst (last cs)"
  using wfn_keySelf [OF assms] assms by (simp add: last_key_def)

lemma max_key_in: "wfn h n \<Longrightarrow> \<exists>x\<in>set (leaves n). fst x = max_key n"
  using wfn_leaves last_in_set by (fastforce simp: max_key_def)

text \<open>The child that is visited contains the first entry that is not below.\<close>

lemma visited_child:
  assumes wfn: "wfn (Suc h) (Inner i nx cs)" and ini: "initial lt (leaves (Inner i nx cs))"
    and le: "\<not> lt (max_key (Inner i nx cs))"
  obtains A k c B where "cs = A @ (k, c) # B" "length A = findplace lt cs" "wfn h c" "k = max_key c"
    "initial lt (leaves c)" "\<not> lt (max_key c)"
    "\<And>x. x \<in> set (concat (map (\<lambda>e. leaves (snd e)) A)) \<Longrightarrow> lt (fst x)"
proof -
  have "cs \<noteq> []" using wfn by simp
  then have "findplace lt cs < length cs"
    using le last_in_set by (auto simp: findplace_less max_key_Inner [OF wfn])
  then obtain A x B where s: "cs = A @ x # B" "length A = findplace lt cs" "\<And>y. y \<in> set A \<Longrightarrow> lt (fst y)" "\<not> lt (fst x)"
    by (rule findplace_split) blast
  obtain k c where x: "x = (k, c)" by (cases x)
  have "wfn h c" "k = max_key c" using wfn_Inner_member [OF wfn, of k c] s(1) x by auto
  moreover have "initial lt (leaves c)" using initial_child [OF ini, of k c] s(1) x by auto
  moreover have "lt (fst y)" if "y \<in> set (concat (map (\<lambda>e. leaves (snd e)) A))" for y
    by (rule passed_below [OF wfn ini _ s(3) that]) (use s(1) in auto)
  ultimately show ?thesis using that [of A k c B] s x by simp
qed

lemma skel_simps [simp]:
  "skel 0 n = [(nid n, nxt n)]"
  "skel (Suc d) (Level1 i nx es) = []"
  "skel (Suc d) (Inner i nx cs) = concat (map (\<lambda>e. skel d (snd e)) cs)"
  by (simp_all add: skel_def map_concat comp_def)

lemma ids_simps [simp]:
  "ids (Level1 i nx es) = [i]"
  "ids (Inner i nx cs) = i # concat (map (\<lambda>e. ids (snd e)) cs)"
  by (simp_all add: ids_def map_concat comp_def)

subsection \<open>The invariant of the tree\<close>

fun rootfill :: "node \<Rightarrow> bool" where
  "rootfill (Level1 i nx es) = True"
| "rootfill (Inner i nx cs) = (2 \<le> length cs \<and> (\<forall>e\<in>set cs. fill 0 (snd e)))"

definition linked_levels :: "node \<Rightarrow> bool" where
  "linked_levels n \<longleftrightarrow> (\<forall>d. linked (skel d n))"

definition tree_inv :: "Tree \<Rightarrow> bool" where
  "tree_inv t \<longleftrightarrow>
     0 < hgt t \<and> wfn (hgt t - 1) (root t) \<and> rootfill (root t) \<and>
     sorted (map fst (leaves (root t))) \<and>
     leaves (root t) \<noteq> [] \<and> last (leaves (root t)) = (sentinel, 0) \<and>
     (\<forall>e\<in>set (butlast (leaves (root t))). fst e < sentinel) \<and>
     distinct (ids (root t)) \<and> (\<forall>i\<in>set (ids (root t)). i < fresh t) \<and>
     linked_levels (root t) \<and> first t = fst (hd (skel (hgt t - 1) (root t)))"

text \<open>The entries of the tree in the order of the leaves, without the sentinel.\<close>

definition entries :: "Tree \<Rightarrow> (Key \<times> addr) list" where
  "entries t = butlast (leaves (root t))"

lemma entries_leaves: "tree_inv t \<Longrightarrow> leaves (root t) = entries t @ [(sentinel, 0)]"
  unfolding tree_inv_def entries_def by (metis append_butlast_last_id)

lemma skel_nonempty: "wfn h n \<Longrightarrow> d \<le> h \<Longrightarrow> skel d n \<noteq> []"
proof (induction d arbitrary: h n)
  case (Suc d)
  then obtain h' where h: "h = Suc h'" by (cases h) auto
  with Suc.prems obtain i nx k c cs where "n = Inner i nx ((k, c) # cs)" "wfn h' c"
    by (cases "(h, n)" rule: wfn.cases) (auto simp: neq_Nil_conv)
  with Suc.IH [of h' c] Suc.prems(2) h show ?case by simp
qed simp

lemma rootfill_fill: "rootfill n \<Longrightarrow> \<not> hasleaves n \<Longrightarrow> fill c n"
  by (cases n) auto

lemma wfn_hasleaves: "wfn h n \<Longrightarrow> hasleaves n \<longleftrightarrow> h = 0"
  by (cases "(h, n)" rule: wfn.cases) auto

lemma new_Tree_inv: "tree_inv new_Tree"
proof -
  have "linked (skel d (Level1 1 None [(sentinel, 0)]))" for d by (cases d) auto
  then show ?thesis by (simp add: tree_inv_def new_Tree_def linked_levels_def tree_consts)
qed

lemma entries_new_Tree: "entries new_Tree = []"
  by (simp add: entries_def new_Tree_def)

end
