(* ===== verification/MetaTreeInsert.thy ===== *)
theory MetaTreeInsert
  imports MetaTreeInv
begin

text \<open>
  Insertion into the metadata tree: splitting full nodes on the way down keeps the invariant
  and puts the new entry before the entries with a key that is not smaller.
\<close>

subsection \<open>Splitting\<close>

text \<open>A level before and after the split of at most one node; new addresses are in a range.\<close>

definition grown :: "nat \<Rightarrow> nat \<Rightarrow> (nat \<times> nat option) list \<Rightarrow> (nat \<times> nat option) list \<Rightarrow> bool" where
  "grown fr fr' xs ys \<longleftrightarrow> ys = xs \<or>
     (\<exists>A i nx B j. fr \<le> j \<and> j < fr' \<and> xs = A @ (i, nx) # B \<and> ys = A @ (i, Some j) # (j, nx) # B)"

lemma grown_refl [simp]: "grown fr fr' xs xs"
  by (simp add: grown_def)

lemma grown_context:
  assumes "grown fr fr' xs ys"
  shows "grown fr fr' (P @ xs @ S) (P @ ys @ S)"
proof (cases "ys = xs")
  case False
  with assms obtain A i nx B j where "fr \<le> j" "j < fr'" "xs = A @ (i, nx) # B" "ys = A @ (i, Some j) # (j, nx) # B"
    unfolding grown_def by blast
  then have "fr \<le> j \<and> j < fr' \<and> P @ xs @ S = (P @ A) @ (i, nx) # (B @ S) \<and>
      P @ ys @ S = (P @ A) @ (i, Some j) # (j, nx) # (B @ S)" by simp
  then show ?thesis unfolding grown_def by (intro disjI2 exI)
qed simp

lemma grown_mono: "grown fr fr' xs ys \<Longrightarrow> m \<le> fr \<Longrightarrow> fr' \<le> m' \<Longrightarrow> grown m m' xs ys"
  unfolding grown_def by (elim disjE exE conjE, simp, intro disjI2 exI conjI) auto

lemma linked_grown:
  assumes "grown fr fr' xs ys" "linked xs"
  shows "linked ys"
proof -
  have "linked (A @ (i, Some j) # (j, nx) # B)" if "linked (A @ (i, nx) # B)" for A i nx B j
    using that
  proof (induction A rule: linked.induct)
    case 1
    then show ?case by (cases B) auto
  next
    case (2 i' nx')
    then show ?case by (cases B) auto
  next
    case (3 i' nx' j' ny' xs)
    then show ?case by (cases xs) auto
  qed
  with assms show ?thesis unfolding grown_def by blast
qed

lemma split_node_conj:
  assumes "split_node b c = (c1, br)" "wfn h c" "isfull c"
  shows "wfn h c1 \<and> wfn h br \<and> leaves c = leaves c1 @ leaves br \<and> children c1 = 16 \<and> children br = 16 \<and>
    nid c1 = nid c \<and> nxt c1 = Some b \<and> nid br = b \<and> nxt br = nxt c \<and>
    mset (ids c1) + mset (ids br) = mset (ids c) + {#b#} \<and>
    skel (Suc d) c = skel (Suc d) c1 @ skel (Suc d) br \<and> (fill x c \<longrightarrow> fill 0 c1 \<and> fill 0 br)"
proof (cases c)
  case (Level1 i nx es)
  with assms have "length es = 32" "h = 0" by (simp_all add: isfull_def tree_consts)
  moreover from this assms(1) Level1 have "c1 = Level1 i (Some b) (take 16 es)" "br = Level1 b nx (drop 16 es)"
    by (auto simp: tree_consts)
  moreover have "es \<noteq> []" using \<open>length es = 32\<close> by auto
  ultimately show ?thesis by (simp add: Level1 tree_consts)
next
  case (Inner i nx cs)
  then obtain h' where h: "h = Suc h'" using assms(2) by (cases h) auto
  have len: "length cs = 32" using assms(3) Inner by (simp add: isfull_def tree_consts)
  have "length cs - NSPLIT = 16" using len by (simp add: tree_consts)
  with assms(1) Inner have c1: "c1 = Inner i (Some b) (take 16 cs)" and br: "br = Inner b nx (drop 16 cs)"
    by auto
  have sub: "\<forall>e\<in>set (take 16 cs) \<union> set (drop 16 cs). wfn h' (snd e) \<and> fst e = max_key (snd e) \<and> (fill x c \<longrightarrow> fill 0 (snd e))"
  proof
    fix e assume "e \<in> set (take 16 cs) \<union> set (drop 16 cs)"
    then have "e \<in> set cs" by (auto dest: in_set_takeD in_set_dropD)
    with assms(2) len show "wfn h' (snd e) \<and> fst e = max_key (snd e) \<and> (fill x c \<longrightarrow> fill 0 (snd e))"
      by (simp add: Inner h)
  qed
  have f: "concat (map f cs) = concat (map f (take 16 cs)) @ concat (map f (drop 16 cs))"
    for f :: "Key \<times> node \<Rightarrow> 'z list"
    by (metis append_take_drop_id concat_append map_append)
  have "cs \<noteq> []" using len by auto
  then have "wfn h c1" "wfn h br" using sub len by (simp_all add: h c1 br tree_consts)
  moreover have "fill x c \<longrightarrow> fill 0 c1 \<and> fill 0 br" using sub len by (simp add: c1 br)
  moreover have "children c1 = 16" "children br = 16" using len by (simp_all add: c1 br)
  moreover have "leaves c = leaves c1 @ leaves br" unfolding Inner c1 br leaves.simps by (rule f)
  moreover have "skel (Suc d) c = skel (Suc d) c1 @ skel (Suc d) br" unfolding Inner c1 br skel_simps by (rule f)
  moreover have "mset (ids c1) + mset (ids br) = mset (ids c) + {#b#}"
    unfolding Inner c1 br ids_simps f [of "\<lambda>e. ids (snd e)"] by simp
  ultimately show ?thesis by (simp add: Inner c1 br)
qed

lemma split_node_facts:
  assumes "split_node b c = (c1, br)" "wfn h c" "isfull c"
  shows "wfn h c1" "wfn h br" "leaves c = leaves c1 @ leaves br" "children c1 = 16" "children br = 16"
    "nid c1 = nid c" "nxt c1 = Some b" "nid br = b" "nxt br = nxt c"
    "mset (ids c1) + mset (ids br) = mset (ids c) + {#b#}"
    "skel (Suc d) c = skel (Suc d) c1 @ skel (Suc d) br"
    "fill x c \<Longrightarrow> fill 0 c1" "fill x c \<Longrightarrow> fill 0 br"
  using split_node_conj [OF assms] by blast+

lemma findplace_take: "findplace lt (take m xs) = min m (findplace lt xs)"
proof (induction xs arbitrary: m)
  case (Cons x xs)
  then show ?case by (cases m) (auto simp: findplace_def)
qed (simp add: findplace_def)

lemma length_ins_at [simp]: "length (ins_at P x xs) = Suc (length xs)"
  by (induction xs) (auto simp: ins_at_def)

lemma max_key_below:
  assumes "wfn h n" "initial lt (leaves n)" "lt (max_key n)" "x \<in> set (leaves n)"
  shows "lt (fst x)"
  using initial_last [OF assms(2) wfn_leaves [OF assms(1)]] assms(3,4) by (simp add: max_key_def)

lemma place_less:
  assumes "wfn h n" "initial lt (leaves n)"
  shows "place lt n < children n \<longleftrightarrow> \<not> lt (max_key n)"
proof (cases n)
  case (Level1 i nx es)
  obtain x where "x \<in> set (leaves n)" "fst x = max_key n" using max_key_in [OF assms(1)] by blast
  then show ?thesis
    using max_key_below [OF assms] Level1 by (auto simp: findplace_less intro!: bexI [of _ x])
next
  case (Inner i nx cs)
  then obtain h' where h: "h = Suc h'" using assms(1) by (cases h) auto
  show ?thesis
  proof
    assume "place lt n < children n"
    then obtain k c where e: "(k, c) \<in> set cs" "\<not> lt k" using Inner by (auto simp: findplace_less)
    then have "wfn h' c" "k = max_key c" using wfn_Inner_member [of h' i nx cs k c] assms(1) Inner h by auto
    moreover from this obtain x where "x \<in> set (leaves c)" "fst x = k" using max_key_in by blast
    moreover from this have "x \<in> set (leaves n)" using e(1) Inner by force
    ultimately show "\<not> lt (max_key n)" using max_key_below [OF assms, of x] e(2) by auto
  next
    assume "\<not> lt (max_key n)"
    moreover have "cs \<noteq> []" using assms(1) Inner h by simp
    ultimately show "place lt n < children n"
      using assms(1) Inner h last_in_set [of cs] max_key_Inner [of h' i nx cs]
      by (auto simp: findplace_less intro!: bexI [of _ "last cs"])
  qed
qed

lemma place_split:
  assumes "split_node b c = (c1, br)" "isfull c"
  shows "place lt c1 = min 16 (place lt c)"
  using assms by (cases c) (auto simp: isfull_def tree_consts findplace_take)

subsection \<open>The insertion loop\<close>

text \<open>What the insertion of \<open>(k, a)\<close> below a node does to it.\<close>

definition inserted :: "Key \<Rightarrow> addr \<Rightarrow> nat \<Rightarrow> nat \<Rightarrow> nat \<Rightarrow> node \<Rightarrow> node \<Rightarrow> bool" where
  "inserted k a h fr fr' n n' \<longleftrightarrow>
     wfn h n' \<and> leaves n' = ins_at (\<lambda>e. fst e < k) (k, a) (leaves n) \<and> nid n' = nid n \<and> nxt n' = nxt n \<and>
     children n \<le> children n' \<and> fr \<le> fr' \<and> mset (ids n') = mset (ids n) + mset [fr..<fr'] \<and>
     (\<forall>d. grown fr fr' (skel d n) (skel d n')) \<and> (\<forall>c. fill c n \<longrightarrow> fill c n')"

lemma inserted_max_key:
  assumes "inserted k a h fr fr' n n'" "wfn h n" "k \<le> max_key n"
  shows "max_key n' = max_key n"
  using assms wfn_leaves [OF assms(2)] last_ins_at [of "leaves n" "\<lambda>e. fst e < k" "(k, a)"]
  by (simp add: inserted_def max_key_def)

lemma inserted_child:
  assumes ins: "inserted k a h fr fr' c c'"
    and wfn: "wfn (Suc h) (Inner i nx (A @ (kc, c) # B))" and le: "k \<le> max_key c"
    and A: "\<And>x. x \<in> set (concat (map (\<lambda>e. leaves (snd e)) A)) \<Longrightarrow> fst x < k"
  shows "inserted k a (Suc h) fr fr' (Inner i nx (A @ (kc, c) # B)) (Inner i nx (A @ (kc, c') # B))"
proof -
  have c: "wfn h c" "kc = max_key c" using wfn by auto
  have "\<exists>x\<in>set (leaves c). \<not> fst x < k" using max_key_in [OF c(1)] le by force
  then have lv: "ins_at (\<lambda>e. fst e < k) (k, a) (leaves (Inner i nx (A @ (kc, c) # B))) =
      leaves (Inner i nx (A @ (kc, c') # B))"
    unfolding leaves_append using ins by (subst ins_at_middle(1)) (use A in \<open>auto simp: inserted_def\<close>)
  have "wfn (Suc h) (Inner i nx (A @ (kc, c') # B))"
    using wfn ins inserted_max_key [OF ins c(1) le] by (auto simp: inserted_def)
  moreover have "grown fr fr' (skel d (Inner i nx (A @ (kc, c) # B))) (skel d (Inner i nx (A @ (kc, c') # B)))" for d
  proof (cases d)
    case (Suc d')
    then show ?thesis using ins by (simp add: inserted_def grown_context)
  qed simp
  moreover have "fill x (Inner i nx (A @ (kc, c) # B)) \<longrightarrow> fill x (Inner i nx (A @ (kc, c') # B))" for x
    using ins by (auto simp: inserted_def)
  moreover have "mset (ids (Inner i nx (A @ (kc, c') # B))) = mset (ids (Inner i nx (A @ (kc, c) # B))) + mset [fr..<fr']"
    using ins by (simp add: inserted_def)
  ultimately show ?thesis using ins lv unfolding inserted_def node.sel by auto
qed

text \<open>Splitting a full child.\<close>

lemma split_child:
  assumes sp: "split_node fr c = (c1, br)" and full: "isfull c"
    and wfn: "wfn (Suc h) (Inner i nx (A @ (kc, c) # B))" and n: "\<not> isfull (Inner i nx (A @ (kc, c) # B))"
  defines "n \<equiv> Inner i nx (A @ (kc, c) # B)"
    and "m \<equiv> Inner i nx (A @ (max_key c1, c1) # (max_key br, br) # B)"
  shows "wfn (Suc h) m" "leaves m = leaves n" "mset (ids m) = mset (ids n) + {#fr#}"
    "grown fr (Suc fr) (skel (Suc 0) n) (skel (Suc 0) m)" "d \<noteq> Suc 0 \<Longrightarrow> skel d m = skel d n"
    "fill x n \<Longrightarrow> fill x m"
proof -
  have c: "wfn h c" using wfn by simp
  note s = split_node_facts [OF sp c full]
  show "wfn (Suc h) m" using s(1,2) wfn \<open>\<not> isfull _\<close> by (simp add: m_def isfull_def)
  show "leaves m = leaves n" using s(3) by (simp add: m_def n_def)
  show "mset (ids m) = mset (ids n) + {#fr#}"
    using s(10) by (simp add: m_def n_def union_assoc [symmetric])
  show "grown fr (Suc fr) (skel (Suc 0) n) (skel (Suc 0) m)"
  proof -
    have "grown fr (Suc fr) [(nid c, nxt c)] [(nid c1, nxt c1), (nid br, nxt br)]"
      unfolding grown_def s(6-9) by (intro disjI2 exI [of _ "[]"] exI) auto
    from grown_context [OF this] show ?thesis by (simp add: m_def n_def)
  qed
  show "skel d m = skel d n" if "d \<noteq> Suc 0"
  proof (cases d)
    case (Suc d')
    with that obtain d'' where "d' = Suc d''" by (cases d') auto
    with Suc s(11) [of d''] show ?thesis by (simp add: m_def n_def)
  qed (simp add: m_def n_def)
  show "fill x m" if "fill x n"
  proof -
    have "fill 0 c1" "fill 0 br" using s(12,13) that by (auto simp: n_def split: if_splits)
    moreover have "\<forall>e\<in>set A \<union> set B. fill 0 (snd e)"
      using that by (cases "A = [] \<and> B = []") (auto simp: n_def split: if_splits)
    ultimately show ?thesis by (auto simp: m_def)
  qed
qed

lemma inserted_split:
  assumes "inserted k a h (Suc fr) fr' m n'" "leaves m = leaves n" "mset (ids m) = mset (ids n) + {#fr#}"
    "grown fr (Suc fr) (skel (Suc 0) n) (skel (Suc 0) m)" "\<And>d. d \<noteq> Suc 0 \<Longrightarrow> skel d m = skel d n"
    "\<And>x. fill x n \<Longrightarrow> fill x m" "skel (Suc 0) n' = skel (Suc 0) m" "nid m = nid n" "nxt m = nxt n" "children n \<le> children m"
  shows "inserted k a h fr fr' n n'"
proof -
  have "grown fr fr' (skel d n) (skel d n')" for d
  proof (cases "d = Suc 0")
    case True
    then show ?thesis using assms(1,4,7) grown_mono [of fr "Suc fr" _ _ fr fr'] by (simp add: inserted_def)
  next
    case False
    have "grown (Suc fr) fr' (skel d m) (skel d n')" using assms(1) unfolding inserted_def by blast
    then show ?thesis using assms(5) [OF False] by (auto elim: grown_mono)
  qed
  moreover have "mset [fr..<fr'] = {#fr#} + mset [Suc fr..<fr']"
    using assms(1) by (simp add: inserted_def upt_conv_Cons)
  ultimately show ?thesis using assms unfolding inserted_def by auto
qed

lemma descend_Level1:
  assumes "wfn 0 n" "\<not> isfull n"
  shows "\<exists>n'. descend k a fr (place (\<lambda>x. x < k) n) n = Some (fr, n') \<and> inserted k a 0 fr fr n n'"
proof (cases n)
  case (Level1 i nx es)
  let ?p = "findplace (\<lambda>x. x < k) es"
  let ?es = "take ?p es @ (k, a) # drop ?p es"
  have "?es = ins_at (\<lambda>e. fst e < k) (k, a) es"
    by (simp add: ins_at_def findplace_def takeWhile_eq_take [symmetric] dropWhile_eq_drop [symmetric])
  moreover have "?p \<le> length es" by (simp add: findplace_def length_takeWhile_le)
  moreover have "skel d (Level1 i nx es) = skel d (Level1 i nx ?es)" for d by (cases d) auto
  moreover have "ins_at (\<lambda>e. fst e < k) (k, a) es \<noteq> []" by (simp add: ins_at_def)
  ultimately show ?thesis using assms Level1 by (simp add: addChild_def inserted_def isfull_def)
qed (use assms in auto)

text \<open>The step that splits the child it visits; the loop below the halves is given.\<close>

lemma descend_split_eq:
  assumes sp: "split_node fr c = (c1, br)" and full: "isfull c"
    and wfn: "wfn (Suc h) (Inner i nx (A @ (kc, c) # B))" and nf: "\<not> isfull (Inner i nx (A @ (kc, c) # B))"
  defines "m \<equiv> \<lambda>c1' br'. Inner i nx (A @ (max_key c1, c1') # (max_key br, br') # B)"
  shows "descend k a fr (length A) (Inner i nx (A @ (kc, c) # B)) =
     (if place (\<lambda>x. x < k) c \<ge> 16
      then do { (fr', br') \<leftarrow> descend k a (Suc fr) (place (\<lambda>x. x < k) br) br; Some (fr', m c1 br') }
      else do { (fr', c1') \<leftarrow> descend k a (Suc fr) (place (\<lambda>x. x < k) c) c1; Some (fr', m c1' br) })"
proof -
  have c: "wfn h c" using wfn by simp
  note f = split_node_facts [OF sp c full]
  have "addChild (max_key br, br) (Suc (length A)) (A @ (max_key c1, c1) # B) =
      Some (A @ (max_key c1, c1) # (max_key br, br) # B)"
    using nf wfn by (simp add: addChild_def isfull_def)
  then show ?thesis
    using full sp f(4) wfn_keySelf [OF f(1)] wfn_keySelf [OF f(2)]
    by (simp add: m_def list_update_append nth_append split: prod.splits)
qed

lemma descend_full:
  assumes IH: "\<And>n fr. wfn h n \<Longrightarrow> sorted (map fst (leaves n)) \<Longrightarrow> \<not> isfull n \<Longrightarrow> k \<le> max_key n \<Longrightarrow>
      \<exists>fr' n'. descend k a fr (place (\<lambda>x. x < k) n) n = Some (fr', n') \<and> inserted k a h fr fr' n n'"
    and wfn: "wfn (Suc h) (Inner i nx (A @ (kc, c) # B))" and nf: "\<not> isfull (Inner i nx (A @ (kc, c) # B))"
    and full: "isfull c" and srt: "sorted (map fst (leaves c))" and le: "k \<le> max_key c"
    and A: "\<And>x. x \<in> set (concat (map (\<lambda>e. leaves (snd e)) A)) \<Longrightarrow> fst x < k"
  shows "\<exists>fr' n'. descend k a fr (length A) (Inner i nx (A @ (kc, c) # B)) = Some (fr', n') \<and>
     inserted k a (Suc h) fr fr' (Inner i nx (A @ (kc, c) # B)) n'"
proof -
  let ?lt = "\<lambda>x. x < k" and ?n = "Inner i nx (A @ (kc, c) # B)"
  obtain c1 br where sp: "split_node fr c = (c1, br)" by fastforce
  have c: "wfn h c" using wfn by simp
  note f = split_node_facts [OF sp c full] and m = split_child [OF sp full wfn nf]
    and desc = descend_split_eq [OF sp full wfn nf]
  let ?m = "\<lambda>c1' br'. Inner i nx (A @ (max_key c1, c1') # (max_key br, br') # B)"
  have fin: "inserted k a (Suc h) fr fr' ?n (?m c1' br')"
    if "inserted k a (Suc h) (Suc fr) fr' (?m c1 br) (?m c1' br')"
      "nid c1' = nid c1" "nxt c1' = nxt c1" "nid br' = nid br" "nxt br' = nxt br" for fr' c1' br'
    using inserted_split [OF that(1) m(2-6)] that(2-5) by simp
  have srt': "sorted (map fst (leaves c1))" "sorted (map fst (leaves br))"
    using srt f(3) by (simp_all add: sorted_append)
  note pl = place_less [OF f(1) initial_less [OF srt'(1)], of k, unfolded place_split [OF sp full] f(4)]
  have mk: "max_key br = max_key c" using f(3) wfn_leaves [OF f(2)] by (simp add: max_key_def)
  show ?thesis
  proof (cases "place ?lt c \<ge> 16")
    case ge: True
    obtain fr' br' where d: "descend k a (Suc fr) (place ?lt br) br = Some (fr', br')" "inserted k a h (Suc fr) fr' br br'"
      using IH [OF f(2) srt'(2)] f(5) le mk by (force simp: isfull_def tree_consts)
    have "fst x < k" if "x \<in> set (concat (map (\<lambda>e. leaves (snd e)) (A @ [(max_key c1, c1)])))" for x
      using that A [of x] max_key_below [OF f(1) initial_less [OF srt'(1)], of k x] pl ge by auto
    then have "inserted k a (Suc h) (Suc fr) fr' (?m c1 br) (?m c1 br')"
      using inserted_child [OF d(2), of i nx "A @ [(max_key c1, c1)]" "max_key br" B] m(1) le mk by simp
    then show ?thesis using desc ge d fin [of fr' c1 br'] by (auto simp: inserted_def [of _ _ _ _ _ br])
  next
    case less: False
    obtain fr' c1' where d: "descend k a (Suc fr) (place ?lt c1) c1 = Some (fr', c1')" "inserted k a h (Suc fr) fr' c1 c1'"
      using IH [OF f(1) srt'(1)] f(4) pl less by (force simp: isfull_def tree_consts)
    then have "inserted k a (Suc h) (Suc fr) fr' (?m c1 br) (?m c1' br)"
      using inserted_child [OF d(2), of i nx A "max_key c1" "(max_key br, br) # B"] m(1) A pl less by simp
    then show ?thesis using desc less d fin [of fr' c1' br] place_split [OF sp full, of ?lt]
      by (auto simp: inserted_def [of _ _ _ _ _ c1])
  qed
qed

lemma descend_inserts:
  assumes "wfn h n" "sorted (map fst (leaves n))" "\<not> isfull n" "k \<le> max_key n"
  shows "\<exists>fr' n'. descend k a fr (place (\<lambda>x. x < k) n) n = Some (fr', n') \<and> inserted k a h fr fr' n n'"
  using assms
proof (induction h arbitrary: n fr)
  case 0
  then show ?case using descend_Level1 by blast
next
  case (Suc h)
  then obtain i nx cs where n: "n = Inner i nx cs" by (cases n) auto
  let ?lt = "\<lambda>x. x < k"
  have ini: "initial ?lt (leaves (Inner i nx cs))" using Suc.prems(2) n initial_less by blast
  have wfn: "wfn (Suc h) (Inner i nx cs)" and le: "\<not> max_key (Inner i nx cs) < k"
    using Suc.prems n by auto
  obtain A kc c B where s: "cs = A @ (kc, c) # B" "length A = findplace ?lt cs" "wfn h c" "kc = max_key c"
    "initial ?lt (leaves c)" "\<not> max_key c < k"
    "\<And>x. x \<in> set (concat (map (\<lambda>e. leaves (snd e)) A)) \<Longrightarrow> fst x < k"
    using visited_child [OF wfn ini le] by metis
  have srt: "sorted (map fst (leaves c))" using Suc.prems(2) n s(1) by (simp add: sorted_append)
  have cpos: "place ?lt n = length A" using n s(2) by simp
  show ?case
  proof (cases "isfull c")
    case False
    obtain fr' c' where d: "descend k a fr (place ?lt c) c = Some (fr', c')" "inserted k a h fr fr' c c'"
      using Suc.IH [OF s(3) srt False] s(6) by force
    have "inserted k a (Suc h) fr fr' n (Inner i nx (A @ (kc, c') # B))"
      using inserted_child [OF d(2), of i nx A kc B] wfn s n by simp
    moreover have "descend k a fr (place ?lt n) n = Some (fr', Inner i nx (A @ (kc, c') # B))"
      unfolding cpos using d(1) False by (simp add: n s(1))
    ultimately show ?thesis by blast
  next
    case True
    from descend_full [OF Suc.IH _ _ True srt _ s(7), where i = i and nx = nx and kc = kc and B = B and fr = fr] show ?thesis
      using wfn Suc.prems(3) s(6) unfolding cpos unfolding n s(1) by (simp add: not_less)
  qed
qed

lemma grown_hd: "grown fr fr' xs ys \<Longrightarrow> xs \<noteq> [] \<Longrightarrow> fst (hd ys) = fst (hd xs)"
  unfolding grown_def by (elim disjE exE conjE) (auto simp: hd_append split: if_splits)




lemma rootfill_inserted:
  assumes "inserted k a h fr fr' n n'" "wfn h n" "rootfill n"
  shows "rootfill n'"
proof (cases n')
  case (Inner i nx cs)
  then have "\<not> hasleaves n" using assms wfn_hasleaves [of h n] wfn_hasleaves [of h n'] by (auto simp: inserted_def)
  moreover from this have "2 \<le> children n" using assms(3) by (cases n) auto
  ultimately have "2 \<le> length cs" using assms(1) Inner by (simp add: inserted_def)
  moreover have "fill 0 n'" using assms(1) rootfill_fill [OF assms(3) \<open>\<not> hasleaves n\<close>, of 0] by (simp add: inserted_def)
  ultimately show ?thesis using Inner by (cases "length cs = 1") simp_all
qed simp

lemma sentinel_ins_at:
  assumes "xs \<noteq> []" "last xs = (sentinel, 0)" "k < sentinel"
  shows "ins_at (\<lambda>e. fst e < k) (k, a) xs = ins_at (\<lambda>e. fst e < k) (k, a) (butlast xs) @ [(sentinel, 0)]"
proof -
  have "xs = butlast xs @ [(sentinel, 0)]" using assms by (metis append_butlast_last_id)
  moreover have "ins_at (\<lambda>e. fst e < k) (k, a) (ys @ [(sentinel, 0)]) =
      ins_at (\<lambda>e. fst e < k) (k, a) ys @ [(sentinel, 0)]" for ys
    using assms(3) by (induction ys) (auto simp: ins_at_def)
  ultimately show ?thesis by metis
qed

lemma set_ins_at: "set (ins_at P x xs) = insert x (set xs)"
  by (induction xs) (auto simp: ins_at_def)

text \<open>The insertion below the root keeps the invariant.\<close>

lemma tree_inv_inserted:
  assumes inv: "tree_inv t" and ins: "inserted k a (hgt t - 1) (fresh t) fr' (root t) n'" and k: "k < sentinel"
  shows "tree_inv (t\<lparr>root := n', fresh := fr'\<rparr>)"
    and "entries (t\<lparr>root := n', fresh := fr'\<rparr>) = ins_at (\<lambda>e. fst e < k) (k, a) (entries t)"
proof -
  note i = inv [unfolded tree_inv_def]
  let ?ins = "ins_at (\<lambda>e. fst e < k) (k, a)"
  have lv: "leaves n' = ?ins (entries t) @ [(sentinel, 0)]"
    using i k sentinel_ins_at [of "leaves (root t)" k a] ins by (simp add: inserted_def entries_def)
  have "wfn (hgt t - 1) n'" using ins by (simp add: inserted_def)
  moreover have "sorted (map fst (leaves n'))" using i ins sorted_ins_at by (auto simp: inserted_def)
  moreover have ms: "mset (ids n') = mset (ids (root t)) + mset [fresh t..<fr']" "fresh t \<le> fr'"
    using ins by (simp_all add: inserted_def)
  have "distinct (ids n')" "\<forall>i\<in>set (ids n'). i < fr'"
  proof -
    have "mset (ids n') = mset (ids (root t) @ [fresh t..<fr'])" using ms by simp
    moreover have "distinct (ids (root t) @ [fresh t..<fr'])" using i by auto
    ultimately show "distinct (ids n')" using mset_eq_imp_distinct_iff by blast
    show "\<forall>i\<in>set (ids n'). i < fr'"
      using mset_eq_setD [OF \<open>mset (ids n') = mset (ids (root t) @ [fresh t..<fr'])\<close>] i ms(2) by auto
  qed
  moreover have "linked_levels n'" using i ins linked_grown unfolding linked_levels_def inserted_def by blast
  moreover have "first t = fst (hd (skel (hgt t - 1) n'))"
    using i ins grown_hd [of "fresh t" fr' "skel (hgt t - 1) (root t)" "skel (hgt t - 1) n'"]
      skel_nonempty [of "hgt t - 1" "root t" "hgt t - 1"] unfolding inserted_def by auto
  moreover have "rootfill n'" using rootfill_inserted [OF ins] i by blast
  moreover have "\<forall>e\<in>set (?ins (entries t)). fst e < sentinel" using i k by (auto simp: set_ins_at entries_def)
  ultimately show "tree_inv (t\<lparr>root := n', fresh := fr'\<rparr>)"
    using i lv \<open>wfn (hgt t - 1) n'\<close> by (simp add: tree_inv_def)
  show "entries (t\<lparr>root := n', fresh := fr'\<rparr>) = ?ins (entries t)" using lv by (simp add: entries_def)
qed

text \<open>Splitting a full root.\<close>

lemma split_root:
  assumes inv: "tree_inv t" and full: "isfull (root t)" and sp: "split_node (fresh t) (root t) = (n1, br)"
  defines "t' \<equiv> t\<lparr>root := Inner (fresh t + 1) None [(max_key n1, n1), (max_key br, br)], hgt := Suc (hgt t),
     fresh := fresh t + 2\<rparr>"
  shows "tree_inv t'" "entries t' = entries t" "\<not> isfull (root t')"
    "pushroot (fresh t + 1) n1 br t = Some (t'\<lparr>fresh := fresh t\<rparr>)"
proof -
  note i = inv [unfolded tree_inv_def]
  then have wfn: "wfn (hgt t - 1) (root t)" by blast
  note f = split_node_facts [OF sp wfn full]
  have fill: "\<exists>x. fill x (root t)"
  proof (cases "root t")
    case (Level1 i nx es)
    then show ?thesis using full by (auto simp: isfull_def tree_consts intro: exI [of _ 0])
  qed (use i in \<open>auto intro: rootfill_fill\<close>)
  have nx: "nxt (root t) = None" using i by (auto simp: linked_levels_def dest: spec [of _ 0])
  have "linked (skel d (root t'))" for d
  proof (cases d)
    case (Suc d')
    show ?thesis
    proof (cases d')
      case (Suc d'')
      have "linked (skel (Suc d'') n1 @ skel (Suc d'') br)"
        using i f(11) [of d''] unfolding linked_levels_def by (metis (no_types))
      then show ?thesis using Suc \<open>d = Suc d'\<close> by (simp add: t'_def)
    qed (use Suc nx f(6-9) in \<open>simp add: t'_def\<close>)
  qed (simp add: t'_def)
  then have "linked_levels (root t')" by (simp add: linked_levels_def)
  moreover have "distinct (ids (root t'))" "\<forall>i\<in>set (ids (root t')). i < fresh t'"
  proof -
    have ms: "mset (ids (root t')) = mset ((fresh t + 1) # fresh t # ids (root t))"
      using f(10) by (simp add: t'_def)
    moreover have "distinct ((fresh t + 1) # fresh t # ids (root t))" using i by force
    ultimately show "distinct (ids (root t'))" using mset_eq_imp_distinct_iff by blast
    show "\<forall>i\<in>set (ids (root t')). i < fresh t'"
      using mset_eq_setD [OF ms] i by (auto simp: t'_def)
  qed
  moreover have lv: "leaves (root t') = leaves (root t)" using f(3) by (simp add: t'_def)
  moreover have "wfn (hgt t' - 1) (root t')" using f(1,2) i by (cases "hgt t") (auto simp: t'_def tree_consts)
  moreover have "rootfill (root t')" using f(12,13) fill by (auto simp: t'_def)
  moreover have "first t' = fst (hd (skel (hgt t' - 1) (root t')))"
  proof (cases "hgt t - 1")
    case 0
    then have "hgt t = Suc 0" using i by simp
    then show ?thesis using i f(6) by (simp add: t'_def)
  next
    case (Suc h)
    then have "hgt t = Suc (Suc h)" by simp
    then have "skel (hgt t' - 1) (root t') = skel (hgt t - 1) (root t)"
      using f(11) [of h] by (simp add: t'_def)
    then show ?thesis using i by (simp add: t'_def)
  qed
  ultimately show "tree_inv t'" "entries t' = entries t"
    using i unfolding tree_inv_def entries_def by (simp_all add: t'_def)
  show "\<not> isfull (root t')" by (simp add: isfull_def t'_def tree_consts)
  show "pushroot (fresh t + 1) n1 br t = Some (t'\<lparr>fresh := fresh t\<rparr>)"
    by (simp add: pushroot_def new_root_node_def wfn_keySelf [OF f(1)] wfn_keySelf [OF f(2)] t'_def)
qed

lemma insert_split_root:
  assumes inv: "tree_inv t" and full: "isfull (root t)" and sp: "split_node (fresh t) (root t) = (n1, br)"
    and k: "k < sentinel"
  defines "r \<equiv> Inner (fresh t + 1) None [(max_key n1, n1), (max_key br, br)]"
  defines "t' \<equiv> t\<lparr>root := r, hgt := Suc (hgt t), fresh := fresh t + 2\<rparr>"
  shows "Tree_insert k a t =
     map_option (\<lambda>(fr, m). t'\<lparr>root := m, fresh := fr\<rparr>)
       (descend k a (fresh t') (place (\<lambda>x. x < k) (root t')) (root t'))"
proof -
  note i = inv [unfolded tree_inv_def]
  then have wfn: "wfn (hgt t - 1) (root t)" by blast
  note f = split_node_facts [OF sp wfn full]
  note sr = split_root [OF inv full sp]
  let ?lt = "\<lambda>x. x < k"
  have "initial ?lt (leaves n1)" using i f(3) by (simp add: sorted_append initial_less)
  note pl = place_less [OF f(1) this, unfolded place_split [OF sp full] f(4)]
  have mk: "max_key br = sentinel" using i f(3) wfn_leaves [OF f(2)] by (simp add: max_key_def)
  have nf: "\<not> isfull n1" "\<not> isfull br" using f(4,5) by (simp_all add: isfull_def tree_consts)
  show ?thesis
  proof (cases "max_key n1 < k")
    case True
    then have p: "place ?lt r = 1" "place ?lt (root t) \<ge> children n1"
      using pl k mk f(4) by (auto simp: r_def findplace_def)
    have "descend k a (fresh t + 2) (place ?lt r) r =
        map_option (\<lambda>(fr, m). (fr, set_child 1 m r)) (descend k a (fresh t + 2) (place ?lt br) br)"
      unfolding p using nf by (auto simp: r_def set_child_def split: bind_splits)
    then show ?thesis
      using p full sp sr(4) [folded r_def] by (auto simp: t'_def Tree_insert_def Let_def split: bind_splits)
  next
    case False
    then have p: "place ?lt r = 0" "\<not> place ?lt (root t) \<ge> children n1" "place ?lt n1 = place ?lt (root t)"
      using pl k mk f(4) place_split [OF sp full, of ?lt] by (auto simp: r_def findplace_def)
    have "descend k a (fresh t + 2) (place ?lt r) r =
        map_option (\<lambda>(fr, m). (fr, set_child 0 m r)) (descend k a (fresh t + 2) (place ?lt n1) n1)"
      unfolding p(1) using nf by (auto simp: r_def set_child_def split: bind_splits)
    then show ?thesis
      using p full sp sr(4) [folded r_def] by (auto simp: t'_def Tree_insert_def Let_def split: bind_splits)
  qed
qed

lemma Tree_insert_correct:
  assumes inv: "tree_inv t" and k: "k < sentinel"
  shows "\<exists>t'. Tree_insert k a t = Some t' \<and> tree_inv t' \<and>
     entries t' = ins_at (\<lambda>e. fst e < k) (k, a) (entries t)"
proof -
  have step: "\<exists>fr n. descend k a (fresh u) (place (\<lambda>x. x < k) (root u)) (root u) = Some (fr, n) \<and>
       tree_inv (u\<lparr>root := n, fresh := fr\<rparr>) \<and>
       entries (u\<lparr>root := n, fresh := fr\<rparr>) = ins_at (\<lambda>e. fst e < k) (k, a) (entries u)"
    if u: "tree_inv u" "\<not> isfull (root u)" for u
  proof -
    have "k \<le> max_key (root u)" using u(1) k by (auto simp: tree_inv_def max_key_def)
    then obtain fr n where "descend k a (fresh u) (place (\<lambda>x. x < k) (root u)) (root u) = Some (fr, n)"
      "inserted k a (hgt u - 1) (fresh u) fr (root u) n"
      using descend_inserts [of "hgt u - 1" "root u" k a "fresh u"] u by (auto simp: tree_inv_def)
    then show ?thesis using tree_inv_inserted [OF u(1) _ k] by blast
  qed
  show ?thesis
  proof (cases "isfull (root t)")
    case True
    obtain n1 br where sp: "split_node (fresh t) (root t) = (n1, br)" by fastforce
    note sr = split_root [OF inv True sp]
    show ?thesis
      unfolding insert_split_root [OF inv True sp k] using step [OF sr(1,3)] unfolding sr(2)
      by (elim exE conjE) (simp only: option.map prod.case, blast)
  next
    case False
    then show ?thesis using step [OF inv False] by (auto simp: Tree_insert_def Let_def)
  qed
qed

end
