(* ===== verification/MetaTreeSearch.thy ===== *)
theory MetaTreeSearch
  imports MetaTreeInsert
begin

text \<open>
  Search in the metadata tree and iteration along the \<open>next\<close> pointers: \<open>lowerBound\<close>
  followed by \<open>LeafIter::next\<close> visits exactly the entries that are not below the searched
  key, in order, and \<open>extractAll\<close> returns all entries equal to it.
\<close>

subsection \<open>Nodes and levels\<close>

lemma concat_map_concat: "concat (map g (concat (map f xs))) = concat (map (\<lambda>x. concat (map g (f x))) xs)"
  by (induction xs) auto

lemma level_subset: "set (level d n) \<subseteq> set (nodes n)"
proof (induction d n rule: level.induct)
  case (1 n)
  then show ?case by (cases n) auto
qed auto

lemma length_level: "length (level d n) \<le> length (nodes n)"
proof (induction d n rule: level.induct)
  case (1 n)
  then show ?case by (cases n) auto
next
  case (3 d i nx cs)
  then have "sum_list (map (\<lambda>e. length (level d (snd e))) cs) \<le> sum_list (map (\<lambda>e. length (nodes (snd e))) cs)"
    by (intro sum_list_mono) auto
  then show ?case by (simp add: length_concat comp_def)
qed auto

lemma level_wfn: "wfn h n \<Longrightarrow> d \<le> h \<Longrightarrow> m \<in> set (level d n) \<Longrightarrow> wfn (h - d) m"
proof (induction d n arbitrary: h rule: level.induct)
  case (3 d i nx cs)
  then obtain h' where h: "h = Suc h'" by (cases h) auto
  from 3(4) obtain e where "e \<in> set cs" "m \<in> set (level d (snd e))" by auto
  with 3(1) [of e h'] 3(2,3) h show ?case by auto
qed auto

lemma level_leaves: "wfn h n \<Longrightarrow> concat (map leaves (level h n)) = leaves n"
proof (induction h n rule: wfn.induct)
  case (3 h i nx cs)
  then have "map (\<lambda>e. concat (map leaves (level h (snd e)))) cs = map (\<lambda>e. leaves (snd e)) cs" by auto
  then show ?case by (simp only: level.simps leaves.simps concat_map_concat)
qed auto

lemma get_node_member:
  assumes "distinct (ids r)" "m \<in> set (nodes r)"
  shows "get_node r (nid m) = Some m"
proof -
  have "find (\<lambda>n. nid n = nid m) ns = Some m" if "distinct (map nid ns)" "m \<in> set ns" for ns
    using that by (induction ns) auto
  with assms show ?thesis by (simp add: get_node_def ids_def)
qed

lemma linked_next: "linked (xs @ x # ys) \<Longrightarrow> snd x = (case ys of [] \<Rightarrow> None | y # _ \<Rightarrow> Some (fst y))"
proof (induction xs rule: linked.induct)
  case 1
  then show ?case by (cases x; cases ys) auto
next
  case (2 i nx)
  then show ?case by (cases x; cases ys) auto
qed auto

lemma level_next:
  assumes "linked_levels r" "level d r = X @ m # Y"
  shows "nxt m = (case Y of [] \<Rightarrow> None | y # _ \<Rightarrow> Some (nid y))"
proof -
  have "linked (skel d r)" using assms(1) by (simp add: linked_levels_def)
  with assms(2) linked_next [of "map (\<lambda>m. (nid m, nxt m)) X" "(nid m, nxt m)" "map (\<lambda>m. (nid m, nxt m)) Y"]
  show ?thesis by (simp add: skel_def split: list.splits)
qed

subsection \<open>Iteration\<close>

lemma leaf_seq_level:
  assumes "wfn h r" "distinct (ids r)" "linked_levels r"
  shows "level h r = X @ m # Y \<Longrightarrow> length Y < f \<Longrightarrow>
    leaf_seq f r (Some (nid m)) pos = drop pos (leaves m) @ concat (map leaves Y)"
proof (induction Y arbitrary: X m f pos)
  case Nil
  then obtain f' where f: "f = Suc f'" by (cases f) auto
  have m: "m \<in> set (level h r)" using Nil by simp
  then have "wfn 0 m" using level_wfn [OF assms(1), of h m] by simp
  then obtain i nx es where "m = Level1 i nx es" by (cases m) auto
  moreover have "get_node r (nid m) = Some m" using m level_subset get_node_member [OF assms(2)] by blast
  moreover have "nxt m = None" using level_next [OF assms(3) Nil(1)] by simp
  ultimately show ?case using f by (cases f') auto
next
  case (Cons y Y)
  then obtain f' where f: "f = Suc f'" by (cases f) auto
  have m: "m \<in> set (level h r)" using Cons.prems by simp
  then have "wfn 0 m" using level_wfn [OF assms(1), of h m] by simp
  then obtain i nx es where "m = Level1 i nx es" by (cases m) auto
  moreover have "get_node r (nid m) = Some m" using m level_subset get_node_member [OF assms(2)] by blast
  moreover have "nxt m = Some (nid y)" using level_next [OF assms(3) Cons.prems(1)] by simp
  ultimately show ?case using f Cons.IH [of "X @ [m]" y f' 0] Cons.prems by auto
qed

lemma lowerBound_level:
  assumes "wfn h n" "initial lt (leaves n)" "\<not> lt (max_key n)"
  shows "\<exists>X m Y p. level h n = X @ m # Y \<and> lowerBound lt n = Some (nid m, p) \<and> p < length (leaves m) \<and>
    drop p (leaves m) @ concat (map leaves Y) = dropWhile (\<lambda>e. lt (fst e)) (leaves n)"
  using assms
proof (induction h arbitrary: n)
  case 0
  then obtain i nx es where n: "n = Level1 i nx es" by (cases n) auto
  have "findplace lt es < length es" using place_less [OF 0(1,2)] 0(3) n by simp
  moreover have "drop (findplace lt es) es = dropWhile (\<lambda>e. lt (fst e)) es"
    by (simp add: findplace_def dropWhile_eq_drop)
  ultimately show ?case using n by (auto simp: Let_def intro!: exI [of _ "[]"])
next
  case (Suc h)
  then obtain i nx cs where n: "n = Inner i nx cs" by (cases n) auto
  obtain A kc c B where s: "cs = A @ (kc, c) # B" "length A = findplace lt cs" "wfn h c"
    "initial lt (leaves c)" "\<not> lt (max_key c)"
    "\<And>x. x \<in> set (concat (map (\<lambda>e. leaves (snd e)) A)) \<Longrightarrow> lt (fst x)"
    using visited_child [of h i nx cs lt] Suc.prems n by metis
  obtain X m Y p where ih: "level h c = X @ m # Y" "lowerBound lt c = Some (nid m, p)" "p < length (leaves m)"
    "drop p (leaves m) @ concat (map leaves Y) = dropWhile (\<lambda>e. lt (fst e)) (leaves c)"
    using Suc.IH [OF s(3-5)] by blast
  let ?lev = "\<lambda>cs. concat (map (\<lambda>e. level h (snd e)) cs)"
  have B: "concat (map leaves (?lev B)) = concat (map (\<lambda>e. leaves (snd e)) B)"
  proof -
    have "map (\<lambda>e. concat (map leaves (level h (snd e)))) B = map (\<lambda>e. leaves (snd e)) B"
      using Suc.prems(1) n s(1) level_leaves by auto
    then show ?thesis by (simp only: concat_map_concat)
  qed
  have "\<exists>x\<in>set (leaves c). \<not> lt (fst x)" using max_key_in [OF s(3)] s(5) by force
  then have "dropWhile (\<lambda>e. lt (fst e)) (leaves n) =
      dropWhile (\<lambda>e. lt (fst e)) (leaves c) @ concat (map (\<lambda>e. leaves (snd e)) B)"
    unfolding n s(1) leaves_append by (intro ins_at_middle(2)) (use s(6) in auto)
  moreover have "lowerBound lt n = Some (nid m, p)"
    using n ih(2) s(2) [symmetric] by (simp add: Let_def s(1))
  moreover have "level (Suc h) n = (?lev A @ X) @ m # (Y @ ?lev B)" using n s(1) ih(1) by simp
  ultimately show ?case using ih(3,4) B
    by (intro exI [of _ "?lev A @ X"] exI [of _ m] exI [of _ "Y @ ?lev B"] exI [of _ p]) simp
qed

lemma lowerBound_none:
  assumes "wfn h n" "initial lt (leaves n)" "lt (max_key n)"
  shows "lowerBound lt n = None"
proof -
  have "findplace lt xs \<le> length xs" for xs :: "(Key \<times> 'c) list" by (simp add: findplace_def length_takeWhile_le)
  then show ?thesis using assms place_less [OF assms(1,2)] by (cases n) (auto simp: Let_def order_le_less)
qed

lemma iterate_lowerBound:
  assumes inv: "tree_inv t" and ini: "initial lt (leaves (root t))" and nlt: "\<not> lt sentinel"
  shows "\<exists>it k. lowerBound lt (root t) = Some it \<and> getkey (root t) it = Some k \<and>
     iterate_from t it = dropWhile (\<lambda>e. lt (fst e)) (leaves (root t)) \<and>
     k = fst (hd (dropWhile (\<lambda>e. lt (fst e)) (leaves (root t)))) \<and>
     dropWhile (\<lambda>e. lt (fst e)) (leaves (root t)) \<noteq> []"
proof -
  note i = inv [unfolded tree_inv_def]
  then have wfn: "wfn (hgt t - 1) (root t)" and dist: "distinct (ids (root t))" and li: "linked_levels (root t)"
    and "\<not> lt (max_key (root t))" using nlt by (auto simp: max_key_def)
  then obtain X m Y p where lb: "level (hgt t - 1) (root t) = X @ m # Y" "lowerBound lt (root t) = Some (nid m, p)"
    "p < length (leaves m)" "drop p (leaves m) @ concat (map leaves Y) = dropWhile (\<lambda>e. lt (fst e)) (leaves (root t))"
    using lowerBound_level [OF wfn ini] by blast
  have m: "m \<in> set (level (hgt t - 1) (root t))" using lb(1) by simp
  then have "wfn 0 m" using level_wfn [OF wfn, of "hgt t - 1" m] by simp
  then obtain j nx es where "m = Level1 j nx es" by (cases m) auto
  moreover have "get_node (root t) (nid m) = Some m" using m level_subset get_node_member [OF dist] by blast
  ultimately have "getkey (root t) (nid m, p) = Some (fst (hd (drop p (leaves m))))"
    using lb(3) by (simp add: getkey_def hd_drop_conv_nth)
  moreover have "hd (dropWhile (\<lambda>e. lt (fst e)) (leaves (root t))) = hd (drop p (leaves m))"
    "dropWhile (\<lambda>e. lt (fst e)) (leaves (root t)) \<noteq> []"
    using lb(3) unfolding lb(4) [symmetric] by auto
  moreover have "length Y < length (nodes (root t))"
    using length_level [of "hgt t - 1" "root t"] lb(1) by simp
  ultimately show ?thesis
    using lb(2,4) leaf_seq_level [OF wfn dist li lb(1), of "length (nodes (root t))" p]
    by (simp add: iterate_from_def del: dropWhile_eq_Nil_conv)
qed

lemma lowerBound_sentinel: "tree_inv t \<Longrightarrow> initial lt (leaves (root t)) \<Longrightarrow> lt sentinel \<Longrightarrow> lowerBound lt (root t) = None"
  by (rule lowerBound_none [where h = "hgt t - 1"]) (auto simp: tree_inv_def max_key_def)

lemma extractAll_leaves:
  assumes inv: "tree_inv t" and ini: "initial lt (leaves (root t))" and nlt: "\<not> lt sentinel"
  shows "extractAll lt eq t =
    map snd (takeWhile (\<lambda>e. eq (fst e)) (dropWhile (\<lambda>e. lt (fst e)) (leaves (root t))))"
proof -
  obtain it where it: "lowerBound lt (root t) = Some it"
    "getkey (root t) it = Some (fst (hd (dropWhile (\<lambda>e. lt (fst e)) (leaves (root t)))))"
    "iterate_from t it = dropWhile (\<lambda>e. lt (fst e)) (leaves (root t))"
    "dropWhile (\<lambda>e. lt (fst e)) (leaves (root t)) \<noteq> []"
    using iterate_lowerBound [OF assms] by blast
  then show ?thesis
    by (cases "dropWhile (\<lambda>e. lt (fst e)) (leaves (root t))") (auto simp: extractAll_def findLeaf_def)
qed

text \<open>
  The comparison \<open>lt\<close> and the equality \<open>eq\<close> of a search agree with the order of the keys in
  the tree: the keys below come first, the equal ones next.
\<close>

definition search_ok :: "(Key \<Rightarrow> bool) \<Rightarrow> (Key \<Rightarrow> bool) \<Rightarrow> (Key \<times> 'c) list \<Rightarrow> bool" where
  "search_ok lt eq xs \<longleftrightarrow>
     initial lt xs \<and> initial (\<lambda>k. lt k \<or> eq k) xs \<and> (\<forall>e\<in>set xs. eq (fst e) \<longrightarrow> \<not> lt (fst e))"

lemma search_filter:
  assumes "search_ok lt eq xs"
  shows "takeWhile (\<lambda>e. eq (fst e)) (dropWhile (\<lambda>e. lt (fst e)) xs) = filter (\<lambda>e. eq (fst e)) xs"
  using assms
proof (induction xs)
  case (Cons x xs)
  then have so: "search_ok lt eq xs" by (auto simp: search_ok_def initial_def)
  show ?case
  proof (cases "lt (fst x)")
    case False
    then have "\<forall>y\<in>set xs. \<not> lt (fst y)" using Cons.prems by (auto simp: search_ok_def initial_def)
    then have d: "dropWhile (\<lambda>e. lt (fst e)) xs = xs" by (cases xs) auto
    show ?thesis
    proof (cases "eq (fst x)")
      case True
      then show ?thesis using False d Cons.IH [OF so] by simp
    next
      case F: False
      then have "\<forall>y\<in>set xs. \<not> eq (fst y)" using Cons.prems False by (auto simp: search_ok_def initial_def)
      then have "filter (\<lambda>e. eq (fst e)) xs = []" by simp
      then show ?thesis using F False by simp
    qed
  qed (use Cons so in \<open>auto simp: search_ok_def\<close>)
qed simp

lemma search_ok_append: "search_ok lt eq (xs @ ys) \<longleftrightarrow> search_ok lt eq xs \<and> search_ok lt eq ys \<and>
    (\<forall>x\<in>set xs. \<forall>y\<in>set ys. (lt (fst y) \<longrightarrow> lt (fst x)) \<and> (lt (fst y) \<or> eq (fst y) \<longrightarrow> lt (fst x) \<or> eq (fst x)))"
  by (auto simp: search_ok_def initial_append)

lemma extractAll_entries:
  assumes inv: "tree_inv t" and ok: "search_ok lt eq (entries t)" and s: "\<not> lt sentinel" "\<not> eq sentinel"
  shows "extractAll lt eq t = map snd (filter (\<lambda>e. eq (fst e)) (entries t))"
proof -
  have "search_ok lt eq (leaves (root t))"
    unfolding entries_leaves [OF inv] search_ok_append using ok s by (auto simp: search_ok_def initial_def)
  then show ?thesis
    using extractAll_leaves [OF inv, of lt eq] search_filter [of lt eq "leaves (root t)"] s
    by (simp add: search_ok_def entries_leaves [OF inv])
qed

end
