(* ===== verification/MetaTreeFrames.thy ===== *)
theory MetaTreeFrames
  imports MetaTreeSearch
begin

text \<open>
  Positions in the tree.  A node is described by the inner nodes around it (frames); the
  descent, \<open>shift_path\<close> and the scan of \<open>Tree::del\<close> move such positions, replacing a node
  and resetting keys act on them.
\<close>

subsection \<open>A node and its surroundings\<close>

text \<open>
  A frame is an inner node without one of its children: address, \<open>next\<close> pointer, children to
  the left, key of the missing child, children to the right.  The frames around a node are
  listed from the innermost one on.
\<close>

type_synonym frame = "nat \<times> nat option \<times> (Key \<times> node) list \<times> Key \<times> (Key \<times> node) list"

fun plug :: "frame list \<Rightarrow> node \<Rightarrow> node" where
  "plug [] n = n"
| "plug ((i, nx, A, k, B) # fs) n = plug fs (Inner i nx (A @ (k, n) # B))"

fun fpath :: "frame list \<Rightarrow> (nat \<times> nat) list" where
  "fpath [] = []"
| "fpath ((i, nx, A, k, B) # fs) = (i, length A) # fpath fs"

fun kids :: "node \<Rightarrow> node list" where
  "kids (Level1 i nx es) = []"
| "kids (Inner i nx cs) = map snd cs"

text \<open>The nodes of the same level to the left and to the right.\<close>

fun lefts :: "frame list \<Rightarrow> node list" where
  "lefts [] = []"
| "lefts ((i, nx, A, k, B) # fs) = concat (map kids (lefts fs)) @ map snd A"

fun rights :: "frame list \<Rightarrow> node list" where
  "rights [] = []"
| "rights ((i, nx, A, k, B) # fs) = map snd B @ concat (map kids (rights fs))"

lemma level_Suc: "level (Suc d) n = concat (map kids (level d n))"
proof (induction d n rule: level.induct)
  case (1 n)
  have "concat (map (\<lambda>e. [snd e]) cs) = map snd cs" for cs :: "(Key \<times> node) list" by (induction cs) auto
  then show ?case by (cases n) auto
next
  case (3 d i nx cs)
  then have "map (\<lambda>e. level (Suc d) (snd e)) cs = map (\<lambda>e. concat (map kids (level d (snd e)))) cs" by auto
  then show ?case by (simp only: level.simps concat_map_concat)
qed simp

lemma level_plug: "level (length fs) (plug fs n) = lefts fs @ n # rights fs"
  by (induction fs n rule: plug.induct) (simp_all add: level_Suc del: level.simps(3))

lemma plug_nodes: "n \<in> set (nodes (plug fs n))"
  using level_subset [of "length fs" "plug fs n"] by (simp add: level_plug)

lemma get_node_plug: "distinct (ids (plug fs n)) \<Longrightarrow> get_node (plug fs n) (nid n) = Some n"
  using get_node_member plug_nodes by blast

lemma nxt_plug: "linked_levels (plug fs n) \<Longrightarrow> nxt n = (case rights fs of [] \<Rightarrow> None | y # _ \<Rightarrow> Some (nid y))"
  using level_next [OF _ level_plug] .


lemma wfn_plug_node: "wfn (h + length fs) (plug fs n) \<Longrightarrow> wfn h n"
  using level_wfn [of "h + length fs" "plug fs n" "length fs" n] by (simp add: level_plug)

lemma wfn_plug_leaf:
  assumes "wfn (length fs) (plug fs n)"
  shows "\<exists>i nx es. n = Level1 i nx es \<and> es \<noteq> []"
  using wfn_plug_node [of 0 fs n] assms by (cases n) auto

lemma plug_leaf_leaves:
  assumes "wfn (length fs) (plug fs n)"
  shows "leaves (plug fs n) = concat (map leaves (lefts fs)) @ leaves n @ concat (map leaves (rights fs))"
  using level_leaves [OF assms] by (simp add: level_plug)

lemma shift_path_next:
  assumes "wfn (h + length fs) (plug fs n)" "distinct (ids (plug fs n))" "linked_levels (plug fs n)"
    and "rights fs = c # Y"
  shows "\<exists>fs'. shift_path (plug fs n) (fpath fs) = Some (fpath fs') \<and> plug fs' c = plug fs n \<and>
    lefts fs' = lefts fs @ [n] \<and> rights fs' = Y \<and> length fs' = length fs"
  using assms
proof (induction fs n arbitrary: h c Y rule: plug.induct)
  case (2 i nx A k B fs n)
  let ?m = "Inner i nx (A @ (k, n) # B)" and ?r = "plug ((i, nx, A, k, B) # fs) n"
  have get: "get_node ?r i = Some ?m" using get_node_plug [of fs ?m] 2(3) by simp
  show ?case
  proof (cases B)
    case (Cons b B')
    then obtain k' where b: "b = (k', c)" using 2(5) by (cases b) auto
    show ?thesis
      using get Cons b 2(5) by (intro exI [of _ "(i, nx, A @ [(k, n)], k', B') # fs"]) auto
  next
    case Nil
    have wfnm: "wfn (Suc h + length fs) (plug fs ?m)" using 2(2) by simp
    obtain m' Y' where rs: "rights fs = m' # Y'" using 2(5) Nil by (cases "rights fs") auto
    then have "m' \<in> set (level (length fs) (plug fs ?m))" by (simp add: level_plug)
    then have "wfn (Suc h) m'" using level_wfn [OF wfnm, of "length fs" m'] by simp
    then obtain j nx' k' c' B' where m': "m' = Inner j nx' ((k', c') # B')"
      by (cases "(Suc h, m')" rule: wfn.cases) (auto simp: neq_Nil_conv)
    then have c: "c = c'" "Y = map snd B' @ concat (map kids Y')" using 2(5) Nil rs by auto
    obtain fs' where fs': "shift_path ?r (fpath fs) = Some (fpath fs')" "plug fs' m' = ?r"
      "lefts fs' = lefts fs @ [?m]" "rights fs' = Y'" "length fs' = length fs"
      using 2(1) [OF wfnm _ _ rs] 2(3,4) by auto
    have "nxt ?m = Some j" using nxt_plug [of fs ?m] 2(4) rs m' by simp
    then show ?thesis
      using get Nil fs' m' c by (intro exI [of _ "(j, nx', [], k', B') # fs'"]) auto
  qed
qed simp

subsection \<open>The search of a deletion\<close>

lemma plug_append: "plug (fs @ [(i, nx, A, k, B)]) n = Inner i nx (A @ (k, plug fs n) # B)"
  by (induction fs n rule: plug.induct) auto

lemma fpath_append: "fpath (fs @ [(i, nx, A, k, B)]) = fpath fs @ [(i, length A)]"
  by (induction fs rule: fpath.induct) auto

lemma rights_append:
  "rights (fs @ [(i, nx, A, k, B)]) = rights fs @ concat (map (\<lambda>e. level (length fs) (snd e)) B)"
proof (induction fs rule: rights.induct)
  case 1
  show ?case by (induction B) auto
next
  case (2 j ny A' k' B' fs)
  then show ?case by (simp add: level_Suc concat_map_concat del: level.simps(3))
qed

lemma del_path_frames:
  assumes "wfn h n" "initial (\<lambda>x. x < mkey) (leaves n)" "mkey \<le> max_key n"
  shows "\<exists>fs m p. del_path mkey n = Some (rev (fpath fs), nid m, p) \<and> plug fs m = n \<and> length fs = h \<and>
    p < length (leaves m) \<and>
    drop p (leaves m) @ concat (map leaves (rights fs)) = dropWhile (\<lambda>e. fst e < mkey) (leaves n)"
  using assms
proof (induction h arbitrary: n)
  case 0
  then obtain i nx es where n: "n = Level1 i nx es" by (cases n) auto
  have "findplace (\<lambda>x. x < mkey) es < length es" using place_less [OF 0(1,2)] 0(3) n by simp
  moreover have "drop (findplace (\<lambda>x. x < mkey) es) es = dropWhile (\<lambda>e. fst e < mkey) es"
    by (simp add: findplace_def dropWhile_eq_drop)
  ultimately show ?case using n by (auto intro!: exI [of _ "[]"])
next
  case (Suc h)
  let ?lt = "\<lambda>x. x < mkey"
  from Suc obtain i nx cs where n: "n = Inner i nx cs" by (cases n) auto
  have w: "wfn (Suc h) (Inner i nx cs)" "initial ?lt (leaves (Inner i nx cs))" "\<not> max_key (Inner i nx cs) < mkey"
    using Suc.prems n by auto
  obtain A kc c B where s: "cs = A @ (kc, c) # B" "length A = findplace ?lt cs" "wfn h c"
    "initial ?lt (leaves c)" "\<not> max_key c < mkey"
    "\<And>x. x \<in> set (concat (map (\<lambda>e. leaves (snd e)) A)) \<Longrightarrow> fst x < mkey"
    using visited_child [OF w] by metis
  obtain fs m p where ih: "del_path mkey c = Some (rev (fpath fs), nid m, p)" "plug fs m = c" "length fs = h"
    "p < length (leaves m)"
    "drop p (leaves m) @ concat (map leaves (rights fs)) = dropWhile (\<lambda>e. fst e < mkey) (leaves c)"
    using Suc.IH [OF s(3,4)] s(5) by (auto simp: not_less)
  let ?fs = "fs @ [(i, nx, A, kc, B)]"
  have pl: "plug ?fs m = n" using plug_append ih(2) n s(1) by simp
  have "\<exists>x\<in>set (leaves c). \<not> fst x < mkey" using max_key_in [OF s(3)] s(5) by force
  then have dw: "dropWhile (\<lambda>e. fst e < mkey) (leaves n) =
      dropWhile (\<lambda>e. fst e < mkey) (leaves c) @ concat (map (\<lambda>e. leaves (snd e)) B)"
    unfolding n s(1) leaves_append by (intro ins_at_middle(2)) (use s(6) in auto)
  have "map (\<lambda>e. concat (map leaves (level h (snd e)))) B = map (\<lambda>e. leaves (snd e)) B"
    using w(1) s(1) level_leaves by auto
  then have "concat (map leaves (rights ?fs)) = concat (map leaves (rights fs)) @ concat (map (\<lambda>e. leaves (snd e)) B)"
    by (simp only: rights_append ih(3) map_append concat_append concat_map_concat)
  moreover have "del_path mkey n = Some (rev (fpath ?fs), nid m, p)"
    unfolding fpath_append using ih(1) s(2) [symmetric] n by (simp add: Let_def s(1))
  ultimately show ?case using pl ih(3-5) dw
    by (intro exI [of _ ?fs] exI [of _ m] exI [of _ p]) (simp add: append_assoc [symmetric] del: append_assoc)
qed

lemma del_find_frames:
  assumes "wfn (length fs) (plug fs m)" "distinct (ids (plug fs m))" "linked_levels (plug fs m)"
    and "drop pos (leaves m) @ concat (map leaves (rights fs)) = S @ x # T" "pos < length (leaves m)"
    and "\<And>s. s \<in> set S \<Longrightarrow> fst s = mkey \<and> \<not> match (snd s)" "length S < f"
  shows "(fst x \<noteq> mkey \<longrightarrow> del_find f (plug fs m) mkey match (fpath fs) (nid m) pos = Some None) \<and>
    (fst x = mkey \<and> match (snd x) \<longrightarrow>
      (\<exists>fs' m' pos'. del_find f (plug fs m) mkey match (fpath fs) (nid m) pos = Some (Some (fpath fs', nid m', pos')) \<and>
        plug fs' m' = plug fs m \<and> length fs' = length fs \<and> pos' < length (leaves m') \<and>
        drop pos' (leaves m') @ concat (map leaves (rights fs')) = x # T))"
  using assms
proof (induction S arbitrary: fs m pos f)
  case Nil
  obtain i nx es where m: "m = Level1 i nx es" "es \<noteq> []" using wfn_plug_leaf Nil(1) by blast
  obtain f' where f: "f = Suc f'" using Nil(7) by (cases f) auto
  have get: "get_node (plug fs m) i = Some m" using get_node_plug [OF Nil(2)] m by simp
  have "es ! pos = x" using Nil(4,5) m by (simp add: Cons_nth_drop_Suc [symmetric])
  then show ?case using get m f Nil(4,5)
    by (auto intro!: exI [of _ fs] exI [of _ m] exI [of _ pos])
next
  case (Cons s S)
  obtain i nx es where m: "m = Level1 i nx es" "es \<noteq> []" using wfn_plug_leaf Cons.prems(1) by blast
  obtain f' where f: "f = Suc f'" using Cons.prems(7) by (cases f) auto
  have get: "get_node (plug fs m) i = Some m" using get_node_plug [OF Cons.prems(2)] m by simp
  have d: "drop pos es = s # drop (Suc pos) es" and s: "es ! pos = s"
    using Cons.prems(4,5) m by (simp_all add: Cons_nth_drop_Suc [symmetric])
  have sp: "fst s = mkey" "\<not> match (snd s)" using Cons.prems(6) [of s] by auto
  have rest: "drop (Suc pos) es @ concat (map leaves (rights fs)) = S @ x # T" using Cons.prems(4) m d by simp
  show ?case
  proof (cases "Suc pos = length es")
    case False
    then show ?thesis
      using get m f s sp Cons.prems rest Cons.IH [of fs m "Suc pos" f'] by auto
  next
    case True
    then obtain c Y where rs: "rights fs = c # Y" using rest by (cases "rights fs") auto
    obtain fs' where fs': "shift_path (plug fs m) (fpath fs) = Some (fpath fs')" "plug fs' c = plug fs m"
      "lefts fs' = lefts fs @ [m]" "rights fs' = Y" "length fs' = length fs"
      using shift_path_next [of 0 fs m c Y] Cons.prems(1-3) rs by auto
    have nx: "nx = Some (nid c)" using nxt_plug [OF Cons.prems(3)] m rs by simp
    have "leaves c \<noteq> []" using wfn_plug_leaf [of fs' c] Cons.prems(1) fs'(2,5) by auto
    then show ?thesis
      using get m f s sp True nx fs' Cons.prems rest rs Cons.IH [of fs' c 0 f'] by auto
  qed
qed

subsection \<open>Replacing a node\<close>

lemma repl_absent: "i \<notin> set (ids n) \<Longrightarrow> repl i m n = n"
proof (induction i m n rule: repl.induct)
  case (2 i m j nx cs)
  then have "map (\<lambda>e. (fst e, repl i m (snd e))) cs = map (\<lambda>e. e) cs" by (intro map_cong) auto
  with 2 show ?case by simp
qed auto

lemma nid_in_ids: "nid n \<in> set (ids n)"
  by (cases n) auto

lemma nid_plug: "nid n \<in> set (ids (plug fs n))"
  using plug_nodes [of n fs] by (auto simp: ids_def)

lemma repl_plug: "distinct (ids (plug fs n)) \<Longrightarrow> repl (nid n) m (plug fs n) = plug fs m"
proof (induction fs rule: rev_induct)
  case Nil
  then show ?case by (cases n) auto
next
  case (snoc f fs)
  obtain i nx A k B where f: "f = (i, nx, A, k, B)" by (cases f)
  have d: "distinct (i # concat (map (\<lambda>e. ids (snd e)) A) @ ids (plug fs n) @ concat (map (\<lambda>e. ids (snd e)) B))"
    using snoc.prems by (simp add: f plug_append)
  then have ne: "nid n \<noteq> i" "repl (nid n) m (plug fs n) = plug fs m" using nid_plug [of n fs] snoc.IH by auto
  have "repl (nid n) m (snd e) = snd e" if "e \<in> set A \<union> set B" for e
    by (rule repl_absent) (use that d nid_plug [of n fs] in auto)
  then have "map (\<lambda>e. (fst e, repl (nid n) m (snd e))) A = map (\<lambda>e. e) A"
    "map (\<lambda>e. (fst e, repl (nid n) m (snd e))) B = map (\<lambda>e. e) B" by (simp_all cong: map_cong)
  then show ?case using ne by (simp add: f plug_append)
qed

text \<open>Trees that differ only in the keys of inner nodes.\<close>

definition same_but_keys :: "node \<Rightarrow> node \<Rightarrow> bool" where
  "same_but_keys n n' \<longleftrightarrow> leaves n' = leaves n \<and> ids n' = ids n \<and> (\<forall>d. skel d n' = skel d n) \<and>
     (\<forall>c. fill c n' = fill c n) \<and> rootfill n' = rootfill n"

definition fshape :: "frame list \<Rightarrow> (nat \<times> nat option \<times> (Key \<times> node) list \<times> (Key \<times> node) list) list" where
  "fshape fs = map (\<lambda>(i, nx, A, k, B). (i, nx, A, B)) fs"

lemma fshape_Cons:
  assumes "fshape fs' = fshape ((i, nx, A, k, B) # fs)"
  shows "\<exists>k' gs. fs' = (i, nx, A, k', B) # gs \<and> fshape gs = fshape fs"
  using assms by (cases fs') (auto simp: fshape_def)

lemma same_but_keys_frame:
  assumes "same_but_keys n n'"
  shows "same_but_keys (Inner i nx (A @ (k, n) # B)) (Inner i nx (A @ (k', n') # B))"
proof -
  have "skel d (Inner i nx (A @ (k', n') # B)) = skel d (Inner i nx (A @ (k, n) # B))" for d
    using assms by (cases d) (auto simp: same_but_keys_def)
  then show ?thesis using assms by (auto simp: same_but_keys_def)
qed

lemma same_but_keys_plug: "same_but_keys n n' \<Longrightarrow> fshape fs' = fshape fs \<Longrightarrow> same_but_keys (plug fs n) (plug fs' n')"
proof (induction fs n arbitrary: fs' n' rule: plug.induct)
  case (2 i nx A k B fs n)
  then obtain k' gs where "fs' = (i, nx, A, k', B) # gs" "fshape gs = fshape fs"
    using fshape_Cons by blast
  then show ?case using 2 same_but_keys_frame by simp
qed (simp add: fshape_def)

lemma same_but_keys_refl [simp]: "same_but_keys n n"
  by (simp add: same_but_keys_def)

lemma fpath_shape: "fshape fs' = fshape fs \<Longrightarrow> fpath fs' = fpath fs"
proof (induction fs arbitrary: fs' rule: fpath.induct)
  case (2 i nx A k B fs)
  then obtain k' gs where g: "fs' = (i, nx, A, k', B) # gs" "fshape gs = fshape fs"
    using fshape_Cons by blast
  from 2(1) [OF g(2)] show ?case by (simp add: g(1))
qed (simp add: fshape_def)

lemma fshape_length: "fshape fs' = fshape fs \<Longrightarrow> length fs' = length fs"
  by (metis fshape_def length_map)

subsection \<open>Keys on the path\<close>

text \<open>The frames are well formed around a node of height \<open>h\<close> with largest key \<open>mk\<close>.\<close>

fun fok :: "nat \<Rightarrow> frame list \<Rightarrow> Key \<Rightarrow> bool" where
  "fok h [] mk = True"
| "fok h ((i, nx, A, k, B) # fs) mk =
     (length A + length B < NKEY \<and> (\<forall>e\<in>set A \<union> set B. wfn h (snd e) \<and> fst e = max_key (snd e)) \<and> k = mk \<and>
      fok (Suc h) fs (if B = [] then mk else fst (last B)))"

lemma wfn_plug: "wfn (h + length fs) (plug fs n) \<longleftrightarrow> wfn h n \<and> fok h fs (max_key n)"
proof (induction fs n arbitrary: h rule: plug.induct)
  case (2 i nx A k B fs n)
  let ?m = "Inner i nx (A @ (k, n) # B)"
  have w: "wfn (Suc h) ?m \<longleftrightarrow> length A + length B < NKEY \<and> wfn h n \<and> k = max_key n \<and>
      (\<forall>e\<in>set A \<union> set B. wfn h (snd e) \<and> fst e = max_key (snd e))" by auto
  have mk: "max_key ?m = (if B = [] then k else fst (last B))" if "wfn (Suc h) ?m"
    using max_key_Inner [OF that] by simp
  have "wfn (h + length ((i, nx, A, k, B) # fs)) (plug ((i, nx, A, k, B) # fs) n) \<longleftrightarrow>
      wfn (Suc h) ?m \<and> fok (Suc h) fs (max_key ?m)" using 2 [of "Suc h"] by simp
  also have "\<dots> \<longleftrightarrow> wfn h n \<and> fok h ((i, nx, A, k, B) # fs) (max_key n)"
  proof (cases "wfn (Suc h) ?m")
    case True
    then have "length A + length B < NKEY" "wfn h n" "k = max_key n"
      "\<forall>e\<in>set A \<union> set B. wfn h (snd e) \<and> fst e = max_key (snd e)" using w by blast+
    then show ?thesis unfolding mk [OF True] fok.simps using True by blast
  next
    case False
    then show ?thesis using w unfolding fok.simps by blast
  qed
  finally show ?case .
qed simp

lemma fok_plug: "wfn (length fs) (plug fs n) \<longleftrightarrow> wfn 0 n \<and> fok 0 fs (max_key n)"
  using wfn_plug [of 0 fs n] by simp

lemma reset_keys_plug:
  assumes "fok h fs mk" "wfn h n" "distinct (ids (plug fs n))"
  shows "\<exists>fs'. reset_keys (plug fs n) (fpath fs) = Some (plug fs' n) \<and> fok h fs' (max_key n) \<and> fshape fs' = fshape fs"
  using assms
proof (induction fs arbitrary: n h mk)
  case Nil
  then show ?case by (auto intro: exI [of _ "[]"])
next
  case (Cons f fs)
  obtain i nx A k B where f: "f = (i, nx, A, k, B)" by (cases f)
  note 2 = Cons [unfolded f]
  let ?m = "Inner i nx (A @ (k, n) # B)" and ?m' = "Inner i nx (A @ (max_key n, n) # B)"
  have get: "get_node (plug fs ?m) i = Some ?m" and rep: "repl i ?m' (plug fs ?m) = plug fs ?m'"
    using get_node_plug [of fs ?m] repl_plug [of fs ?m ?m'] 2(4) by auto
  have rk: "resetKey (length A) ?m = Some ?m'" using wfn_keySelf [OF 2(3)] by (simp add: resetKey_def)
  have w: "wfn (Suc h) ?m'" using 2(2,3) by auto
  then have mk: "max_key ?m' = (if B = [] then max_key n else fst (last B))" using max_key_Inner [OF w] by auto
  have "same_but_keys (plug fs ?m) (plug fs ?m')"
    by (intro same_but_keys_plug same_but_keys_frame) simp_all
  then have dist: "distinct (ids (plug fs ?m'))" using 2(4) by (simp add: same_but_keys_def)
  show ?case
  proof (cases "B = []")
    case False
    then show ?thesis using get rep rk 2(2)
      by (intro exI [of _ "(i, nx, A, max_key n, B) # fs"]) (auto simp: f fshape_def)
  next
    case True
    have "fok (Suc h) fs mk" using 2(2) True by simp
    then obtain fs' where fs': "reset_keys (plug fs ?m') (fpath fs) = Some (plug fs' ?m')"
      "fok (Suc h) fs' (max_key ?m')" "fshape fs' = fshape fs"
      using 2(1) [of "Suc h" mk ?m'] w dist by blast
    then have "reset_keys (plug (f # fs) n) (fpath (f # fs)) = Some (plug ((i, nx, A, max_key n, B) # fs') n)"
      using get rep rk True by (simp add: f)
    moreover have "fok h ((i, nx, A, max_key n, B) # fs') (max_key n)" using 2(2) True mk fs'(2) by simp
    moreover have "fshape ((i, nx, A, max_key n, B) # fs') = fshape (f # fs)" using fs'(3) by (simp add: f fshape_def)
    ultimately show ?thesis by blast
  qed
qed


lemma leaf_skel: "skel d (Level1 i nx es) = skel d (Level1 i nx es')"
  by (cases d) auto

lemma skel_plug_eq:
  assumes "\<And>d. skel d n' = skel d n"
  shows "skel d (plug fs n') = skel d (plug fs n)"
  using assms
proof (induction fs n arbitrary: n' d rule: plug.induct)
  case (2 i nx A k B fs n)
  have "skel d (Inner i nx (A @ (k, n') # B)) = skel d (Inner i nx (A @ (k, n) # B))" for d
    using 2(2) by (cases d) (simp_all)
  then show ?case unfolding plug.simps by (rule 2(1))
qed simp

lemma ids_plug_eq: "ids n' = ids n \<Longrightarrow> ids (plug fs n') = ids (plug fs n)"
proof (induction fs n arbitrary: n' rule: plug.induct)
  case (2 i nx A k B fs n)
  then have "ids (Inner i nx (A @ (k, n') # B)) = ids (Inner i nx (A @ (k, n) # B))" by simp
  then show ?case unfolding plug.simps by (rule 2(1))
qed simp

text \<open>Removing an entry and resetting the keys above it.\<close>

lemma remove_entry_plug:
  assumes m: "m = Level1 i nx es" and pos: "pos < length es" and len: "2 \<le> length es"
    and wfn: "wfn (length fs) (plug fs m)" and dist: "distinct (ids (plug fs m))"
  defines "m' \<equiv> Level1 i nx (take pos es @ drop (Suc pos) es)"
  shows "remove_entry pos m = Some (snd (es ! pos), m')"
    and "\<exists>fs'. (if pos = children m' then reset_keys (plug fs m') (fpath fs) else Some (plug fs m')) = Some (plug fs' m') \<and>
      wfn (length fs) (plug fs' m') \<and> fshape fs' = fshape fs \<and> ids (plug fs' m') = ids (plug fs m) \<and>
      (\<forall>d. skel d (plug fs' m') = skel d (plug fs m))"
proof -
  show "remove_entry pos m = Some (snd (es ! pos), m')"
    using m pos len by (simp add: remove_entry_def closeHole_def m'_def)
  have w: "wfn 0 m" "fok 0 fs (max_key m)" using wfn fok_plug by blast+
  have ne: "take pos es @ drop (Suc pos) es \<noteq> []" using pos len by (cases pos) auto
  then have w': "wfn 0 m'" using w m pos by (auto simp: m'_def)
  have sm: "ids (plug fs m') = ids (plug fs m)" "skel d (plug fs m') = skel d (plug fs m)" for d
    using ids_plug_eq [of m' m fs] skel_plug_eq [of m' m d fs] leaf_skel by (auto simp: m m'_def)
  have fin: "ids (plug fs' m') = ids (plug fs m) \<and> (\<forall>d. skel d (plug fs' m') = skel d (plug fs m))"
    if "fshape fs' = fshape fs" for fs'
    using same_but_keys_plug [OF same_but_keys_refl that, of m'] sm by (simp add: same_but_keys_def)
  show "\<exists>fs'. (if pos = children m' then reset_keys (plug fs m') (fpath fs) else Some (plug fs m')) = Some (plug fs' m') \<and>
      wfn (length fs) (plug fs' m') \<and> fshape fs' = fshape fs \<and> ids (plug fs' m') = ids (plug fs m) \<and>
      (\<forall>d. skel d (plug fs' m') = skel d (plug fs m))"
  proof (cases "pos = children m'")
    case True
    obtain fs' where fs': "reset_keys (plug fs m') (fpath fs) = Some (plug fs' m')" "fok 0 fs' (max_key m')" "fshape fs' = fshape fs"
      using reset_keys_plug [OF w(2) w'] dist sm(1) by auto
    then have "wfn (length fs) (plug fs' m')" using w' fok_plug [of fs' m'] fshape_length [OF fs'(3)] by metis
    with True fs'(1,3) fin [OF fs'(3)] show ?thesis by (intro exI [of _ fs'] conjI) simp_all
  next
    case False
    then have "last (take pos es @ drop (Suc pos) es) = last es" using pos by (auto simp: m'_def)
    then have "max_key m' = max_key m" by (simp add: max_key_def m m'_def)
    then have "wfn (length fs) (plug fs m')" using w w' fok_plug by simp
    with False fin [OF refl] show ?thesis by (intro exI [of _ fs] conjI) simp_all
  qed
qed

lemma leaves_plug_change:
  assumes "wfn (length fs) (plug fs m)" "wfn (length fs) (plug fs' m')" "fshape fs' = fshape fs"
    "leaves m' = P @ T"
  shows "leaves (plug fs' m') = concat (map leaves (lefts fs)) @ P @ T @ concat (map leaves (rights fs))"
proof -
  have r: "lefts fs' = lefts fs \<and> rights fs' = rights fs" using assms(3)
  proof (induction fs arbitrary: fs' rule: lefts.induct)
    case (2 i nx A k B fs)
    then obtain k' gs where g: "fs' = (i, nx, A, k', B) # gs" "fshape gs = fshape fs"
      using fshape_Cons by blast
    from 2(1) [OF g(2)] show ?case by (simp add: g(1))
  qed (simp add: fshape_def)
  then show ?thesis
    using plug_leaf_leaves [of fs' m'] assms fshape_length [OF assms(3)] by simp
qed

end
