(* ===== verification/MetaTreeMerge.thy ===== *)
theory MetaTreeMerge
  imports MetaTreeFrames
begin

text \<open>
  Merging a node with a neighbour and moving children between neighbours keep the shape,
  the entries and the links of the tree.
\<close>

subsection \<open>Merging and balancing neighbours\<close>

text \<open>The children of an inner node satisfy the fill condition of nodes with siblings.\<close>

fun kidfill :: "node \<Rightarrow> bool" where
  "kidfill (Level1 i nx es) = True"
| "kidfill (Inner i nx cs) = (\<forall>e\<in>set cs. fill 0 (snd e))"

definition joined :: "nat \<Rightarrow> node \<Rightarrow> node \<Rightarrow> node \<Rightarrow> bool" where
  "joined h l r m \<longleftrightarrow>
     wfn h m \<and> leaves m = leaves l @ leaves r \<and> nid m = nid l \<and> nxt m = nxt r \<and>
     mset (ids m) + {#nid r#} = mset (ids l) + mset (ids r) \<and>
     (\<forall>d. skel (Suc d) m = skel (Suc d) l @ skel (Suc d) r) \<and>
     children m = children l + children r \<and> (kidfill l \<and> kidfill r \<longrightarrow> kidfill m) \<and> hasleaves m = hasleaves r"

definition resplit :: "nat \<Rightarrow> node \<Rightarrow> node \<Rightarrow> node \<Rightarrow> node \<Rightarrow> bool" where
  "resplit h l r l' r' \<longleftrightarrow>
     wfn h l' \<and> wfn h r' \<and> leaves l' @ leaves r' = leaves l @ leaves r \<and>
     nid l' = nid l \<and> nxt l' = nxt l \<and> nid r' = nid r \<and> nxt r' = nxt r \<and>
     mset (ids l') + mset (ids r') = mset (ids l) + mset (ids r) \<and>
     (\<forall>d. skel (Suc d) l' @ skel (Suc d) r' = skel (Suc d) l @ skel (Suc d) r) \<and>
     (kidfill l \<and> kidfill r \<longrightarrow> kidfill l' \<and> kidfill r') \<and> hasleaves l' = hasleaves r \<and> hasleaves r' = hasleaves r"

lemma absorb_joined:
  assumes "wfn h l" "wfn h r" "children l + children r \<le> NKEY"
  shows "\<exists>m. absorb r l = Some m \<and> joined h l r m"
proof (cases h)
  case 0
  then obtain i nx es j ny es' where "l = Level1 i nx es" "r = Level1 j ny es'" using assms by (cases l; cases r) auto
  then show ?thesis using assms 0 by (auto simp: joined_def)
next
  case (Suc h')
  then obtain i nx cs j ny cs' where "l = Inner i nx cs" "r = Inner j ny cs'" using assms by (cases l; cases r) auto
  then show ?thesis using assms Suc by (auto simp: joined_def)
qed

lemma resplit_Level1:
  assumes "es1 @ es2 = les @ es" "es1 \<noteq> []" "es2 \<noteq> []" "length es1 \<le> NKEY" "length es2 \<le> NKEY"
  shows "resplit 0 (Level1 li lnx les) (Level1 i nx es) (Level1 li lnx es1) (Level1 i nx es2)"
  using assms by (simp add: resplit_def)

lemma resplit_Inner:
  assumes "cs1 @ cs2 = lcs @ cs" "cs1 \<noteq> []" "cs2 \<noteq> []" "length cs1 \<le> NKEY" "length cs2 \<le> NKEY"
    and "wfn (Suc h) (Inner li lnx lcs)" "wfn (Suc h) (Inner i nx cs)"
  shows "resplit (Suc h) (Inner li lnx lcs) (Inner i nx cs) (Inner li lnx cs1) (Inner i nx cs2)"
proof -
  have s: "set cs1 \<union> set cs2 = set lcs \<union> set cs" using arg_cong [OF assms(1), of set] by simp
  have c: "concat (map f cs1) @ concat (map f cs2) = concat (map f lcs) @ concat (map f cs)"
    for f :: "Key \<times> node \<Rightarrow> 'z list"
    using arg_cong [OF assms(1), of "\<lambda>x. concat (map f x)"] by simp
  have k: "\<forall>e\<in>set lcs \<union> set cs. wfn h (snd e) \<and> fst e = max_key (snd e)" using assms(6,7) by auto
  then have w: "wfn (Suc h) (Inner li lnx cs1)" "wfn (Suc h) (Inner i nx cs2)"
    using assms(2-5) unfolding s [symmetric] by simp_all
  let ?l = "Inner li lnx lcs" and ?r = "Inner i nx cs" and ?l' = "Inner li lnx cs1" and ?r' = "Inner i nx cs2"
  have kf: "kidfill ?l \<and> kidfill ?r \<longrightarrow> kidfill ?l' \<and> kidfill ?r'" using s by auto
  have "mset (concat (map (\<lambda>e. ids (snd e)) cs1)) + mset (concat (map (\<lambda>e. ids (snd e)) cs2)) =
      mset (concat (map (\<lambda>e. ids (snd e)) lcs)) + mset (concat (map (\<lambda>e. ids (snd e)) cs))"
    using arg_cong [OF c [of "\<lambda>e. ids (snd e)"], of mset] by simp
  then have id: "mset (ids ?l') + mset (ids ?r') = mset (ids ?l) + mset (ids ?r)" by simp
  have lv: "leaves ?l' @ leaves ?r' = leaves ?l @ leaves ?r" unfolding leaves.simps by (rule c)
  have sk: "\<forall>d. skel (Suc d) ?l' @ skel (Suc d) ?r' = skel (Suc d) ?l @ skel (Suc d) ?r"
    unfolding skel_simps by (intro allI c)
  from w kf id lv sk show ?thesis
    unfolding resplit_def by (simp only: node.sel hasleaves.simps simp_thms)
qed

lemma shiftRight_resplit:
  assumes "wfn h l" "wfn h r" "nm < children l" "nm + children r \<le> NKEY"
  shows "\<exists>l' r'. shiftRight l r nm = Some (l', r') \<and> resplit h l r l' r' \<and>
    children l' = children l - nm \<and> children r' = children r + nm"
proof (cases h)
  case 0
  then obtain i nx es j ny es' where lr: "l = Level1 i nx es" "r = Level1 j ny es'" using assms by (cases l; cases r) auto
  then show ?thesis
    using assms 0 resplit_Level1 [of "take (length es - nm) es" "drop (length es - nm) es @ es'" es es' i nx j ny] by auto
next
  case (Suc h')
  then obtain i nx cs j ny cs' where lr: "l = Inner i nx cs" "r = Inner j ny cs'" using assms by (cases l; cases r) auto
  then have "resplit h l r (Inner i nx (take (length cs - nm) cs)) (Inner j ny (drop (length cs - nm) cs @ cs'))"
    using assms unfolding Suc lr by (intro resplit_Inner) auto
  then show ?thesis using lr assms by auto
qed

lemma shiftLeft_resplit:
  assumes "wfn h l" "wfn h r" "nm < children r" "nm + children l \<le> NKEY"
  shows "\<exists>l' r'. shiftLeft r l nm = Some (l', r') \<and> resplit h l r l' r' \<and>
    children l' = children l + nm \<and> children r' = children r - nm"
proof (cases h)
  case 0
  then obtain i nx es j ny es' where lr: "l = Level1 i nx es" "r = Level1 j ny es'" using assms by (cases l; cases r) auto
  then show ?thesis
    using assms 0 resplit_Level1 [of "es @ take nm es'" "drop nm es'" es es' i nx j ny] by auto
next
  case (Suc h')
  then obtain i nx cs j ny cs' where lr: "l = Inner i nx cs" "r = Inner j ny cs'" using assms by (cases l; cases r) auto
  then have "resplit h l r (Inner i nx (cs @ take nm cs')) (Inner j ny (drop nm cs'))"
    using assms unfolding Suc lr by (intro resplit_Inner) auto
  then show ?thesis using lr assms by auto
qed

text \<open>A level before and after at most one node was merged into its left neighbour.\<close>

definition shrunk :: "(nat \<times> nat option) list \<Rightarrow> (nat \<times> nat option) list \<Rightarrow> bool" where
  "shrunk xs ys \<longleftrightarrow> ys = xs \<or>
     (\<exists>A i mx j nx B. xs = A @ (i, mx) # (j, nx) # B \<and> ys = A @ (i, nx) # B)"

lemma shrunk_refl [simp]: "shrunk xs xs"
  by (simp add: shrunk_def)

lemma shrunk_context:
  assumes "shrunk xs ys"
  shows "shrunk (P @ xs @ S) (P @ ys @ S)"
proof (cases "ys = xs")
  case False
  with assms obtain A i mx j nx B where "xs = A @ (i, mx) # (j, nx) # B" "ys = A @ (i, nx) # B"
    unfolding shrunk_def by blast
  then have "P @ xs @ S = (P @ A) @ (i, mx) # (j, nx) # (B @ S) \<and> P @ ys @ S = (P @ A) @ (i, nx) # (B @ S)" by simp
  then show ?thesis unfolding shrunk_def by (intro disjI2 exI)
qed simp

lemma linked_shrunk:
  assumes "shrunk xs ys" "linked xs"
  shows "linked ys"
proof -
  have "linked (A @ (i, nx) # B)" if "linked (A @ (i, mx) # (j, nx) # B)" for A i mx j nx B
    using that
  proof (induction A rule: linked.induct)
    case 1
    then show ?case by (cases B) auto
  next
    case (2 i' nx')
    then show ?case by (cases B) auto
  qed auto
  with assms show ?thesis unfolding shrunk_def by blast
qed

lemma shrunk_hd: "shrunk xs ys \<Longrightarrow> fst (hd ys) = fst (hd xs)"
  unfolding shrunk_def by (elim disjE exE conjE) (auto simp: hd_append split: if_splits)

definition reshaped :: "nat \<Rightarrow> node \<Rightarrow> node \<Rightarrow> bool" where
  "reshaped h n n' \<longleftrightarrow>
     wfn h n' \<and> leaves n' = leaves n \<and> nid n' = nid n \<and> nxt n' = nxt n \<and>
     mset (ids n') \<subseteq># mset (ids n) \<and> (\<forall>d. shrunk (skel d n) (skel d n'))"

lemma reshaped_frame:
  assumes r: "reshaped h n n'" and w: "wfn (Suc h) (Inner i nx (A @ (k, n) # B))"
  shows "reshaped (Suc h) (Inner i nx (A @ (k, n) # B)) (Inner i nx (A @ (k, n') # B))"
proof -
  have "max_key n' = max_key n" using r by (simp add: reshaped_def max_key_def)
  then have "wfn (Suc h) (Inner i nx (A @ (k, n') # B))" using r w by (auto simp: reshaped_def)
  moreover have "shrunk (skel d (Inner i nx (A @ (k, n) # B))) (skel d (Inner i nx (A @ (k, n') # B)))" for d
  proof (cases d)
    case (Suc d')
    then show ?thesis using r shrunk_context by (simp add: reshaped_def)
  qed simp
  ultimately show ?thesis using r by (simp add: reshaped_def del: wfn.simps)
qed

lemma reshaped_plug:
  assumes "reshaped h n n'" "wfn (h + length fs) (plug fs n)"
  shows "reshaped (h + length fs) (plug fs n) (plug fs n')"
  using assms
proof (induction fs n arbitrary: h n' rule: plug.induct)
  case (2 i nx A k B fs n)
  let ?m = "Inner i nx (A @ (k, n) # B)"
  have w: "wfn (Suc h + length fs) (plug fs ?m)" using 2(3) by simp
  then have "wfn (Suc h) ?m" by (rule wfn_plug_node)
  from 2(1) [OF reshaped_frame [OF 2(2) this] w] show ?case by simp
qed simp

lemma join_children:
  assumes j: "joined h l r m" and w: "wfn (Suc h) (Inner i nx (P @ (k1, l) # (k2, r) # Q))"
  shows "reshaped (Suc h) (Inner i nx (P @ (k1, l) # (k2, r) # Q)) (Inner i nx (P @ (k2, m) # Q))"
proof -
  have "wfn h r" "k2 = max_key r" using w by auto
  then have "max_key m = k2" using j wfn_leaves [of h r] by (simp add: joined_def max_key_def)
  then have w': "wfn (Suc h) (Inner i nx (P @ (k2, m) # Q))" using j w by (auto simp: joined_def)
  have sk: "shrunk (skel d (Inner i nx (P @ (k1, l) # (k2, r) # Q))) (skel d (Inner i nx (P @ (k2, m) # Q)))" for d
  proof (cases d)
    case (Suc d')
    show ?thesis
    proof (cases d')
      case 0
      have "shrunk [(nid l, nxt l), (nid r, nxt r)] [(nid m, nxt m)]"
        unfolding shrunk_def using j by (intro disjI2 exI [of _ "[]"] exI) (auto simp: joined_def)
      from shrunk_context [OF this] show ?thesis using Suc 0 by simp
    next
      case (Suc e)
      have "skel d' m = skel d' l @ skel d' r" using j Suc unfolding joined_def by blast
      then show ?thesis using \<open>d = Suc d'\<close> by simp
    qed
  qed simp
  have "mset (ids m) \<subseteq># mset (ids l) + mset (ids r)"
    using j unfolding joined_def by (metis mset_subset_eq_add_left)
  then have "mset (ids (Inner i nx (P @ (k2, m) # Q))) \<subseteq># mset (ids (Inner i nx (P @ (k1, l) # (k2, r) # Q)))"
    by simp
  moreover have "leaves (Inner i nx (P @ (k2, m) # Q)) = leaves (Inner i nx (P @ (k1, l) # (k2, r) # Q))"
    using j by (simp add: joined_def)
  ultimately show ?thesis using w' sk unfolding reshaped_def node.sel by blast
qed

lemma resplit_children:
  assumes j: "resplit h l r l' r'" and w: "wfn (Suc h) (Inner i nx (P @ (k1, l) # (k2, r) # Q))"
  shows "reshaped (Suc h) (Inner i nx (P @ (k1, l) # (k2, r) # Q)) (Inner i nx (P @ (max_key l', l') # (k2, r') # Q))"
proof -
  have "wfn h r" "k2 = max_key r" "wfn h r'" using w j by (auto simp: resplit_def)
  moreover have "last (leaves l' @ leaves r') = last (leaves l @ leaves r)" using j by (simp add: resplit_def)
  ultimately have "max_key r' = k2" using wfn_leaves by (simp add: max_key_def)
  then have w': "wfn (Suc h) (Inner i nx (P @ (max_key l', l') # (k2, r') # Q))" using j w by (auto simp: resplit_def)
  have sk: "skel d (Inner i nx (P @ (max_key l', l') # (k2, r') # Q)) = skel d (Inner i nx (P @ (k1, l) # (k2, r) # Q))" for d
  proof (cases d)
    case (Suc d')
    show ?thesis
    proof (cases d')
      case 0
      then show ?thesis using j Suc by (simp add: resplit_def)
    next
      case (Suc e)
      have "skel d' l' @ skel d' r' @ xs = skel d' l @ skel d' r @ xs" for xs
        using j Suc unfolding resplit_def append_assoc [symmetric] by metis
      then show ?thesis using \<open>d = Suc d'\<close> by simp
    qed
  qed simp
  have "mset (ids (Inner i nx (P @ (max_key l', l') # (k2, r') # Q))) = mset (ids (Inner i nx (P @ (k1, l) # (k2, r) # Q)))"
    using j by (simp add: resplit_def union_assoc [symmetric])
  moreover have "leaves (Inner i nx (P @ (max_key l', l') # (k2, r') # Q)) = leaves (Inner i nx (P @ (k1, l) # (k2, r) # Q))"
    using j by (simp add: resplit_def append_assoc [symmetric] del: append_assoc)
  ultimately show ?thesis using w' sk unfolding reshaped_def node.sel by (metis shrunk_refl subset_mset.order_refl)
qed

lemma merge_at_pair:
  "merge_at (length P) m (P @ (k1, l) # (k2, r) # Q) = Some (P @ (k2, m) # Q)"
  by (simp add: merge_at_def closeHole_def nth_append)

text \<open>Two adjacent children, one of them the node at the given place.\<close>

definition adjacent :: "(Key \<times> node) list \<Rightarrow> Key \<Rightarrow> node \<Rightarrow> (Key \<times> node) list \<Rightarrow>
    (Key \<times> node) list \<Rightarrow> Key \<Rightarrow> node \<Rightarrow> Key \<Rightarrow> node \<Rightarrow> (Key \<times> node) list \<Rightarrow> bool" where
  "adjacent A k n B P k1 l k2 r Q \<longleftrightarrow>
     (A = P @ [(k1, l)] \<and> k2 = k \<and> r = n \<and> Q = B) \<or> (P = A \<and> k1 = k \<and> l = n \<and> B = (k2, r) # Q)"

lemma adjacent_children: "adjacent A k n B P k1 l k2 r Q \<Longrightarrow> A @ (k, n) # B = P @ (k1, l) # (k2, r) # Q"
  by (auto simp: adjacent_def)

lemma neighbor_left_eq: "neighbor_left (length A) (A @ B) = (if A = [] then None else Some (snd (last A)))"
  by (auto simp: neighbor_left_def nth_append last_conv_nth)

lemma neighbor_right_eq: "neighbor_right (length A) (A @ x # B) = (if B = [] then None else Some (snd (hd B)))"
  by (auto simp: neighbor_right_def nth_append hd_conv_nth)

lemma mergeNeighbor_cases:
  assumes w: "wfn (Suc h) (Inner i nx (A @ (k, n) # B))"
  shows "(\<exists>P k1 l k2 r Q m. adjacent A k n B P k1 l k2 r Q \<and> joined h l r m \<and>
      mergeNeighbor (length A) (Inner i nx (A @ (k, n) # B)) = Some (Some (Inner i nx (P @ (k2, m) # Q)))) \<or>
    (mergeNeighbor (length A) (Inner i nx (A @ (k, n) # B)) = Some None \<and>
      (A \<noteq> [] \<longrightarrow> NKEY \<le> children n + children (snd (last A))) \<and>
      (B \<noteq> [] \<longrightarrow> NKEY \<le> children n + children (snd (hd B))))"
proof -
  let ?cs = "A @ (k, n) # B"
  have wn: "wfn h n" using w by simp
  show ?thesis
  proof (cases "A \<noteq> [] \<and> children n + children (snd (last A)) < NKEY")
    case True
    then obtain P k1 l where A: "A = P @ [(k1, l)]" by (cases A rule: rev_cases) auto
    then have "wfn h l" using w by simp
    then obtain m where m: "absorb n l = Some m" "joined h l n m"
      using absorb_joined [of h l n] wn True A by auto
    have "mergeNeighbor (length A) (Inner i nx ?cs) = Some (Some (Inner i nx (P @ (k, m) # B)))"
      using True A m(1) merge_at_pair [of P m k1 l k n B] neighbor_left_eq [of A "(k, n) # B"]
      by (simp add: mergeNeighbor_def Let_def nth_append)
    moreover have "adjacent A k n B P k1 l k n B" using A by (simp add: adjacent_def)
    ultimately show ?thesis using m(2) by blast
  next
    case left: False
    show ?thesis
    proof (cases "B \<noteq> [] \<and> children n + children (snd (hd B)) < NKEY")
      case True
      then obtain Q k2 r where B: "B = (k2, r) # Q" by (cases B) auto
      then have "wfn h r" using w by simp
      then obtain m where m: "absorb r n = Some m" "joined h n r m"
        using absorb_joined [of h n r] wn True B by auto
      have "mergeNeighbor (length A) (Inner i nx ?cs) = Some (Some (Inner i nx (A @ (k2, m) # Q)))"
        using left True B m(1) merge_at_pair [of A m k n k2 r Q] neighbor_left_eq [of A "(k, n) # B"]
          neighbor_right_eq [of A "(k, n)" B]
        by (auto simp: mergeNeighbor_def Let_def)
      moreover have "adjacent A k n B A k n k2 r Q" using B by (simp add: adjacent_def)
      ultimately show ?thesis using m(2) by blast
    next
      case right: False
      then have "mergeNeighbor (length A) (Inner i nx ?cs) = Some None"
        using left neighbor_left_eq [of A "(k, n) # B"] neighbor_right_eq [of A "(k, n)" B]
        by (auto simp: mergeNeighbor_def Let_def)
      then show ?thesis using left right by auto
    qed
  qed
qed

lemma balanceNeighbor_cases:
  assumes w: "wfn (Suc h) (Inner i nx (A @ (k, n) # B))" and dep: "children n < 16"
  shows "(\<exists>P k1 l k2 r Q l' r'. adjacent A k n B P k1 l k2 r Q \<and> resplit h l r l' r' \<and>
      min 16 (Suc (children n)) \<le> children l' \<and> min 16 (Suc (children n)) \<le> children r' \<and>
      balanceNeighbor (length A) (Inner i nx (A @ (k, n) # B)) = Some (Some (Inner i nx (P @ (max_key l', l') # (k2, r') # Q)))) \<or>
    (balanceNeighbor (length A) (Inner i nx (A @ (k, n) # B)) = Some None \<and>
      (A \<noteq> [] \<longrightarrow> children (snd (last A)) < 18) \<and> (B \<noteq> [] \<longrightarrow> children (snd (hd B)) < 18))"
proof -
  let ?cs = "A @ (k, n) # B"
  let ?cl = "if A = [] then - 1 else int (children (snd (last A)))"
  let ?cr = "if B = [] then - 1 else int (children (snd (hd B)))"
  have wn: "wfn h n" using w by simp
  note nb = neighbor_left_eq [of A "(k, n) # B"] neighbor_right_eq [of A "(k, n)" B]
  show ?thesis
  proof (cases "?cl \<ge> ?cr")
    case True
    show ?thesis
    proof (cases "A \<noteq> [] \<and> children (snd (last A)) \<ge> 18")
      case A: True
      then obtain P k1 l where P: "A = P @ [(k1, l)]" by (cases A rule: rev_cases) auto
      then have l: "wfn h l" "children l \<ge> 18" "children l \<le> 32" using w A wfn_children [of h l] by (auto simp: tree_consts)
      let ?nm = "(children l - 16) div 2"
      have nm: "?nm < children l" "?nm + children n \<le> 32" using l(2,3) dep by linarith+
      obtain l' r' where s: "shiftRight l n ?nm = Some (l', r')" "resplit h l n l' r'"
        "children l' = children l - ?nm" "children r' = children n + ?nm"
        using shiftRight_resplit [OF l(1) wn nm(1)] nm(2) by (auto simp: tree_consts)
      have "keySelf l' = Some (max_key l')" using s(2) wfn_keySelf by (auto simp: resplit_def)
      then have "balanceNeighbor (length A) (Inner i nx ?cs) = Some (Some (Inner i nx (P @ (max_key l', l') # (k, r') # B)))"
        using True P s(1) nb l(2)
        by (cases "B = []") (simp_all add: balanceNeighbor_def Let_def excess_def tree_consts resetKey_def nth_append list_update_append)
      moreover have "adjacent A k n B P k1 l k n B" using P by (simp add: adjacent_def)
      moreover have "min 16 (Suc (children n)) \<le> children l'" "min 16 (Suc (children n)) \<le> children r'"
        using s(3,4) l(2,3) dep by auto
      ultimately show ?thesis using s(2) by blast
    next
      case False
      then have "balanceNeighbor (length A) (Inner i nx ?cs) = Some None"
        using True nb by (auto simp: balanceNeighbor_def Let_def excess_def tree_consts)
      then show ?thesis using False True by (auto split: if_splits)
    qed
  next
    case False
    show ?thesis
    proof (cases "B \<noteq> [] \<and> children (snd (hd B)) \<ge> 18")
      case B: True
      then obtain Q k2 r where Q: "B = (k2, r) # Q" by (cases B) auto
      then have r: "wfn h r" "children r \<ge> 18" "children r \<le> 32" using w B wfn_children [of h r] by (auto simp: tree_consts)
      let ?nm = "(children r - 16) div 2"
      have nm: "?nm < children r" "?nm + children n \<le> 32" using r(2,3) dep by linarith+
      obtain l' r' where s: "shiftLeft r n ?nm = Some (l', r')" "resplit h n r l' r'"
        "children l' = children n + ?nm" "children r' = children r - ?nm"
        using shiftLeft_resplit [OF wn r(1) nm(1)] nm(2) by (auto simp: tree_consts)
      have "keySelf l' = Some (max_key l')" using s(2) wfn_keySelf by (auto simp: resplit_def)
      then have "balanceNeighbor (length A) (Inner i nx ?cs) = Some (Some (Inner i nx (A @ (max_key l', l') # (k2, r') # Q)))"
        using False Q s(1) nb r(2)
        by (cases "A = []") (simp_all add: balanceNeighbor_def Let_def excess_def tree_consts resetKey_def nth_append list_update_append)
      moreover have "adjacent A k n B A k n k2 r Q" using Q by (simp add: adjacent_def)
      moreover have "min 16 (Suc (children n)) \<le> children l'" "min 16 (Suc (children n)) \<le> children r'"
        using s(3,4) r(2,3) dep by auto
      ultimately show ?thesis using s(2) by blast
    next
      case B: False
      then have "balanceNeighbor (length A) (Inner i nx ?cs) = Some None"
        using False nb by (auto simp: balanceNeighbor_def Let_def excess_def tree_consts)
      then show ?thesis using False B by (auto split: if_splits)
    qed
  qed
qed

end
