(* ===== verification/MetaTreeDel.thy ===== *)
theory MetaTreeDel
  imports MetaTreeMerge
begin

text \<open>
  Deletion from the metadata tree.  The fill condition carries the argument that the level-1
  node an entry is removed from never becomes empty: with a height of at most 16 every
  underfull node is merged or balanced in time.
\<close>

subsection \<open>The fill condition\<close>

definition nearly :: "node \<Rightarrow> bool" where
  "nearly n \<longleftrightarrow> kidfill n \<and> (hasleaves n \<longrightarrow> 14 \<le> children n)"

text \<open>One entry below the fill condition.\<close>

definition short :: "int \<Rightarrow> node \<Rightarrow> bool" where
  "short c n \<longleftrightarrow> fill (c - 1) n \<and> (hasleaves n \<or> children n = 1)"

definition rootfill1 :: "node \<Rightarrow> bool" where
  "rootfill1 n \<longleftrightarrow> rootfill n \<or> (\<exists>i nx k c. n = Inner i nx [(k, c)] \<and> rootfill c)"

lemma fill_kidfill: "fill c n \<Longrightarrow> 0 \<le> c \<Longrightarrow> kidfill n"
proof (cases n)
  case (Inner i nx cs)
  assume "fill c n" "0 \<le> c"
  with Inner show ?thesis by (cases "length cs = 1") (auto intro: fill_mono)
qed simp

lemma fill_nearly: "fill 0 n \<Longrightarrow> nearly n"
  using fill_kidfill [of 0 n] by (cases n) (auto simp: nearly_def)

lemma short_nearly: "short 0 n \<Longrightarrow> nearly n"
  by (cases n) (auto simp: nearly_def short_def)

lemma fill_size:
  "kidfill n \<Longrightarrow> (if hasleaves n then 15 + c \<le> int (children n) else 2 \<le> children n) \<Longrightarrow> fill c n"
  by (cases n) auto

lemma rootfill_size: "kidfill n \<Longrightarrow> 2 \<le> children n \<Longrightarrow> rootfill n"
  by (cases n) auto

lemma fill_sizeD: "fill 0 n \<Longrightarrow> kidfill n \<and> (hasleaves n \<longrightarrow> 15 \<le> children n)"
  using fill_kidfill [of 0 n] by (cases n) auto

lemma fill_children: "\<forall>e\<in>set cs. fill 0 (snd e) \<Longrightarrow> 2 \<le> length cs \<Longrightarrow> fill c (Inner i nx cs) \<and> rootfill (Inner i nx cs)"
  by auto

lemma adjacent_fill:
  assumes "adjacent A k n B P k1 l k2 r Q" "nearly n" "\<forall>e\<in>set A \<union> set B. fill 0 (snd e)" "wfn h l" "wfn h r"
  shows "\<forall>e\<in>set P \<union> set Q. fill 0 (snd e)" "kidfill l \<and> kidfill r" "hasleaves r \<Longrightarrow> 29 \<le> children l + children r"
    "2 \<le> children l + children r" "hasleaves r = hasleaves n"
proof -
  have *: "hasleaves l = hasleaves r" using assms(4,5) wfn_hasleaves by blast
  then show "hasleaves r = hasleaves n" using assms(1) by (auto simp: adjacent_def)
  have "nearly l \<and> fill 0 r \<or> nearly r \<and> fill 0 l" using assms(1-3) by (auto simp: adjacent_def)
  then have "kidfill l \<and> kidfill r \<and> (hasleaves r \<longrightarrow> 29 \<le> children l + children r)"
    using * fill_sizeD [of l] fill_sizeD [of r] by (auto simp: nearly_def)
  then show "kidfill l \<and> kidfill r" "hasleaves r \<Longrightarrow> 29 \<le> children l + children r" by auto
  show "\<forall>e\<in>set P \<union> set Q. fill 0 (snd e)" using assms(1,3) by (auto simp: adjacent_def)
  show "2 \<le> children l + children r" using wfn_children [OF assms(4)] wfn_children [OF assms(5)] by simp
qed

lemma join_fill:
  assumes adj: "adjacent A k n B P k1 l k2 r Q" and j: "joined h l r m" and w: "wfn h l" "wfn h r"
    and n: "nearly n" and s: "\<forall>e\<in>set A \<union> set B. fill 0 (snd e)" and c: "c \<le> 13"
  shows "rootfill1 (Inner i nx (P @ (k2, m) # Q)) \<and> fill c (Inner i nx (P @ (k2, m) # Q))"
proof -
  note a = adjacent_fill [OF adj n s w]
  have m: "kidfill m" "children m = children l + children r" "hasleaves m = hasleaves r"
    using j a(2) by (auto simp: joined_def)
  have f: "fill x m" if "x \<le> 14" for x
    using m a(3,4) that by (intro fill_size) auto
  have "rootfill m" using m a(4) by (intro rootfill_size) auto
  show ?thesis
  proof (cases "P = [] \<and> Q = []")
    case True
    then show ?thesis using f [of "c + 1"] c \<open>rootfill m\<close> by (auto simp: rootfill1_def)
  next
    case False
    then have "2 \<le> length (P @ (k2, m) # Q)" by (cases P; cases Q) auto
    moreover have "\<forall>e\<in>set (P @ (k2, m) # Q). fill 0 (snd e)" using a(1) f [of 0] by auto
    ultimately show ?thesis using fill_children unfolding rootfill1_def by blast
  qed
qed

lemma resplit_fill:
  assumes adj: "adjacent A k n B P k1 l k2 r Q" and j: "resplit h l r l' r'" and w: "wfn h l" "wfn h r"
    and n: "nearly n" and s: "\<forall>e\<in>set A \<union> set B. fill 0 (snd e)"
    and size: "min 16 (Suc (children n)) \<le> children l'" "min 16 (Suc (children n)) \<le> children r'"
    and wn: "wfn h n"
  shows "rootfill1 (Inner i nx (P @ (k1', l') # (k2, r') # Q)) \<and> fill c (Inner i nx (P @ (k1', l') # (k2, r') # Q))"
proof -
  note a = adjacent_fill [OF adj n s w]
  have m: "kidfill l'" "kidfill r'" "hasleaves l' = hasleaves n" "hasleaves r' = hasleaves n"
    using j a(2,5) by (auto simp: resplit_def)
  have "0 < children n" using wfn_children [OF wn] by simp
  then have "fill 0 l'" "fill 0 r'" using m size n by (auto intro!: fill_size simp: nearly_def)
  then have "\<forall>e\<in>set (P @ (k1', l') # (k2, r') # Q). fill 0 (snd e)" using a(1) by auto
  moreover have "2 \<le> length (P @ (k1', l') # (k2, r') # Q)" by simp
  ultimately show ?thesis using fill_children unfolding rootfill1_def by blast
qed

lemma merge_or_balance_cases:
  assumes w: "wfn (Suc h) (Inner i nx (A @ (k, n) # B))" and dep: "isdepleted n"
  defines "m \<equiv> Inner i nx (A @ (k, n) # B)"
  shows "(\<exists>m'. merge_or_balance (length A) m = Some (Some m') \<and> reshaped (Suc h) m m' \<and>
      (nearly n \<and> (\<forall>e\<in>set A \<union> set B. fill 0 (snd e)) \<longrightarrow> rootfill1 m' \<and> (\<forall>c\<le>13. fill c m'))) \<or>
    (merge_or_balance (length A) m = Some None \<and> (A = [] \<and> B = [] \<or> 15 \<le> children n))"
proof -
  have dep: "children n < 16" using dep by (simp add: isdepleted_def tree_consts)
  have wn: "wfn h n" using w by simp
  have wlr: "wfn h l \<and> wfn h r" if "adjacent A k n B P k1 l k2 r Q" for P k1 l k2 r Q
    using w adjacent_children [OF that] by simp
  from mergeNeighbor_cases [OF w] show ?thesis
  proof (elim disjE exE conjE)
    fix P k1 l k2 r Q m0
    assume *: "adjacent A k n B P k1 l k2 r Q" "joined h l r m0"
      "mergeNeighbor (length A) (Inner i nx (A @ (k, n) # B)) = Some (Some (Inner i nx (P @ (k2, m0) # Q)))"
    have "reshaped (Suc h) m (Inner i nx (P @ (k2, m0) # Q))"
      using join_children [OF *(2)] w adjacent_children [OF *(1)] by (simp add: m_def del: wfn.simps)
    moreover have "merge_or_balance (length A) m = Some (Some (Inner i nx (P @ (k2, m0) # Q)))"
      using *(3) by (simp add: merge_or_balance_def m_def)
    moreover have "nearly n \<and> (\<forall>e\<in>set A \<union> set B. fill 0 (snd e)) \<longrightarrow>
        rootfill1 (Inner i nx (P @ (k2, m0) # Q)) \<and> (\<forall>c\<le>13. fill c (Inner i nx (P @ (k2, m0) # Q)))"
      using join_fill [OF *(1,2)] wlr [OF *(1)] by blast
    ultimately show ?thesis by blast
  next
    assume none: "mergeNeighbor (length A) (Inner i nx (A @ (k, n) # B)) = Some None"
      "A \<noteq> [] \<longrightarrow> NKEY \<le> children n + children (snd (last A))" "B \<noteq> [] \<longrightarrow> NKEY \<le> children n + children (snd (hd B))"
    have mb: "merge_or_balance (length A) m = balanceNeighbor (length A) m"
      using none(1) by (simp add: merge_or_balance_def m_def)
    from balanceNeighbor_cases [OF w dep] show ?thesis
    proof (elim disjE exE conjE)
      fix P k1 l k2 r Q l' r'
      let ?m' = "Inner i nx (P @ (max_key l', l') # (k2, r') # Q)"
      assume *: "adjacent A k n B P k1 l k2 r Q" "resplit h l r l' r'"
        "min 16 (Suc (children n)) \<le> children l'" "min 16 (Suc (children n)) \<le> children r'"
        "balanceNeighbor (length A) (Inner i nx (A @ (k, n) # B)) = Some (Some ?m')"
      have "reshaped (Suc h) m ?m'"
        using resplit_children [OF *(2)] w adjacent_children [OF *(1)] by (simp add: m_def del: wfn.simps)
      moreover have "merge_or_balance (length A) m = Some (Some ?m')" using *(5) mb by (simp add: m_def)
      moreover have "nearly n \<and> (\<forall>e\<in>set A \<union> set B. fill 0 (snd e)) \<longrightarrow> rootfill1 ?m' \<and> (\<forall>c\<le>13. fill c ?m')"
        using resplit_fill [OF *(1,2) _ _ _ _ *(3,4) wn] wlr [OF *(1)] by blast
      ultimately show ?thesis by blast
    next
      assume "balanceNeighbor (length A) (Inner i nx (A @ (k, n) # B)) = Some None"
        "A \<noteq> [] \<longrightarrow> children (snd (last A)) < 18" "B \<noteq> [] \<longrightarrow> children (snd (hd B)) < 18"
      then show ?thesis using mb none(2,3) by (intro disjI2) (auto simp: m_def tree_consts)
    qed
  qed
qed

fun fctx :: "frame list \<Rightarrow> int" where
  "fctx [] = 0"
| "fctx ((i, nx, A, k, B) # fs) = (if A = [] \<and> B = [] then fctx fs + 1 else 0)"

fun ffill :: "frame list \<Rightarrow> bool" where
  "ffill [] = True"
| "ffill ((i, nx, A, k, B) # fs) = ((\<forall>e\<in>set A \<union> set B. fill 0 (snd e)) \<and> ffill fs)"

text \<open>The root has at least two children.\<close>

definition fbranch :: "frame list \<Rightarrow> bool" where
  "fbranch fs \<longleftrightarrow> fs \<noteq> [] \<longrightarrow> (case last fs of (i, nx, A, k, B) \<Rightarrow> A \<noteq> [] \<or> B \<noteq> [])"

lemma fill_plug: "fill 0 (plug fs n) \<longleftrightarrow> ffill fs \<and> fill (fctx fs) n"
proof (induction fs n rule: plug.induct)
  case (2 i nx A k B fs n)
  have "fill (fctx fs) (Inner i nx (A @ (k, n) # B)) \<longleftrightarrow>
      (\<forall>e\<in>set A \<union> set B. fill 0 (snd e)) \<and> fill (fctx ((i, nx, A, k, B) # fs)) n"
    by (cases "A = [] \<and> B = []") auto
  then show ?case using 2 by auto
qed simp

lemma rootfill_plug: "fs \<noteq> [] \<Longrightarrow> rootfill (plug fs n) \<longleftrightarrow> fbranch fs \<and> ffill fs \<and> fill (fctx fs) n"
proof -
  assume "fs \<noteq> []"
  then obtain gs i nx A k B where fs: "fs = gs @ [(i, nx, A, k, B)]" by (cases fs rule: rev_cases) auto
  have "rootfill (plug fs n) \<longleftrightarrow> fbranch fs \<and> fill 0 (plug fs n)"
    unfolding fs plug_append by (cases "A = [] \<and> B = []") (auto simp: fbranch_def Suc_le_eq)
  then show ?thesis by (simp add: fill_plug)
qed

lemma fctx_bound: "fbranch fs \<Longrightarrow> fs \<noteq> [] \<Longrightarrow> fctx fs < int (length fs)"
proof (induction fs rule: fctx.induct)
  case (2 i nx A k B fs)
  then show ?case by (cases "fs = []") (auto simp: fbranch_def)
qed simp

definition fillstate :: "frame list \<Rightarrow> node \<Rightarrow> bool" where
  "fillstate fs n \<longleftrightarrow> ffill fs \<and>
     (if fs = [] then rootfill n else fill (fctx fs) n \<or> short (fctx fs) n)"

text \<open>Going up when nothing was rearranged.\<close>

lemma fillstate_up:
  assumes st: "fillstate ((i, nx, A, k, B) # fs) n" and br: "fbranch ((i, nx, A, k, B) # fs)"
    and size: "A = [] \<and> B = [] \<or> 15 \<le> children n"
  shows "fillstate fs (Inner i nx (A @ (k, n) # B))"
proof (cases "A = [] \<and> B = []")
  case True
  then have "fs \<noteq> []" using br by (auto simp: fbranch_def)
  then show ?thesis using st True by (auto simp: fillstate_def short_def)
next
  case False
  have "fill 0 n"
    using st False size by (cases n) (auto simp: fillstate_def short_def)
  then have "\<forall>e\<in>set (A @ (k, n) # B). fill 0 (snd e)" using st by (auto simp: fillstate_def)
  moreover have "2 \<le> length (A @ (k, n) # B)" using False by (cases A; cases B) auto
  ultimately show ?thesis using st fill_children by (auto simp: fillstate_def simp del: fill.simps rootfill.simps)
qed

lemma fillstate_nearly:
  assumes "fillstate ((i, nx, A, k, B) # fs) n" "A \<noteq> [] \<or> B \<noteq> []"
  shows "nearly n" "\<forall>e\<in>set A \<union> set B. fill 0 (snd e)"
  using assms fill_nearly short_nearly by (auto simp: fillstate_def split: if_splits)

lemma rebalance_plug:
  assumes "wfn (h + length fs) (plug fs n)" "distinct (ids (plug fs n))" "fbranch fs" "fillstate fs n" "length fs \<le> 15"
  shows "\<exists>r' b dd. rebalance (plug fs n) (fpath fs) (nid n) dad = Some (r', b, dd) \<and>
    reshaped (h + length fs) (plug fs n) r' \<and> rootfill1 r' \<and> (b \<and> dd = Some (nid r') \<or> rootfill r')"
  using assms
proof (induction fs arbitrary: n h dad)
  case Nil
  then show ?case by (auto simp: reshaped_def fillstate_def rootfill1_def)
next
  case (Cons f fs)
  obtain i nx A k B where f: "f = (i, nx, A, k, B)" by (cases f)
  note p = Cons.prems [unfolded f]
  let ?m = "Inner i nx (A @ (k, n) # B)" and ?r = "plug fs (Inner i nx (A @ (k, n) # B))"
  have w: "wfn (Suc h + length fs) ?r" "wfn (Suc h) ?m" using p(1) wfn_plug_node [of "Suc h" fs ?m] by auto
  have d: "distinct (ids ?r)" using p(2) by simp
  have br: "fbranch fs" using p(3) by (auto simp: fbranch_def)
  have gn: "get_node ?r (nid n) = Some n" using get_node_plug [OF p(2)] by simp
  have gd: "get_node ?r i = Some ?m" using get_node_plug [OF d] by simp
  have up: ?case if sz: "A = [] \<and> B = [] \<or> 15 \<le> children n"
    and none: "(if isdepleted n then merge_or_balance (length A) ?m else Some None) = Some None"
  proof -
    obtain r' b dd where *: "rebalance ?r (fpath fs) i (Some i) = Some (r', b, dd)"
      "reshaped (Suc h + length fs) ?r r'" "rootfill1 r'" "b \<and> dd = Some (nid r') \<or> rootfill r'"
      using Cons.IH [OF w(1) d br fillstate_up [OF p(4,3) sz], of "Some i"] p(5) by auto
    then show ?thesis using gn gd none by (auto simp: f)
  qed
  show ?case
  proof (cases "isdepleted n")
    case False
    then show ?thesis using up by (auto simp: isdepleted_def tree_consts)
  next
    case True
    from merge_or_balance_cases [OF w(2) True] show ?thesis
    proof (elim disjE exE conjE)
      fix m'
      assume *: "merge_or_balance (length A) ?m = Some (Some m')" "reshaped (Suc h) ?m m'"
        "nearly n \<and> (\<forall>e\<in>set A \<union> set B. fill 0 (snd e)) \<longrightarrow> rootfill1 m' \<and> (\<forall>c\<le>13. fill c m')"
      have "A \<noteq> [] \<or> B \<noteq> []"
        using *(1) by (auto simp: merge_or_balance_def mergeNeighbor_def balanceNeighbor_def neighbor_left_def neighbor_right_def)
      then have fl: "rootfill1 m'" "\<forall>c\<le>13. fill c m'" using *(3) fillstate_nearly [OF p(4)] by blast+
      have re: "reshaped (Suc h + length fs) ?r (plug fs m')" by (rule reshaped_plug [OF *(2) w(1)])
      have rb: "rebalance (plug (f # fs) n) (fpath (f # fs)) (nid n) dad = Some (plug fs m', True, Some i)"
        using gn gd True *(1) repl_plug [OF d, of m'] by (simp add: f)
      have "nid m' = i" using *(2) by (simp add: reshaped_def)
      have "rootfill1 (plug fs m') \<and> (True \<and> Some i = Some (nid (plug fs m')) \<or> rootfill (plug fs m'))"
      proof (cases "fs = []")
        case False
        then have "fctx fs \<le> 13" using fctx_bound [OF br False] p(5) by simp
        then have "rootfill (plug fs m')" using rootfill_plug [OF False] br p(4) fl(2) by (simp add: fillstate_def)
        then show ?thesis by (simp add: rootfill1_def)
      qed (use fl(1) \<open>nid m' = i\<close> in simp)
      then show ?thesis using rb re by (intro exI conjI) (auto simp: f)
    next
      assume "merge_or_balance (length A) ?m = Some None" "A = []" "B = []"
      then show ?thesis using up True by simp
    next
      assume "merge_or_balance (length A) ?m = Some None" "15 \<le> children n"
      then show ?thesis using up True by simp
    qed
  qed
qed

subsection \<open>Deletion\<close>

text \<open>Removing the first element with a property.\<close>

definition del_first :: "('b \<Rightarrow> bool) \<Rightarrow> 'b list \<Rightarrow> 'b list" where
  "del_first P xs = takeWhile (\<lambda>x. \<not> P x) xs @ tl (dropWhile (\<lambda>x. \<not> P x) xs)"

lemma del_first_found: "(\<And>y. y \<in> set A \<Longrightarrow> \<not> P y) \<Longrightarrow> P x \<Longrightarrow> del_first P (A @ x # B) = A @ B"
  by (simp add: del_first_def)

lemma find_found: "(\<And>y. y \<in> set A \<Longrightarrow> \<not> P y) \<Longrightarrow> P x \<Longrightarrow> find P (A @ x # B) = Some x"
  by (induction A) auto

lemma fctx_nonneg: "0 \<le> fctx fs"
  by (induction fs rule: fctx.induct) auto

lemma fshape_fill: "fshape fs' = fshape fs \<Longrightarrow> ffill fs' = ffill fs \<and> fctx fs' = fctx fs"
proof (induction fs arbitrary: fs' rule: ffill.induct)
  case (2 i nx A k B fs)
  then obtain k' gs where g: "fs' = (i, nx, A, k', B) # gs" "fshape gs = fshape fs"
    using fshape_Cons by blast
  from 2(1) [OF g(2)] show ?case by (simp add: g(1))
qed (simp add: fshape_def)

lemma fshape_branch:
  assumes "fshape fs' = fshape fs"
  shows "fbranch fs' = fbranch fs"
proof (cases "fs = []")
  case False
  then have "fs' \<noteq> []" "last (fshape fs') = last (fshape fs)" using assms by (auto simp: fshape_def)
  with False show ?thesis by (auto simp: fbranch_def fshape_def last_map split: prod.splits)
qed (use assms in \<open>auto simp: fbranch_def fshape_def\<close>)

lemma length_leaves: "length (leaves n) \<le> sum_list (map children (nodes n))"
proof (induction n rule: leaves.induct)
  case (2 i nx cs)
  have "length (leaves (Inner i nx cs)) = sum_list (map (\<lambda>e. length (leaves (snd e))) cs)"
    by (simp add: length_concat comp_def)
  also have "\<dots> \<le> sum_list (map (\<lambda>e. sum_list (map children (nodes (snd e)))) cs)"
    using 2 by (intro sum_list_mono) auto
  also have "\<dots> = sum_list (map children (concat (map (\<lambda>e. nodes (snd e)) cs)))" by (induction cs) auto
  finally show ?case by simp
qed simp

text \<open>The invariant after the tree below the root was changed.\<close>

definition tree_inv0 :: "Tree \<Rightarrow> bool" where
  "tree_inv0 t \<longleftrightarrow>
     0 < hgt t \<and> wfn (hgt t - 1) (root t) \<and>
     sorted (map fst (leaves (root t))) \<and>
     leaves (root t) \<noteq> [] \<and> last (leaves (root t)) = (sentinel, 0) \<and>
     (\<forall>e\<in>set (butlast (leaves (root t))). fst e < sentinel) \<and>
     distinct (ids (root t)) \<and> (\<forall>i\<in>set (ids (root t)). i < fresh t) \<and>
     linked_levels (root t) \<and> first t = fst (hd (skel (hgt t - 1) (root t)))"

lemma tree_inv_iff: "tree_inv t \<longleftrightarrow> tree_inv0 t \<and> rootfill (root t)"
  unfolding tree_inv_def tree_inv0_def by blast

lemma poproot_inv:
  assumes inv: "tree_inv0 t" and rf: "rootfill1 (root t)"
  shows "tree_inv (poproot t) \<and> entries (poproot t) = entries t \<and> hgt (poproot t) \<le> hgt t"
proof (cases "rootfill (root t)")
  case True
  then have "poproot t = t" unfolding poproot_def by (cases "root t") (auto split: list.splits)
  with True inv show ?thesis by (simp add: tree_inv_iff)
next
  case False
  then obtain i nx k c where r: "root t = Inner i nx [(k, c)]" "rootfill c" using rf by (auto simp: rootfill1_def)
  note i = inv [unfolded tree_inv0_def]
  then obtain h where h: "hgt t = Suc (Suc h)" using r(1) by (cases "hgt t"; cases "hgt t - 1") auto
  have pr: "poproot t = t\<lparr>root := c, hgt := Suc h\<rparr>" using r h by (simp add: poproot_def)
  have "linked (skel d c)" for d using i r(1) unfolding linked_levels_def by (auto dest: spec [of _ "Suc d"])
  then have "linked_levels c" by (simp add: linked_levels_def)
  then have "tree_inv0 (t\<lparr>root := c, hgt := Suc h\<rparr>)" using i r(1) h by (simp add: tree_inv0_def)
  then show ?thesis using r pr h by (simp add: tree_inv_iff entries_def)
qed

lemma tree_inv0_change:
  assumes inv: "tree_inv t" and w: "wfn (hgt t - 1) r" and lv: "leaves (root t) = A @ x # B" "leaves r = A @ B"
    and x: "x \<noteq> (sentinel, 0)" and ids: "mset (ids r) \<subseteq># mset (ids (root t))"
    and sk: "\<And>d. shrunk (skel d (root t)) (skel d r)"
  shows "tree_inv0 (t\<lparr>root := r\<rparr>) \<and> entries t = A @ x # butlast B \<and> entries (t\<lparr>root := r\<rparr>) = A @ butlast B"
proof -
  note i = inv [unfolded tree_inv_def]
  have B: "B \<noteq> []" "last B = (sentinel, 0)" using i lv(1) x by (auto split: if_splits)
  have "sorted (map fst (A @ B))" using i lv(1) by (auto simp: sorted_append)
  moreover have "\<forall>e\<in>set (butlast (A @ B)). fst e < sentinel" using i lv(1) B by (auto simp: butlast_append)
  moreover have "distinct (ids r)"
  proof -
    have "distinct (ids (root t))" using i by blast
    then have "count (mset (ids (root t))) a \<le> 1" for a by (simp add: distinct_count_atmost_1)
    then have "count (mset (ids r)) a \<le> 1" for a using ids by (meson le_trans mset_subset_eq_count)
    then show ?thesis by (simp add: distinct_count_atmost_1 le_less)
  qed
  moreover have "\<forall>j\<in>set (ids r). j < fresh t" using i set_mset_mono [OF ids] by auto
  moreover have "linked_levels r" using i sk linked_shrunk unfolding linked_levels_def by blast
  moreover have "first t = fst (hd (skel (hgt t - 1) r))" using i shrunk_hd [OF sk] by simp
  ultimately have "tree_inv0 (t\<lparr>root := r\<rparr>)" using i w lv(2) B by (simp add: tree_inv0_def)
  then show ?thesis using lv B by (simp add: entries_def butlast_append)
qed

lemma fillstate_removed:
  assumes rf: "rootfill (plug fs (Level1 i nx es))" and sh: "fshape fs' = fshape fs" and len: "Suc (length es') = length es"
  shows "fbranch fs' \<and> fillstate fs' (Level1 i nx es')"
proof (cases "fs = []")
  case True
  then show ?thesis using sh by (auto simp: fshape_def fbranch_def fillstate_def)
next
  case False
  then have "fs' \<noteq> []" using sh by (auto simp: fshape_def)
  with rootfill_plug [OF False, of "Level1 i nx es"] rf fshape_branch [OF sh] fshape_fill [OF sh] len show ?thesis
    by (auto simp: fillstate_def short_def)
qed

lemma leaf_size:
  assumes rf: "rootfill (plug fs (Level1 i nx es))" and fs: "fs \<noteq> []"
  shows "15 \<le> length es"
  using rf rootfill_plug [OF fs] fctx_nonneg [of fs] by auto

lemma del_first_absent: "(\<And>y. y \<in> set xs \<Longrightarrow> \<not> P y) \<Longrightarrow> del_first P xs = xs"
  by (induction xs) (auto simp: del_first_def)

text \<open>Removing the entry at a place that was found.\<close>

lemma del_at:
  assumes inv: "tree_inv t" and hgt: "hgt t \<le> 16" and fs: "plug fs m = root t" "length fs = hgt t - 1"
    and pos: "drop pos (leaves m) @ concat (map leaves (rights fs)) = x # T" "pos < length (leaves m)"
    and x: "fst x < sentinel"
  shows "\<exists>A t'. entries t = A @ x # butlast T \<and> tree_inv t' \<and> entries t' = A @ butlast T \<and> hgt t' \<le> hgt t \<and>
    do { n \<leftarrow> get_node (root t) (nid m);
         (a, n') \<leftarrow> remove_entry pos n;
         let r = repl (nid m) n' (root t);
         r \<leftarrow> (if pos = children n' then reset_keys r (fpath fs) else Some r);
         (r, balanced, dad) \<leftarrow> rebalance r (fpath fs) (nid m) None;
         let t' = t\<lparr>root := r\<rparr>;
         Some (Some a, if balanced \<and> dad = Some (nid r) then poproot t' else t') } = Some (Some (snd x), t')"
proof -
  note i = inv [unfolded tree_inv_def]
  have w: "wfn (length fs) (plug fs m)" and d: "distinct (ids (plug fs m))" using i fs by auto
  obtain j nx es where m: "m = Level1 j nx es" using wfn_plug_leaf [OF w] by blast
  let ?A = "concat (map leaves (lefts fs)) @ take pos es"
  define m' where "m' = Level1 j nx (take pos es @ drop (Suc pos) es)"
  have es: "es ! pos = x" "drop (Suc pos) es @ concat (map leaves (rights fs)) = T" "pos < length es"
    using pos m by (simp_all add: Cons_nth_drop_Suc [symmetric])
  have lv: "leaves (root t) = ?A @ x # T"
  proof -
    have "es @ concat (map leaves (rights fs)) = (take pos es @ x # drop (Suc pos) es) @ concat (map leaves (rights fs))"
      using id_take_nth_drop [OF es(3)] es(1) by simp
    then show ?thesis using plug_leaf_leaves [OF w] fs(1) m es(2) by simp
  qed
  have xs: "x \<noteq> (sentinel, 0)" using x by auto
  then have T: "T \<noteq> []" "last T = (sentinel, 0)" using i lv by (auto split: if_splits)
  have rf: "rootfill (plug fs (Level1 j nx es))" using i fs(1) m by simp
  have "2 \<le> length es"
  proof (cases "fs = []")
    case True
    then show ?thesis using es(2,3) T by (cases "Suc pos = length es") auto
  qed (use leaf_size [OF rf] in simp)
  note re = remove_entry_plug [OF m es(3) this w d, folded m'_def]
  obtain fs' where fs': "(if pos = children m' then reset_keys (plug fs m') (fpath fs) else Some (plug fs m')) = Some (plug fs' m')"
    "wfn (length fs) (plug fs' m')" "fshape fs' = fshape fs" "ids (plug fs' m') = ids (plug fs m)"
    "\<And>d. skel d (plug fs' m') = skel d (plug fs m)"
    using re(2) by blast
  have lv': "leaves (plug fs' m') = ?A @ T"
    using leaves_plug_change [OF w fs'(2,3), of "take pos es" "drop (Suc pos) es"] es(2) by (simp add: m'_def)
  have len: "length fs' = length fs" "fpath fs' = fpath fs" using fshape_length [OF fs'(3)] fpath_shape [OF fs'(3)] by auto
  have le15: "length fs' \<le> 15" using len(1) fs(2) hgt by simp
  have "fbranch fs' \<and> fillstate fs' m'" using fillstate_removed [OF rf fs'(3), of "take pos es @ drop (Suc pos) es"] es(3) by (simp add: m'_def)
  moreover have "nid m' = nid m" by (simp add: m m'_def)
  ultimately obtain r b dd where rb: "rebalance (plug fs' m') (fpath fs) (nid m) None = Some (r, b, dd)"
    "reshaped (length fs) (plug fs' m') r" "rootfill1 r" "b \<and> dd = Some (nid r) \<or> rootfill r"
    using rebalance_plug [OF _ _ _ _ le15, of 0 m' None] fs'(2,4) d len by auto
  have "tree_inv0 (t\<lparr>root := r\<rparr>) \<and> entries t = ?A @ x # butlast T \<and> entries (t\<lparr>root := r\<rparr>) = ?A @ butlast T"
    by (rule tree_inv0_change [OF inv _ lv _ xs]) (use rb(2) fs' fs lv' in \<open>simp_all add: reshaped_def\<close>)
  moreover have "poproot u = u" if "rootfill (root u)" for u
    using that unfolding poproot_def by (cases "root u") (auto split: list.splits)
  ultimately have fin: "entries t = ?A @ x # butlast T" "tree_inv (poproot (t\<lparr>root := r\<rparr>))"
    "entries (poproot (t\<lparr>root := r\<rparr>)) = ?A @ butlast T" "hgt (poproot (t\<lparr>root := r\<rparr>)) \<le> hgt t"
    "(if b \<and> dd = Some (nid r) then poproot (t\<lparr>root := r\<rparr>) else t\<lparr>root := r\<rparr>) = poproot (t\<lparr>root := r\<rparr>)"
    using poproot_inv [of "t\<lparr>root := r\<rparr>"] rb(3,4) by auto
  have "get_node (root t) (nid m) = Some m" "repl (nid m) m' (root t) = plug fs m'"
    using get_node_plug [OF d] repl_plug [OF d] fs(1) by auto
  then show ?thesis using re(1) fs'(1) rb(1) fin es(1)
    by (intro exI [of _ ?A] exI [of _ "poproot (t\<lparr>root := r\<rparr>)"])
      (cases "pos = children m'"; cases "b \<and> dd = Some (nid r)"; simp add: Let_def)
qed

definition matches :: "Key \<Rightarrow> (addr \<Rightarrow> bool) \<Rightarrow> Key \<times> addr \<Rightarrow> bool" where
  "matches mkey match e \<longleftrightarrow> fst e = mkey \<and> match (snd e)"

text \<open>The entries below the key, those with the key that do not match, the next one, the rest.\<close>

lemma del_split:
  assumes "xs \<noteq> []" "mkey < fst (last xs)" "sorted (map fst xs)"
  obtains L S x T where "xs = (L @ S) @ x # T" "dropWhile (\<lambda>e. fst e < mkey) xs = S @ x # T"
    "\<And>y. y \<in> set L \<Longrightarrow> fst y < mkey" "\<And>y. y \<in> set S \<Longrightarrow> fst y = mkey \<and> \<not> match (snd y)"
    "fst x = mkey \<longrightarrow> match (snd x)" "mkey \<le> fst x"
proof -
  define L where "L = takeWhile (\<lambda>e. fst e < mkey) xs"
  define D where "D = dropWhile (\<lambda>e. fst e < mkey) xs"
  have xs: "xs = L @ D" by (simp add: L_def D_def)
  have L: "\<And>y. y \<in> set L \<Longrightarrow> fst y < mkey" by (auto simp: L_def dest: set_takeWhileD)
  define S where "S = takeWhile (\<lambda>e. fst e = mkey \<and> \<not> match (snd e)) D"
  have S: "\<And>y. y \<in> set S \<Longrightarrow> fst y = mkey \<and> \<not> match (snd y)" by (auto simp: S_def dest: set_takeWhileD)
  have "last xs \<in> set L \<union> set D" using last_in_set [OF assms(1)] xs by (metis set_append)
  then have "last xs \<in> set D" using L [of "last xs"] assms(2) by auto
  then have ne: "dropWhile (\<lambda>e. fst e = mkey \<and> \<not> match (snd e)) D \<noteq> []"
    using assms(2) unfolding dropWhile_eq_Nil_conv by force
  then obtain x T where xT: "dropWhile (\<lambda>e. fst e = mkey \<and> \<not> match (snd e)) D = x # T"
    by (cases "dropWhile (\<lambda>e. fst e = mkey \<and> \<not> match (snd e)) D") auto
  then have D: "D = S @ x # T" unfolding S_def by (metis takeWhile_dropWhile_id)
  have x: "fst x = mkey \<longrightarrow> match (snd x)" using hd_dropWhile [OF ne] xT by auto
  have "mkey \<le> fst x"
  proof (cases "S = []")
    case True
    then have "D \<noteq> []" "hd D = x" using D by simp_all
    then show ?thesis using hd_dropWhile [of "\<lambda>e. fst e < mkey" xs] unfolding D_def by (simp add: not_less)
  next
    case False
    then obtain s where "s \<in> set S" by (cases S) auto
    moreover from this have "fst s \<le> fst x" using assms(3) xs D by (auto simp: sorted_append)
    ultimately show ?thesis using S by auto
  qed
  moreover have "xs = (L @ S) @ x # T" using xs unfolding D by simp
  moreover have "dropWhile (\<lambda>e. fst e < mkey) xs = S @ x # T" using D unfolding D_def .
  ultimately show thesis using that L S x by blast
qed

lemma Tree_del_correct:
  assumes inv: "tree_inv t" and hgt: "hgt t \<le> 16" and k: "mkey < sentinel"
  shows "\<exists>t'. Tree_del mkey match t = Some (map_option snd (find (matches mkey match) (entries t)), t') \<and> tree_inv t' \<and>
     entries t' = del_first (matches mkey match) (entries t) \<and> hgt t' \<le> hgt t"
proof -
  note i = inv [unfolded tree_inv_def]
  then have w: "wfn (hgt t - 1) (root t)" and srt: "sorted (map fst (leaves (root t)))" and d: "distinct (ids (root t))"
    and li: "linked_levels (root t)" and mk: "mkey \<le> max_key (root t)" using k by (auto simp: max_key_def)
  obtain fs m p where dp: "del_path mkey (root t) = Some (rev (fpath fs), nid m, p)" "plug fs m = root t"
    "length fs = hgt t - 1" "p < length (leaves m)"
    "drop p (leaves m) @ concat (map leaves (rights fs)) = dropWhile (\<lambda>e. fst e < mkey) (leaves (root t))"
    using del_path_frames [OF w initial_less [OF srt] mk] by blast
  obtain L S x T where lv: "leaves (root t) = (L @ S) @ x # T"
    and D: "dropWhile (\<lambda>e. fst e < mkey) (leaves (root t)) = S @ x # T"
    and L: "\<And>y. y \<in> set L \<Longrightarrow> fst y < mkey" and S: "\<And>y. y \<in> set S \<Longrightarrow> fst y = mkey \<and> \<not> match (snd y)"
    and xQ: "fst x = mkey \<longrightarrow> match (snd x)" "mkey \<le> fst x"
    by (rule del_split [of "leaves (root t)" mkey match]) (use i k in auto)
  have pre: "\<And>y. y \<in> set (L @ S) \<Longrightarrow> \<not> matches mkey match y" using L S by (auto simp: matches_def)
  have fuel: "length S < sum_list (map children (nodes (root t)))" using length_leaves [of "root t"] lv by simp
  note df = del_find_frames [of fs m p S x T mkey match, unfolded dp(2), OF _ d li _ dp(4) S fuel]
  show ?thesis
  proof (cases "fst x = mkey")
    case True
    then have xP: "matches mkey match x" using xQ by (simp add: matches_def)
    then obtain fs' m' pos' where f: "del_find (sum_list (map children (nodes (root t)))) (root t) mkey match (fpath fs) (nid m) p =
        Some (Some (fpath fs', nid m', pos'))" "plug fs' m' = root t" "length fs' = length fs" "pos' < length (leaves m')"
      "drop pos' (leaves m') @ concat (map leaves (rights fs')) = x # T"
      using df w dp(3,5) D True xQ by auto
    obtain A t' where *: "entries t = A @ x # butlast T" "tree_inv t'" "entries t' = A @ butlast T" "hgt t' \<le> hgt t"
      "Tree_del mkey match t = Some (Some (snd x), t')"
      using del_at [OF inv hgt f(2) _ f(5,4)] dp(1,3) f(1,3) True k by (auto simp: Tree_del_def)
    have "x \<noteq> (sentinel, 0)" using True k by auto
    then have "T \<noteq> []" using i lv by (auto split: if_splits)
    then have "entries t = (L @ S) @ x # butlast T" unfolding entries_def lv by (simp add: butlast_append)
    with *(1) have "A = L @ S" by simp
    then have "find (matches mkey match) (entries t) = Some x"
      "del_first (matches mkey match) (entries t) = A @ butlast T"
      using *(1) find_found [where P = "matches mkey match" and A = "L @ S", OF pre xP]
        del_first_found [where P = "matches mkey match" and A = "L @ S", OF pre xP] by auto
    with * show ?thesis by simp
  next
    case False
    have no: "\<not> matches mkey match y" if "y \<in> set (leaves (root t))" for y
    proof (cases "y \<in> set (L @ S)")
      case False
      then have "fst x \<le> fst y" using that srt lv by (auto simp: sorted_append)
      then show ?thesis using \<open>fst x \<noteq> mkey\<close> xQ(2) by (auto simp: matches_def)
    qed (use pre in auto)
    then have "\<And>y. y \<in> set (entries t) \<Longrightarrow> \<not> matches mkey match y" by (auto simp: entries_def dest: in_set_butlastD)
    then have "find (matches mkey match) (entries t) = None" "del_first (matches mkey match) (entries t) = entries t"
      by (auto simp: find_None_iff del_first_absent)
    moreover have "Tree_del mkey match t = Some (None, t)" using df w dp(1,3,5) D False by (simp add: Tree_del_def)
    ultimately show ?thesis using inv by auto
  qed
qed

end
