(* ===== verification/MetaTreeIndex.thy ===== *)
theory MetaTreeIndex
  imports MetaTreeDel
begin

text \<open>
  The metadata tree as an ordered index: the contract the name space relies on, its
  interpretation on the tree, searches by type and identifier, and sequences of insertions
  and deletions as a transition relation.
\<close>

subsection \<open>The interface of an ordered index\<close>

text \<open>
  What the name space relies on: an index holds a list of entries sorted by key; insertion
  puts an entry before those with a key that is not smaller, deletion removes the first
  entry with the key that matches, as long as the index is not too high.
\<close>

locale ordered_index =
  fixes inv :: "'t \<Rightarrow> bool"
    and low :: "'t \<Rightarrow> bool"
    and valid :: "Key \<Rightarrow> bool"
    and items :: "'t \<Rightarrow> (Key \<times> addr) list"
    and ins :: "Key \<Rightarrow> addr \<Rightarrow> 't \<Rightarrow> 't option"
    and del :: "Key \<Rightarrow> (addr \<Rightarrow> bool) \<Rightarrow> 't \<Rightarrow> (addr option \<times> 't) option"
  assumes items_sorted: "inv t \<Longrightarrow> sorted (map fst (items t))"
    and ins_law: "inv t \<Longrightarrow> valid k \<Longrightarrow>
      \<exists>t'. ins k a t = Some t' \<and> inv t' \<and> items t' = ins_at (\<lambda>e. fst e < k) (k, a) (items t)"
    and del_law: "inv t \<Longrightarrow> low t \<Longrightarrow> valid k \<Longrightarrow>
      \<exists>t'. del k m t = Some (map_option snd (find (matches k m) (items t)), t') \<and> inv t' \<and> low t' \<and>
        items t' = del_first (matches k m) (items t)"
begin

lemma ins_set:
  assumes "inv t" "valid k" "ins k a t = Some t'"
  shows "inv t'" "set (items t') = insert (k, a) (set (items t))" "mset (items t') = add_mset (k, a) (mset (items t))"
proof -
  have *: "inv t'" "items t' = ins_at (\<lambda>e. fst e < k) (k, a) (items t)" using ins_law [OF assms(1,2), of a] assms(3) by auto
  then show "inv t'" "set (items t') = insert (k, a) (set (items t))" by (simp_all add: set_ins_at)
  have "mset (takeWhile P xs) + mset (dropWhile P xs) = mset xs" for P :: "Key \<times> addr \<Rightarrow> bool" and xs
    by (metis mset_append takeWhile_dropWhile_id)
  then show "mset (items t') = add_mset (k, a) (mset (items t))" using *(2) by (simp add: ins_at_def)
qed

lemma del_absent:
  assumes "inv t" "low t" "valid k" "\<And>e. e \<in> set (items t) \<Longrightarrow> \<not> matches k m e"
  shows "\<exists>t'. del k m t = Some (None, t') \<and> inv t' \<and> low t' \<and> items t' = items t"
  using del_law [OF assms(1-3), of m] assms(4) by (auto simp: find_None_iff del_first_absent)

text \<open>Deleting an entry that is the only match.\<close>

lemma del_unique:
  assumes "inv t" "low t" "valid k" "(k, a) \<in> set (items t)" "\<And>e. e \<in> set (items t) \<Longrightarrow> matches k m e \<longleftrightarrow> e = (k, a)"
  shows "\<exists>t'. del k m t = Some (Some a, t') \<and> inv t' \<and> low t' \<and> items t' = remove1 (k, a) (items t)"
proof -
  obtain A B where AB: "items t = A @ (k, a) # B" "(k, a) \<notin> set A" using assms(4) by (metis split_list_first)
  then have A: "\<And>y. y \<in> set A \<Longrightarrow> \<not> matches k m y" and x: "matches k m (k, a)" using assms(4,5) by auto
  show ?thesis
    using del_law [OF assms(1-3), of m] AB(2) find_found [where A = A and P = "matches k m", OF A x] del_first_found [where A = A and P = "matches k m", OF A x]
    unfolding AB(1) by (auto simp: remove1_append)
qed

text \<open>Inserting an entry and deleting it again gives back the entries.\<close>

lemma ins_del:
  assumes "inv t" "valid k" "ins k a t = Some t'" "low t'" "m a" "\<And>b. (k, b) \<in> set (items t) \<Longrightarrow> \<not> m b"
  shows "\<exists>t''. del k m t' = Some (Some a, t'') \<and> inv t'' \<and> items t'' = items t"
proof -
  have t': "inv t'" "items t' = ins_at (\<lambda>e. fst e < k) (k, a) (items t)" using ins_law [OF assms(1,2), of a] assms(3) by auto
  have s: "set (items t') = insert (k, a) (set (items t))" using ins_set [OF assms(1-3)] by blast
  have "matches k m e \<longleftrightarrow> e = (k, a)" if "e \<in> set (items t')" for e
    using that assms(5,6) s by (cases e) (auto simp: matches_def)
  then obtain t'' where t'': "del k m t' = Some (Some a, t'')" "inv t''" "items t'' = remove1 (k, a) (items t')"
    using del_unique [OF t'(1) assms(4,2), of a m] s by auto
  have "(k, a) \<notin> set (takeWhile (\<lambda>e. fst e < k) (items t))" by (auto dest: set_takeWhileD)
  then have "items t'' = items t" using t''(3) t'(2) by (simp add: ins_at_def remove1_append)
  with t'' show ?thesis by blast
qed

end

interpretation mt: ordered_index tree_inv "\<lambda>t. hgt t \<le> 16" "\<lambda>k. k < sentinel" entries Tree_insert Tree_del
proof
  show "sorted (map fst (entries t))" if "tree_inv t" for t
    using that entries_leaves [OF that] by (auto simp: tree_inv_def sorted_append)
qed (use Tree_insert_correct Tree_del_correct le_trans in \<open>blast+\<close>)

lemma Key_below_sentinel: "k \<noteq> KFS_SENTINEL \<Longrightarrow> Key_of k d e < sentinel"
  unfolding sentinel_def Key_of_less by (cases k) (simp_all add: meta_class_def)

lemma sentinel_not_below: "k \<noteq> KFS_SENTINEL \<Longrightarrow> \<not> pm_greater (PartialMatch_of k d) sentinel \<and> \<not> pm_eq (PartialMatch_of k d) sentinel"
  unfolding sentinel_def pm_greater_iff pm_eq_iff by (cases k) (simp_all add: meta_class_def)

subsection \<open>Keys of the name space\<close>

text \<open>
  The keys the name space uses: one key per file attribute, chunk keys and directory entry
  keys with a non-negative second datum; and no identifier has both chunks and directory
  entries.  Then all keys of one type and identifier are adjacent.
\<close>

definition ns_types :: "MetaType set" where
  "ns_types = {KFS_FATTR, KFS_CHUNKINFO, KFS_DENTRY}"

definition ns_key :: "Key \<Rightarrow> bool" where
  "ns_key k \<longleftrightarrow> (\<exists>T d e. k = Key_of T d e \<and> T \<in> ns_types \<and> 0 \<le> sint e \<and> (T = KFS_FATTR \<longrightarrow> e = 0))"

definition keys_ok :: "(Key \<times> 'c) list \<Rightarrow> bool" where
  "keys_ok xs \<longleftrightarrow> (\<forall>e\<in>set xs. ns_key (fst e)) \<and>
     (\<forall>d e e'. Key_of KFS_CHUNKINFO d e \<in> fst ` set xs \<longrightarrow> Key_of KFS_DENTRY d e' \<notin> fst ` set xs)"

lemma meta_ns [simp]:
  "meta_class KFS_FATTR = meta_class KFS_DENTRY" "meta_class KFS_CHUNKINFO = meta_class KFS_DENTRY"
  "meta_low KFS_FATTR = 0" "meta_low KFS_CHUNKINFO = 1" "meta_low KFS_DENTRY = 2"
  by (simp_all add: meta_class_def meta_low_def)

lemma meta_ns_class: "T \<in> ns_types \<Longrightarrow> meta_class T = meta_class KFS_DENTRY"
  by (auto simp: ns_types_def)

lemma meta_ns_low: "T \<in> ns_types \<Longrightarrow> T' \<in> ns_types \<Longrightarrow> meta_low T = meta_low T' \<longleftrightarrow> T = T'"
  by (auto simp: ns_types_def)

lemma ns_pm_greater: "T \<in> ns_types \<Longrightarrow> T' \<in> ns_types \<Longrightarrow>
    pm_greater (PartialMatch_of T d) (Key_of T' d' e) \<longleftrightarrow> sint d' < sint d \<or> (d = d' \<and> meta_low T' < meta_low T)"
  unfolding pm_greater_iff by (simp add: meta_ns_class)

lemma ns_pm_eq: "T \<in> ns_types \<Longrightarrow> T' \<in> ns_types \<Longrightarrow> pm_eq (PartialMatch_of T d) (Key_of T' d' e) \<longleftrightarrow> T = T' \<and> d = d'"
  unfolding pm_eq_iff using meta_ns_low by (auto simp: meta_ns_class)

lemma ns_key_le: "T \<in> ns_types \<Longrightarrow> T' \<in> ns_types \<Longrightarrow> Key_of T d e \<le> Key_of T' d' e' \<longleftrightarrow>
    sint d < sint d' \<or> (d = d' \<and> (sint e div 16 < sint e' div 16 \<or> (sint e div 16 = sint e' div 16 \<and> meta_low T \<le> meta_low T')))"
  unfolding linorder_not_less [symmetric, of "Key_of T d e"] Key_of_less
  by (auto simp: meta_ns_class sint_eq_iff)

text \<open>Among keys with one identifier the types come in the order of their codes.\<close>

lemma keys_ok_types:
  assumes ok: "keys_ok xs" and x: "Key_of T d e \<in> fst ` set xs" and y: "Key_of T' d e' \<in> fst ` set xs"
    and T: "T \<in> ns_types" "T' \<in> ns_types" and e: "0 \<le> sint e" "T' = KFS_FATTR \<longrightarrow> e' = 0"
    and le: "Key_of T d e \<le> Key_of T' d e'"
  shows "meta_low T \<le> meta_low T'"
proof (rule ccontr)
  assume low: "\<not> meta_low T \<le> meta_low T'"
  have "T' \<noteq> KFS_FATTR" using le low T e ns_key_le [OF T, of d e d e'] by auto
  then have "T = KFS_DENTRY \<and> T' = KFS_CHUNKINFO" using low T by (auto simp: ns_types_def)
  then show False using ok x y unfolding keys_ok_def by blast
qed

lemma keys_ok_pair:
  assumes ok: "keys_ok xs" and x: "x \<in> set xs" and y: "y \<in> set xs" and le: "fst x \<le> fst y" and T: "T \<in> ns_types"
  shows "pm_greater (PartialMatch_of T d) (fst y) \<longrightarrow> pm_greater (PartialMatch_of T d) (fst x)"
    "pm_greater (PartialMatch_of T d) (fst y) \<or> pm_eq (PartialMatch_of T d) (fst y) \<longrightarrow>
     pm_greater (PartialMatch_of T d) (fst x) \<or> pm_eq (PartialMatch_of T d) (fst x)"
proof -
  obtain T1 d1 e1 where 1: "fst x = Key_of T1 d1 e1" "T1 \<in> ns_types" "0 \<le> sint e1" "T1 = KFS_FATTR \<longrightarrow> e1 = 0"
    using ok x by (auto simp: keys_ok_def ns_key_def)
  obtain T2 d2 e2 where 2: "fst y = Key_of T2 d2 e2" "T2 \<in> ns_types" "0 \<le> sint e2" "T2 = KFS_FATTR \<longrightarrow> e2 = 0"
    using ok y by (auto simp: keys_ok_def ns_key_def)
  have low: "sint d1 < sint d2 \<or> (d1 = d2 \<and> meta_low T1 \<le> meta_low T2)"
  proof (cases "d1 = d2")
    case True
    have "meta_low T1 \<le> meta_low T2"
      using keys_ok_types [of xs T1 d1 e1 T2 e2] ok x y le 1 2 True image_eqI [of _ fst] by metis
    with True show ?thesis by simp
  next
    case False
    then show ?thesis using le ns_key_le [OF 1(2) 2(2)] 1(1) 2(1) by auto
  qed
  note pm = ns_pm_greater [OF T 2(2), of d d2 e2] ns_pm_greater [OF T 1(2), of d d1 e1]
    ns_pm_eq [OF T 2(2), of d d2 e2] ns_pm_eq [OF T 1(2), of d d1 e1]
  show "pm_greater (PartialMatch_of T d) (fst y) \<longrightarrow> pm_greater (PartialMatch_of T d) (fst x)"
    unfolding 1(1) 2(1) pm using low by auto
  have "T = T1 \<or> meta_low T1 < meta_low T" if "meta_low T1 \<le> meta_low T"
    using that meta_ns_low [OF T 1(2)] by auto
  then show "pm_greater (PartialMatch_of T d) (fst y) \<or> pm_eq (PartialMatch_of T d) (fst y) \<longrightarrow>
     pm_greater (PartialMatch_of T d) (fst x) \<or> pm_eq (PartialMatch_of T d) (fst x)"
    unfolding 1(1) 2(1) pm using low by auto
qed

lemma keys_ok_search:
  assumes ok: "keys_ok xs" and srt: "sorted (map fst xs)" and T: "T \<in> ns_types"
  shows "search_ok (pm_greater (PartialMatch_of T d)) (pm_eq (PartialMatch_of T d)) xs"
proof -
  have srt': "sorted_wrt (\<lambda>x y. fst x \<le> fst y) xs" using srt by (simp add: sorted_map)
  have "initial (pm_greater (PartialMatch_of T d)) xs"
    unfolding initial_def by (rule sorted_wrt_mono_rel [OF _ srt']) (rule keys_ok_pair(1) [OF ok _ _ _ T])
  moreover have "initial (\<lambda>k. pm_greater (PartialMatch_of T d) k \<or> pm_eq (PartialMatch_of T d) k) xs"
    unfolding initial_def by (rule sorted_wrt_mono_rel [OF _ srt']) (rule keys_ok_pair(2) [OF ok _ _ _ T])
  ultimately show ?thesis by (auto simp: search_ok_def pm_eq_not_less)
qed

lemma key_search: "sorted (map fst xs) \<Longrightarrow> search_ok (\<lambda>x. x < k) (\<lambda>x. x = k) xs"
  unfolding search_ok_def initial_def
  by (auto simp: sorted_map elim!: sorted_wrt_mono_rel [rotated])

lemma all_by_pm:
  assumes "tree_inv t" "keys_ok (entries t)" "T \<in> ns_types"
  shows "extractAll (pm_greater (PartialMatch_of T d)) (pm_eq (PartialMatch_of T d)) t =
    map snd (filter (\<lambda>e. pm_eq (PartialMatch_of T d) (fst e)) (entries t))"
  using assms mt.items_sorted keys_ok_search sentinel_not_below
  by (intro extractAll_entries) (auto simp: ns_types_def)

lemma all_by_key:
  assumes "tree_inv t" "k < sentinel"
  shows "extractAll (\<lambda>x. x < k) (\<lambda>x. x = k) t = map snd (filter (\<lambda>e. fst e = k) (entries t))"
  using assms mt.items_sorted key_search by (intro extractAll_entries) auto

lemma keys_ok_subset: "keys_ok xs \<Longrightarrow> set ys \<subseteq> set xs \<Longrightarrow> keys_ok ys"
  unfolding keys_ok_def by blast

subsection \<open>Sequences of operations\<close>

text \<open>
  The trees a run can reach, with the list of entries that the same insertions and deletions
  leave: every deletion happens on a tree of at most 16 levels.
\<close>

inductive tree_reach :: "(Key \<times> addr) list \<Rightarrow> Tree \<Rightarrow> bool" where
  init: "tree_reach [] new_Tree"
| ins: "tree_reach es t \<Longrightarrow> k < sentinel \<Longrightarrow> Tree_insert k a t = Some t' \<Longrightarrow>
    tree_reach (ins_at (\<lambda>e. fst e < k) (k, a) es) t'"
| del: "tree_reach es t \<Longrightarrow> hgt t \<le> 16 \<Longrightarrow> k < sentinel \<Longrightarrow> Tree_del k m t = Some (r, t') \<Longrightarrow>
    tree_reach (del_first (matches k m) es) t'"

lemma tree_reach_inv: "tree_reach es t \<Longrightarrow> tree_inv t \<and> entries t = es"
proof (induction rule: tree_reach.induct)
  case init
  show ?case using new_Tree_inv entries_new_Tree by simp
next
  case (ins es t k a t')
  then show ?case using mt.ins_law [of t k a] by auto
next
  case (del es t k m r t')
  then show ?case using mt.del_law [of t k m] by auto
qed

lemma wfn_nodes: "wfn h n \<Longrightarrow> m \<in> set (nodes n) \<Longrightarrow> 0 < children m \<and> children m \<le> NKEY"
  by (induction h n rule: wfn.induct) auto

lemma fill_nodes: "fill c n \<Longrightarrow> 0 \<le> c \<Longrightarrow> m \<in> set (nodes n) \<Longrightarrow> hasleaves m \<Longrightarrow> 15 \<le> children m"
  by (induction c n rule: fill.induct) (auto split: if_splits)

lemma tree_inv_nodes:
  assumes "tree_inv t" "n \<in> set (nodes (root t))"
  shows "0 < children n \<and> children n \<le> NKEY" "hasleaves n \<Longrightarrow> n \<noteq> root t \<Longrightarrow> 15 \<le> children n"
proof -
  show "0 < children n \<and> children n \<le> NKEY" using assms wfn_nodes unfolding tree_inv_def by blast
  show "15 \<le> children n" if n: "hasleaves n" "n \<noteq> root t"
  proof (cases "root t")
    case (Level1 i nx es)
    then show ?thesis using n assms(2) by simp
  next
    case (Inner i nx cs)
    then have "fill 0 (root t)" using assms(1) rootfill_fill by (auto simp: tree_inv_def)
    then show ?thesis using fill_nodes assms(2) n by blast
  qed
qed

lemma iterate_first:
  assumes "tree_inv t"
  shows "iterate_from t (first t, 0) = entries t @ [(sentinel, 0)]"
proof -
  let ?h = "hgt t - 1"
  have wf: "wfn ?h (root t)" "first t = fst (hd (skel ?h (root t)))" using assms by (auto simp: tree_inv_def)
  obtain n ns where l: "level ?h (root t) = n # ns"
    using skel_nonempty [OF wf(1) order.refl] by (cases "level ?h (root t)") (auto simp: skel_def)
  then have f: "first t = nid n" using wf(2) by (simp add: skel_def)
  have "length (n # ns) \<le> length (nodes (root t))" using length_level [of ?h "root t"] l by simp
  then have "leaf_seq (length (nodes (root t))) (root t) (Some (nid n)) 0 = leaves n @ concat (map leaves ns)"
    using leaf_seq_level [of ?h "root t" "[]" n ns _ 0] assms l by (simp add: tree_inv_def)
  also have "\<dots> = leaves (root t)" using level_leaves [OF wf(1)] l by simp
  finally show ?thesis using f entries_leaves [OF assms] by (simp add: iterate_from_def)
qed

subsection \<open>Properties\<close>

text \<open>
  C6. Insertion refines insertion into a sorted list: on a well-formed tree it succeeds for
  every key below the sentinel (no assertion fails, no access is out of bounds), keeps the
  invariant and puts the new entry in front of the entries whose key is not smaller.
\<close>

theorem Tree_insert_refines:
  assumes "tree_inv t" "k < sentinel"
  shows "\<exists>t'. Tree_insert k a t = Some t' \<and> tree_inv t' \<and> sorted (map fst (entries t')) \<and>
    entries t' = takeWhile (\<lambda>e. fst e < k) (entries t) @ (k, a) # dropWhile (\<lambda>e. fst e < k) (entries t)"
  using mt.ins_law [OF assms, of a] mt.items_sorted by (fastforce simp: ins_at_def)

theorem Tree_insert_refines_witness:
  "\<exists>t'. Tree_insert (Key_of KFS_FATTR 5 0) 7 new_Tree = Some t' \<and> tree_inv t' \<and> entries t' = [(Key_of KFS_FATTR 5 0, 7)]"
  using Tree_insert_refines [OF new_Tree_inv, of "Key_of KFS_FATTR 5 0" 7] Key_below_sentinel [of KFS_FATTR 5 0]
  by (auto simp: entries_new_Tree)

text \<open>
  C3. Deletion refines deletion from a sorted list: on a well-formed tree of at most 16
  levels it returns, keeps the invariant, reports the metadata of the first entry with the
  key that matches and removes exactly that entry; without a match it changes nothing.
\<close>

theorem Tree_del_refines:
  assumes "tree_inv t" "hgt t \<le> 16" "k < sentinel"
  shows "\<exists>t'. Tree_del k match t = Some (map_option snd (find (\<lambda>e. fst e = k \<and> match (snd e)) (entries t)), t') \<and>
    tree_inv t' \<and> hgt t' \<le> 16 \<and> entries t' = del_first (\<lambda>e. fst e = k \<and> match (snd e)) (entries t)"
  using mt.del_law [OF assms, of match] by (simp add: matches_def [abs_def])

theorem Tree_del_refines_witness:
  "\<exists>t t'. Tree_insert (Key_of KFS_FATTR 5 0) 7 new_Tree = Some t \<and>
    Tree_del (Key_of KFS_FATTR 5 0) (\<lambda>a. a = 7) t = Some (Some 7, t') \<and> tree_inv t' \<and> entries t' = []"
proof -
  let ?k = "Key_of KFS_FATTR 5 0"
  have k: "?k < sentinel" by (rule Key_below_sentinel) simp
  obtain t where t: "Tree_insert ?k 7 new_Tree = Some t" "tree_inv t" "entries t = [(?k, 7)]"
    using mt.ins_law [OF new_Tree_inv k, of 7] by (auto simp: entries_new_Tree ins_at_def)
  have "hgt t = 1"
    using t(1) by (auto simp: Tree_insert_def new_Tree_def isfull_def tree_consts Let_def split: bind_splits)
  then show ?thesis using Tree_del_refines [OF t(2) _ k, of "\<lambda>a. a = 7"] t(1,3) by (auto simp: del_first_def)
qed

text \<open>
  C17. Every tree a sequence of insertions and deletions reaches from the empty tree is
  well-formed and holds exactly the entries the same operations leave in a sorted list, and
  it is never stuck: every further insertion, and every deletion as long as the tree has at
  most 16 levels, returns.
\<close>

theorem tree_reach_simulates:
  assumes "tree_reach es t"
  shows "tree_inv t \<and> entries t = es \<and> sorted (map fst es) \<and>
    (\<forall>k a. k < sentinel \<longrightarrow> Tree_insert k a t \<noteq> None) \<and>
    (hgt t \<le> 16 \<longrightarrow> (\<forall>k match. k < sentinel \<longrightarrow> Tree_del k match t \<noteq> None))"
  using tree_reach_inv [OF assms] mt.items_sorted mt.ins_law [of t] mt.del_law [of t] by (metis option.distinct(1))

theorem tree_reach_simulates_witness: "Tree_insert (Key_of KFS_DENTRY 2 32) 9 new_Tree \<noteq> None"
  using tree_reach_simulates [OF tree_reach.init] Key_below_sentinel [of KFS_DENTRY 2 32] by simp

text \<open>
  C26. In every reachable tree every node has at least one and at most 32 children, and every
  level-1 node other than the root at least 15: the arrays of a node are never overrun.
\<close>

theorem tree_node_bounds:
  assumes "tree_reach es t" "n \<in> set (nodes (root t))"
  shows "1 \<le> children n \<and> children n \<le> 32 \<and> (hasleaves n \<and> n \<noteq> root t \<longrightarrow> 15 \<le> children n)"
  using tree_inv_nodes [of t n] tree_reach_inv [OF assms(1)] assms(2) by (auto simp: NKEY_def)

theorem tree_node_bounds_witness: "1 \<le> children (root new_Tree) \<and> children (root new_Tree) \<le> 32"
  using tree_node_bounds [OF tree_reach.init, of "root new_Tree"] by (simp add: new_Tree_def)

text \<open>
  C27. Searching by type and identifier finds exactly the matching metadata, in the order of
  the keys: on a tree that holds keys of the name space, the items \<open>extractAll\<close> collects for
  a partial match are those of all entries the partial match equals.
\<close>

theorem extractAll_by_id:
  assumes "tree_inv t" "keys_ok (entries t)" "T \<in> {KFS_FATTR, KFS_CHUNKINFO, KFS_DENTRY}"
  shows "extractAll (pm_greater (PartialMatch_of T d)) (pm_eq (PartialMatch_of T d)) t =
    map snd (filter (\<lambda>e. pm_eq (PartialMatch_of T d) (fst e)) (entries t))"
  using all_by_pm assms by (simp add: ns_types_def)

theorem extractAll_by_id_witness:
  "\<exists>t. Tree_insert (Key_of KFS_DENTRY 2 32) 9 new_Tree = Some t \<and>
    extractAll (pm_greater (PartialMatch_of KFS_DENTRY 2)) (pm_eq (PartialMatch_of KFS_DENTRY 2)) t = [9]"
proof -
  let ?k = "Key_of KFS_DENTRY 2 32"
  have k: "?k < sentinel" by (rule Key_below_sentinel) simp
  obtain t where t: "Tree_insert ?k 9 new_Tree = Some t" "tree_inv t" "entries t = [(?k, 9)]"
    using mt.ins_law [OF new_Tree_inv k, of 9] by (auto simp: entries_new_Tree ins_at_def)
  have "keys_ok (entries t)"
    unfolding t(3) keys_ok_def ns_key_def by (auto simp: Key_of_eq ns_types_def intro!: exI [of _ KFS_DENTRY] exI [of _ 2] exI [of _ 32])
  from extractAll_by_id [OF t(2) this, of KFS_DENTRY 2] t(1,3) show ?thesis by (auto simp: pm_eq_iff)
qed

text \<open>
  C28. Iterating over the level-1 nodes from the first one by their \<open>next\<close> pointers visits
  every entry of the tree once, in order, and ends at the sentinel.
\<close>

theorem iterate_all_entries:
  assumes "tree_reach es t"
  shows "iterate_from t (first t, 0) = es @ [(sentinel, 0)]"
  using iterate_first tree_reach_inv [OF assms] by simp

theorem iterate_all_entries_witness: "iterate_from new_Tree (first new_Tree, 0) = [(sentinel, 0)]"
  using iterate_all_entries [OF tree_reach.init] by simp

end
