(* ===== verification/MetaTypes.thy ===== *)
theory MetaTypes
  imports MetaTreeIndex "HOL-Library.Signed_Division"
begin

text \<open>
  Types of the metaserver (meta.h, common/kfstypes.h, common/kfsdecls.h): file attributes
  with their bit fields, permissions, directory entries, chunk descriptions, the unique id
  generator, and the name hash (common/hsieh\_hash.cc) that orders directory entries.
  Sizes and offsets are integers; identifiers are 64-bit words.
\<close>

subsection \<open>Constants\<close>

type_synonym fid_t = u64
type_synonym chunkId_t = u64
type_synonym kfsUid_t = u32
type_synonym kfsGid_t = u32
type_synonym kfsMode_t = u16

definition ROOTFID :: fid_t where
  "ROOTFID = 2"

definition CHUNKSIZE :: int where
  "CHUNKSIZE = 64 * 2 ^ 20"

definition kKfsUserRoot :: kfsUid_t where
  "kKfsUserRoot = 0"

definition kKfsUserNone :: kfsUid_t where
  "kKfsUserNone = NOT 0"

definition kKfsGroupRoot :: kfsGid_t where
  "kKfsGroupRoot = 0"

definition kKfsGroupNone :: kfsGid_t where
  "kKfsGroupNone = NOT 0"

definition kKfsModeUndef :: kfsMode_t where
  "kKfsModeUndef = NOT 0"

definition kKfsSTierMin :: int where
  "kKfsSTierMin = 0"

definition kKfsSTierMax :: int where
  "kKfsSTierMax = 15"

definition kKfsSTierUndef :: int where
  "kKfsSTierUndef = 127"

definition MAX_FILE_NAME_LENGTH :: nat where
  "MAX_FILE_NAME_LENGTH = 4 * 2 ^ 10"

datatype FileType = KFS_NONE | KFS_FILE | KFS_DIR

text \<open>\<open>StripedFileType\<close>: the enumeration ends with the count.\<close>

definition KFS_STRIPED_FILE_TYPE_UNKNOWN :: int where
  "KFS_STRIPED_FILE_TYPE_UNKNOWN = 0"

definition KFS_STRIPED_FILE_TYPE_NONE :: int where
  "KFS_STRIPED_FILE_TYPE_NONE = 1"

definition KFS_STRIPED_FILE_TYPE_COUNT :: int where
  "KFS_STRIPED_FILE_TYPE_COUNT = 4"

definition KFS_STRIPE_ALIGNMENT :: int where
  "KFS_STRIPE_ALIGNMENT = 4096"

definition KFS_MIN_STRIPE_SIZE :: int where
  "KFS_MIN_STRIPE_SIZE = KFS_STRIPE_ALIGNMENT"

definition KFS_MAX_STRIPE_SIZE :: int where
  "KFS_MAX_STRIPE_SIZE = CHUNKSIZE"

definition ValidateStripeParameters :: "int \<Rightarrow> int \<Rightarrow> int \<Rightarrow> int \<Rightarrow> bool" where
  "ValidateStripeParameters t n nr ss \<longleftrightarrow>
     t = KFS_STRIPED_FILE_TYPE_NONE \<or>
     (KFS_STRIPED_FILE_TYPE_UNKNOWN < t \<and> t < KFS_STRIPED_FILE_TYPE_COUNT \<and>
      KFS_MIN_STRIPE_SIZE \<le> ss \<and> ss \<le> KFS_MAX_STRIPE_SIZE \<and> 0 < n \<and>
      ss mod KFS_STRIPE_ALIGNMENT = 0 \<and> CHUNKSIZE mod ss = 0 \<and> 0 \<le> nr)"

text \<open>Status codes of the operations: 0 or a negated error number.\<close>

definition EPERM :: int where "EPERM = 1"
definition ENOENT :: int where "ENOENT = 2"
definition EACCES :: int where "EACCES = 13"
definition EFAULT :: int where "EFAULT = 14"
definition EBUSY :: int where "EBUSY = 16"
definition EEXIST :: int where "EEXIST = 17"
definition ENOTDIR :: int where "ENOTDIR = 20"
definition EISDIR :: int where "EISDIR = 21"
definition EINVAL :: int where "EINVAL = 22"
definition ENOTEMPTY :: int where "ENOTEMPTY = 39"

subsection \<open>The name hash\<close>

definition get16bits :: "u8 list \<Rightarrow> u32" where
  "get16bits d = push_bit 8 (ucast (d ! 1)) + ucast (d ! 0)"

fun hash_loop :: "u32 \<Rightarrow> u8 list \<Rightarrow> u32 \<times> u8 list" where
  "hash_loop hash (a # b # c # d # data) =
     (let hash = hash + get16bits [a, b];
          tmp = push_bit 11 (get16bits [c, d]) XOR hash;
          hash = push_bit 16 hash XOR tmp;
          hash = hash + drop_bit 11 hash
      in hash_loop hash data)"
| "hash_loop hash data = (hash, data)"

text \<open>
  The remaining one to three bytes.  Two of the accesses read a plain \<open>char\<close>, which is
  signed on the supported platforms.
\<close>

fun hash_end :: "u32 \<Rightarrow> u8 list \<Rightarrow> u32" where
  "hash_end hash [a, b, c] =
     (let hash = hash + get16bits [a, b];
          hash = hash XOR push_bit 16 hash;
          hash = hash XOR push_bit 18 (scast c)
      in hash + drop_bit 11 hash)"
| "hash_end hash [a, b] =
     (let hash = hash + get16bits [a, b];
          hash = hash XOR push_bit 11 hash
      in hash + drop_bit 17 hash)"
| "hash_end hash [a] =
     (let hash = hash + scast a;
          hash = hash XOR push_bit 10 hash
      in hash + drop_bit 1 hash)"
| "hash_end hash data = hash"

definition avalanche :: "u32 \<Rightarrow> u32" where
  "avalanche hash =
     (let hash = hash XOR push_bit 3 hash;
          hash = hash + drop_bit 5 hash;
          hash = hash XOR push_bit 4 hash;
          hash = hash + drop_bit 17 hash;
          hash = hash XOR push_bit 25 hash
      in hash + drop_bit 6 hash)"

definition SuperFastHash :: "u8 list \<Rightarrow> u32" where
  "SuperFastHash data =
     (if data = [] then 0
      else let (hash, rest) = hash_loop (of_nat (length data)) data
           in avalanche (hash_end hash rest))"

definition Hsieh_hash_fcn :: "string \<Rightarrow> u64" where
  "Hsieh_hash_fcn name = ucast (SuperFastHash (map (\<lambda>c. of_nat (of_char c)) name))"

definition nameHash :: "string \<Rightarrow> u64" where
  "nameHash name = push_bit 4 (Hsieh_hash_fcn name)"

subsection \<open>Unique identifiers\<close>

text \<open>\<open>UniqueID::genid\<close>: the new identifier is the new seed.\<close>

definition genid :: "u64 \<Rightarrow> u64 \<times> u64" where
  "genid seed = (let seed = seed + 1 in (seed, seed))"


subsection \<open>Permissions\<close>

record Permissions =
  user :: kfsUid_t
  group :: kfsGid_t
  mode :: kfsMode_t

definition kExec :: kfsMode_t where
  "kExec = 1"

definition kWrite :: kfsMode_t where
  "kWrite = 2"

definition kRead :: kfsMode_t where
  "kRead = 4"

definition kStickyBit :: kfsMode_t where
  "kStickyBit = push_bit 9 1"

text \<open>Group membership (\<open>UserAndGroup\<close>): the pairs of user and group.\<close>

type_synonym groups = "(kfsUid_t \<times> kfsGid_t) list"

definition IsGroupMember :: "groups \<Rightarrow> kfsUid_t \<Rightarrow> kfsGid_t \<Rightarrow> bool" where
  "IsGroupMember gs u g \<longleftrightarrow> (u, g) \<in> set gs"

definition GetPermissions :: "groups \<Rightarrow> 'a Permissions_scheme \<Rightarrow> kfsUid_t \<Rightarrow> kfsGid_t \<Rightarrow> kfsMode_t" where
  "GetPermissions gs p euser egroup =
     (if user p = euser then drop_bit 6 (mode p) AND 7
      else if group p = egroup \<or> IsGroupMember gs euser (group p) then drop_bit 3 (mode p) AND 7
      else mode p AND 7)"

definition Access :: "groups \<Rightarrow> 'a Permissions_scheme \<Rightarrow> kfsUid_t \<Rightarrow> kfsGid_t \<Rightarrow> kfsMode_t \<Rightarrow> bool" where
  "Access gs p euser egroup perm \<longleftrightarrow> euser = kKfsUserRoot \<or> GetPermissions gs p euser egroup AND perm \<noteq> 0"

definition CanWrite :: "groups \<Rightarrow> 'a Permissions_scheme \<Rightarrow> kfsUid_t \<Rightarrow> kfsGid_t \<Rightarrow> bool" where
  "CanWrite gs p euser egroup = Access gs p euser egroup kWrite"

definition CanRead :: "groups \<Rightarrow> 'a Permissions_scheme \<Rightarrow> kfsUid_t \<Rightarrow> kfsGid_t \<Rightarrow> bool" where
  "CanRead gs p euser egroup = Access gs p euser egroup kRead"

definition CanSearch :: "groups \<Rightarrow> 'a Permissions_scheme \<Rightarrow> kfsUid_t \<Rightarrow> kfsGid_t \<Rightarrow> bool" where
  "CanSearch gs p euser egroup = Access gs p euser egroup kExec"

definition IsSticky :: "'a Permissions_scheme \<Rightarrow> bool" where
  "IsSticky p \<longleftrightarrow> mode p \<noteq> kKfsModeUndef \<and> mode p AND kStickyBit \<noteq> 0"

definition SetSticky :: "bool \<Rightarrow> 'a Permissions_scheme \<Rightarrow> 'a Permissions_scheme" where
  "SetSticky flag p =
     (if flag then p\<lparr>mode := mode p OR kStickyBit\<rparr> else p\<lparr>mode := mode p AND NOT kStickyBit\<rparr>)"

definition IsAnyPermissionDefined :: "'a Permissions_scheme \<Rightarrow> bool" where
  "IsAnyPermissionDefined p \<longleftrightarrow> mode p \<noteq> kKfsModeUndef \<or> user p \<noteq> kKfsUserNone \<or> group p \<noteq> kKfsGroupNone"

definition IsPermissionValid :: "'a Permissions_scheme \<Rightarrow> bool" where
  "IsPermissionValid p \<longleftrightarrow> mode p \<noteq> kKfsModeUndef \<and> user p \<noteq> kKfsUserNone \<and> group p \<noteq> kKfsGroupNone"

subsection \<open>File attributes\<close>

text \<open>
  \<open>BaseFattr\<close>, \<open>PermissionsT\<close> and \<open>MetaFattr\<close> in one record.  The bit fields are natural
  numbers below the power of two of their width: 14 bits for \<open>numReplicas\<close>, 7 for
  \<open>numRecoveryStripes\<close>, 9 for \<open>numStripes\<close> and 27 for \<open>stripeSize\<close>.  The parent pointer is
  an address, 0 the null pointer.
\<close>

record MetaFattr = Permissions +
  fa_id :: fid_t
  fa_type :: FileType
  striperType :: int
  numReplicas :: nat
  numRecoveryStripes :: nat
  numStripes :: nat
  stripeSize :: nat
  mtime :: int
  ctime :: int
  crtime :: int
  subcount1 :: int
  subcount2 :: int
  filesize :: int
  minSTier :: int
  maxSTier :: int
  parent :: addr

text \<open>Storing an integer in an unsigned bit field.\<close>

definition bits :: "nat \<Rightarrow> int \<Rightarrow> nat" where
  "bits w x = nat (x mod 2 ^ w)"

definition new_MetaFattr :: "int \<Rightarrow> FileType \<Rightarrow> fid_t \<Rightarrow> int \<Rightarrow> kfsUid_t \<Rightarrow> kfsGid_t \<Rightarrow> kfsMode_t \<Rightarrow> MetaFattr" where
  "new_MetaFattr now t i n u g m =
     \<lparr>user = u, group = g, mode = m, fa_id = i, fa_type = t, striperType = KFS_STRIPED_FILE_TYPE_NONE,
      numReplicas = bits 14 n, numRecoveryStripes = 0, numStripes = 0, stripeSize = 0,
      mtime = now, ctime = now, crtime = now, subcount1 = 0, subcount2 = 0, filesize = 0,
      minSTier = kKfsSTierMax, maxSTier = kKfsSTierMax, parent = 0\<rparr>"

definition IsStriped :: "MetaFattr \<Rightarrow> bool" where
  "IsStriped fa \<longleftrightarrow> striperType fa \<noteq> KFS_STRIPED_FILE_TYPE_NONE"

definition HasRecovery :: "MetaFattr \<Rightarrow> bool" where
  "HasRecovery fa \<longleftrightarrow> IsStriped fa \<and> numRecoveryStripes fa > 0"

text \<open>Division of signed integers rounds towards zero.\<close>

definition ChunkPosToChunkBlkIndex :: "MetaFattr \<Rightarrow> int \<Rightarrow> int" where
  "ChunkPosToChunkBlkIndex fa off =
     (let idx = off sdiv CHUNKSIZE
      in if numStripes fa = 0 then idx else idx sdiv int (numStripes fa + numRecoveryStripes fa))"

definition FilePosToChunkBlkIndex :: "MetaFattr \<Rightarrow> int \<Rightarrow> int" where
  "FilePosToChunkBlkIndex fa off =
     (let idx = off sdiv CHUNKSIZE
      in if numStripes fa = 0 then idx else idx sdiv int (numStripes fa))"

definition ChunkBlkSize :: "MetaFattr \<Rightarrow> int" where
  "ChunkBlkSize fa = CHUNKSIZE * (if numStripes fa = 0 then 1 else int (numStripes fa + numRecoveryStripes fa))"

definition ChunkPosToChunkBlkStartPos :: "MetaFattr \<Rightarrow> int \<Rightarrow> int" where
  "ChunkPosToChunkBlkStartPos fa off = ChunkPosToChunkBlkIndex fa off * ChunkBlkSize fa"

definition ChunkPosToChunkBlkFileStartPos :: "MetaFattr \<Rightarrow> int \<Rightarrow> int" where
  "ChunkPosToChunkBlkFileStartPos fa off = ChunkPosToChunkBlkIndex fa off * CHUNKSIZE * int (numStripes fa)"

definition LastChunkBlkIndex :: "MetaFattr \<Rightarrow> int" where
  "LastChunkBlkIndex fa = ChunkPosToChunkBlkIndex fa (subcount2 fa - 1)"

text \<open>\<open>SetStriped\<close> checks after each assignment that the bit field holds the value.\<close>

definition SetStriped :: "int \<Rightarrow> int \<Rightarrow> int \<Rightarrow> int \<Rightarrow> MetaFattr \<Rightarrow> bool \<times> MetaFattr" where
  "SetStriped t n nr ss fa =
     (if t = KFS_STRIPED_FILE_TYPE_NONE then
        (True, fa\<lparr>striperType := KFS_STRIPED_FILE_TYPE_NONE, numStripes := 0, numRecoveryStripes := 0, stripeSize := 0\<rparr>)
      else if \<not> ValidateStripeParameters t n nr ss then (False, fa)
      else
        let fa = fa\<lparr>striperType := t, numStripes := bits 9 n\<rparr> in
        if numStripes fa \<noteq> bits 32 n then (False, fa) else
        let fa = fa\<lparr>numRecoveryStripes := bits 7 nr\<rparr> in
        if numRecoveryStripes fa \<noteq> bits 32 nr then (False, fa) else
        let fa = fa\<lparr>stripeSize := bits 27 ss\<rparr> in
        if stripeSize fa \<noteq> bits 32 ss then (False, fa) else (True, fa))"

definition setReplication :: "int \<Rightarrow> MetaFattr \<Rightarrow> MetaFattr" where
  "setReplication v fa = fa\<lparr>numReplicas := bits 14 v\<rparr>"

text \<open>A negative \<open>filesize\<close> keeps the last known size of a file whose size is not known.\<close>

definition getFileSize :: "MetaFattr \<Rightarrow> int" where
  "getFileSize fa = (if filesize fa \<ge> 0 then filesize fa else - 1 - filesize fa)"

definition invalidateFileSize :: "MetaFattr \<Rightarrow> MetaFattr" where
  "invalidateFileSize fa = fa\<lparr>filesize := - (filesize fa + 1)\<rparr>"

definition chunkStartOffset :: "int \<Rightarrow> int" where
  "chunkStartOffset off = off div CHUNKSIZE * CHUNKSIZE"

subsection \<open>Directory entries and chunks\<close>

record MetaDentry =
  d_fid :: fid_t
  d_dir :: fid_t
  d_hash :: u64
  d_fattr :: addr
  d_name :: string

definition new_MetaDentry :: "fid_t \<Rightarrow> string \<Rightarrow> fid_t \<Rightarrow> addr \<Rightarrow> MetaDentry" where
  "new_MetaDentry dir fname myID fa =
     \<lparr>d_fid = myID, d_dir = dir, d_hash = nameHash fname, d_fattr = fa, d_name = fname\<rparr>"

record MetaChunkInfo =
  c_fattr :: addr
  c_offset :: int
  c_chunkId :: chunkId_t
  c_chunkVersion :: int

datatype Meta = MFattr MetaFattr | MDentry MetaDentry | MChunk MetaChunkInfo

end
