(* ===== verification/MetaStore.thy ===== *)
theory MetaStore
  imports MetaTypes
begin

text \<open>
  The state of the name space and the primitive operations on it.  Metadata objects live in
  an explicit store of addresses; the tree holds keys and addresses.  The layout manager
  appears with the part of its state that the name space operations change: the chunk map
  and the pending change of a chunk's owner.  A panic, a failed \<open>assert\<close> or the use of a null
  or dangling pointer gives \<open>None\<close>.
\<close>

subsection \<open>State\<close>

record PathToFidCacheEntry =
  ce_fid :: fid_t
  ce_fa :: addr
  ce_lastAccessTime :: int

text \<open>
  \<open>clock\<close> is the time in microseconds, \<open>seconds\<close> the network manager's clock; \<open>leaseIssued\<close>
  tells for which chunks the layout manager has a valid write lease.  The last three fields
  record calls into the layout manager: the chunks the chunk servers were told to delete, the
  chunks whose replication is to be checked, the files whose recovery is to be updated.
\<close>

record NS =
  tree :: Tree
  objs :: "addr \<Rightarrow> Meta option"
  nextAddr :: addr
  fileID :: u64
  chunkID :: u64
  csmap :: "chunkId_t \<Rightarrow> addr option"
  chunkEntryToChange :: addr
  fattrToChangeTo :: addr
  pathCache :: "(string \<times> PathToFidCacheEntry) list"
  lastCacheCleanup :: int
  allowFidToPathConversion :: bool
  isPathToFidCacheEnabled :: bool
  updatePathSpaceUsage :: bool
  numFiles :: int
  numDirs :: int
  numChunks :: int
  clock :: int
  seconds :: int
  members :: groups
  leaseIssued :: "chunkId_t \<Rightarrow> bool"
  deleteRPCs :: "chunkId_t list"
  replicationChecks :: "chunkId_t list"
  recoveryUpdates :: "fid_t list"

text \<open>A fresh address for a new object.\<close>

definition alloc :: "Meta \<Rightarrow> NS \<Rightarrow> addr \<times> NS" where
  "alloc m s = (let a = nextAddr s in (a, s\<lparr>objs := (objs s)(a \<mapsto> m), nextAddr := Suc a\<rparr>))"

definition fattr_at :: "NS \<Rightarrow> addr \<Rightarrow> MetaFattr option" where
  "fattr_at s a = (case objs s a of Some (MFattr f) \<Rightarrow> Some f | _ \<Rightarrow> None)"

definition dentry_at :: "NS \<Rightarrow> addr \<Rightarrow> MetaDentry option" where
  "dentry_at s a = (case objs s a of Some (MDentry d) \<Rightarrow> Some d | _ \<Rightarrow> None)"

definition chunk_at :: "NS \<Rightarrow> addr \<Rightarrow> MetaChunkInfo option" where
  "chunk_at s a = (case objs s a of Some (MChunk c) \<Rightarrow> Some c | _ \<Rightarrow> None)"

definition upd_fattr :: "addr \<Rightarrow> (MetaFattr \<Rightarrow> MetaFattr) \<Rightarrow> NS \<Rightarrow> NS option" where
  "upd_fattr a f s = do { fa \<leftarrow> fattr_at s a; Some (s\<lparr>objs := (objs s)(a \<mapsto> MFattr (f fa))\<rparr>) }"

definition upd_chunk :: "addr \<Rightarrow> (MetaChunkInfo \<Rightarrow> MetaChunkInfo) \<Rightarrow> NS \<Rightarrow> NS option" where
  "upd_chunk a f s = do { c \<leftarrow> chunk_at s a; Some (s\<lparr>objs := (objs s)(a \<mapsto> MChunk (f c))\<rparr>) }"

definition upd_dentry :: "addr \<Rightarrow> (MetaDentry \<Rightarrow> MetaDentry) \<Rightarrow> NS \<Rightarrow> NS option" where
  "upd_dentry a f s = do { d \<leftarrow> dentry_at s a; Some (s\<lparr>objs := (objs s)(a \<mapsto> MDentry (f d))\<rparr>) }"

subsection \<open>Keys and matching\<close>

definition fattr_key :: "fid_t \<Rightarrow> Key" where
  "fattr_key i = Key_of KFS_FATTR i 0"

definition dentry_key :: "fid_t \<Rightarrow> u64 \<Rightarrow> Key" where
  "dentry_key dir hash = Key_of KFS_DENTRY dir hash"

definition chunk_key :: "fid_t \<Rightarrow> int \<Rightarrow> Key" where
  "chunk_key i off = Key_of KFS_CHUNKINFO i (word_of_int off)"

text \<open>\<open>MetaNode::key\<close>; the key of a chunk needs the attributes of its file.\<close>

fun meta_key :: "NS \<Rightarrow> Meta \<Rightarrow> Key option" where
  "meta_key s (MFattr f) = Some (fattr_key (fa_id f))"
| "meta_key s (MDentry d) = Some (dentry_key (d_dir d) (d_hash d))"
| "meta_key s (MChunk c) = do { f \<leftarrow> fattr_at s (c_fattr c); Some (chunk_key (fa_id f) (c_offset c)) }"

definition chunk_fid :: "NS \<Rightarrow> MetaChunkInfo \<Rightarrow> fid_t option" where
  "chunk_fid s c = map_option fa_id (fattr_at s (c_fattr c))"

text \<open>\<open>Meta::match\<close> and the \<open>matchSelf\<close> of the three kinds of metadata.\<close>

fun meta_match :: "NS \<Rightarrow> Meta \<Rightarrow> addr \<Rightarrow> bool" where
  "meta_match s (MFattr f) test = (case objs s test of Some (MFattr f') \<Rightarrow> fa_id f = fa_id f' | _ \<Rightarrow> False)"
| "meta_match s (MDentry d) test =
     (case objs s test of Some (MDentry d') \<Rightarrow> d_hash d = d_hash d' \<and> d_name d' = d_name d | _ \<Rightarrow> False)"
| "meta_match s (MChunk c) test =
     (case objs s test of Some (MChunk c') \<Rightarrow> chunk_fid s c = chunk_fid s c' | _ \<Rightarrow> False)"

subsection \<open>Destroying metadata\<close>

text \<open>
  \<open>LayoutManager::DeleteChunk(CSMap::Entry\&)\<close>: an entry that is about to change its owner
  stays, all others leave the chunk map and the chunk servers are told.
\<close>

definition DeleteChunk_entry :: "addr \<Rightarrow> MetaChunkInfo \<Rightarrow> NS \<Rightarrow> NS option" where
  "DeleteChunk_entry a c s =
     (if chunkEntryToChange s = a then
        if fattrToChangeTo s = 0 then None
        else Some (s\<lparr>objs := (objs s)(a \<mapsto> MChunk (c\<lparr>c_fattr := fattrToChangeTo s\<rparr>)),
                     chunkEntryToChange := 0, fattrToChangeTo := 0\<rparr>)
      else Some (s\<lparr>objs := (objs s)(a := None), csmap := (csmap s)(c_chunkId c := None),
                   leaseIssued := (leaseIssued s)(c_chunkId c := False), deleteRPCs := deleteRPCs s @ [c_chunkId c]\<rparr>))"

definition meta_destroy :: "addr \<Rightarrow> NS \<Rightarrow> NS option" where
  "meta_destroy a s =
     (case objs s a of
        None \<Rightarrow> None
      | Some (MChunk c) \<Rightarrow> DeleteChunk_entry a c s
      | Some _ \<Rightarrow> Some (s\<lparr>objs := (objs s)(a := None)\<rparr>))"

subsection \<open>Insertion and deletion\<close>

definition insert_meta :: "addr \<Rightarrow> NS \<Rightarrow> NS option" where
  "insert_meta a s =
     do { m \<leftarrow> objs s a;
          k \<leftarrow> meta_key s m;
          t \<leftarrow> Tree_insert k a (tree s);
          Some (s\<lparr>tree := t\<rparr>) }"

text \<open>
  \<open>Tree::del\<close>: the status is 0 when an item was removed and destroyed.  The sentinel's null
  pointer is never tested, its key is no key of metadata.
\<close>

definition del_meta :: "Meta \<Rightarrow> NS \<Rightarrow> (int \<times> NS) option" where
  "del_meta m s =
     do { k \<leftarrow> meta_key s m;
          (r, t) \<leftarrow> Tree_del k (meta_match s m) (tree s);
          case r of
            None \<Rightarrow> Some (- 1, s\<lparr>tree := t\<rparr>)
          | Some a \<Rightarrow> do { s' \<leftarrow> meta_destroy a (s\<lparr>tree := t\<rparr>); Some (0, s') } }"

subsection \<open>Iterators\<close>

text \<open>
  A \<open>LeafIter\<close> is a level-1 node, or none, and an index; \<open>it_list\<close> are the entries it visits.
\<close>

type_synonym LeafIter = "nat option \<times> nat"

definition it_list :: "Tree \<Rightarrow> LeafIter \<Rightarrow> (Key \<times> addr) list" where
  "it_list t it = leaf_seq (length (nodes (root t))) (root t) (fst it) (snd it)"

definition it_next :: "Tree \<Rightarrow> LeafIter \<Rightarrow> LeafIter" where
  "it_next t it =
     (case fst it of
        None \<Rightarrow> it
      | Some i \<Rightarrow>
          (case get_node (root t) i of
             None \<Rightarrow> (None, 0)
           | Some n \<Rightarrow> if Suc (snd it) = children n then (nxt n, 0) else (Some i, Suc (snd it))))"

definition it_of :: "(nat \<times> nat) option \<Rightarrow> LeafIter" where
  "it_of p = (case p of None \<Rightarrow> (None, 0) | Some (n, i) \<Rightarrow> (Some n, i))"

text \<open>The iterators that \<open>findLeaf\<close> and \<open>lowerBound\<close> return.\<close>

definition find_key :: "Key \<Rightarrow> Tree \<Rightarrow> LeafIter" where
  "find_key k t = it_of (findLeaf (\<lambda>x. x < k) (\<lambda>x. x = k) t)"

definition find_pm :: "PartialMatch \<Rightarrow> Tree \<Rightarrow> LeafIter" where
  "find_pm p t = it_of (findLeaf (pm_greater p) (pm_eq p) t)"

definition lower_bound_key :: "Key \<Rightarrow> Tree \<Rightarrow> LeafIter" where
  "lower_bound_key k t = it_of (lowerBound (\<lambda>x. x < k) (root t))"

text \<open>The metadata visited while the key is equal.\<close>

definition all_pm :: "PartialMatch \<Rightarrow> Tree \<Rightarrow> addr list" where
  "all_pm p t = map snd (takeWhile (\<lambda>e. pm_eq p (fst e)) (it_list t (find_pm p t)))"

definition all_key :: "Key \<Rightarrow> Tree \<Rightarrow> addr list" where
  "all_key k t = map snd (takeWhile (\<lambda>e. fst e = k) (it_list t (find_key k t)))"

subsection \<open>\<open>getFattr\<close> and \<open>getDentry\<close>\<close>

definition getFattr :: "NS \<Rightarrow> fid_t \<Rightarrow> addr" where
  "getFattr s i =
     (case it_list (tree s) (find_key (fattr_key i) (tree s)) of [] \<Rightarrow> 0 | e # _ \<Rightarrow> snd e)"

text \<open>The loop of \<open>getDentry\<close> over the entries with the key.\<close>

fun find_name :: "NS \<Rightarrow> u64 \<Rightarrow> string \<Rightarrow> addr list \<Rightarrow> addr option" where
  "find_name s hash fname [] = Some 0"
| "find_name s hash fname (a # as) =
     do { de \<leftarrow> dentry_at s a;
          if d_hash de = hash \<and> d_name de = fname then Some a else find_name s hash fname as }"

definition getDentry :: "NS \<Rightarrow> fid_t \<Rightarrow> string \<Rightarrow> addr option" where
  "getDentry s dir fname =
     (let hash = nameHash fname in find_name s hash fname (all_key (dentry_key dir hash) (tree s)))"

end
