(* ===== verification/NsDirs.thy ===== *)
theory NsDirs
  imports MetaStore "HOL-Library.List_Lexorder" "HOL-Library.Char_ord"
begin

text \<open>
  Name space operations of the metaserver (kfsops.cc), first part: lookup, links, path names
  and the path cache, reading, creating and removing directories.  Every operation returns its status (0 or a negated error
  number), its out parameters and the new state.
\<close>

subsection \<open>Names and access\<close>

definition kParentDir :: string where
  "kParentDir = ''..''"

definition kThisDir :: string where
  "kThisDir = ''.''"

definition DUMPSTERDIR :: string where
  "DUMPSTERDIR = ''dumpster''"

definition IsDeleteRestricted :: "MetaFattr \<Rightarrow> MetaFattr \<Rightarrow> kfsUid_t \<Rightarrow> bool" where
  "IsDeleteRestricted par fa euser \<longleftrightarrow>
     euser \<noteq> kKfsUserRoot \<and> IsSticky par \<and> (user par \<noteq> euser \<and> user fa \<noteq> euser)"

definition newline :: char where
  "newline = CHR 0x0A"

definition legalname :: "string \<Rightarrow> bool" where
  "legalname name \<longleftrightarrow>
     0 < length name \<and> length name \<le> MAX_FILE_NAME_LENGTH \<and>
     list_all (\<lambda>c. c \<noteq> CHR ''/'' \<and> c \<noteq> newline) name"

text \<open>The character at a position; the position after the end holds the null character.\<close>

definition char_at :: "string \<Rightarrow> nat \<Rightarrow> char" where
  "char_at s i = (if i < length s then s ! i else CHR 0x00)"

definition absolute :: "string \<Rightarrow> bool" where
  "absolute path \<longleftrightarrow> char_at path 0 = CHR ''/''"

text \<open>Whether access is granted, and the parent directory (0 when it was not asked for).\<close>

definition canAccess :: "NS \<Rightarrow> fid_t \<Rightarrow> addr \<Rightarrow> kfsUid_t \<Rightarrow> kfsGid_t \<Rightarrow> bool \<Rightarrow> (bool \<times> addr) option" where
  "canAccess s dir a euser egroup outParent =
     (if euser = kKfsUserRoot \<and> \<not> outParent then Some (True, 0)
      else do { fa \<leftarrow> fattr_at s a;
                let par = (if parent fa \<noteq> 0 then parent fa
                           else if dir = ROOTFID then a else getFattr s dir);
                p \<leftarrow> (if par = 0 then None else fattr_at s par);
                Some (euser = kKfsUserRoot \<or> CanSearch (members s) p euser egroup,
                      if outParent then par else 0) })"

text \<open>The status, the attributes, the parent directory and the directory entry.\<close>

definition lookup :: "NS \<Rightarrow> fid_t \<Rightarrow> string \<Rightarrow> kfsUid_t \<Rightarrow> kfsGid_t \<Rightarrow> bool \<Rightarrow>
    (int \<times> addr \<times> addr \<times> addr) option" where
  "lookup s dir fname euser egroup outParent =
     do { d \<leftarrow> getDentry s dir fname;
          if d = 0 then Some (- ENOENT, 0, 0, 0)
          else do { de \<leftarrow> dentry_at s d;
                    let fa = (if d_fattr de \<noteq> 0 then d_fattr de else getFattr s (d_fid de));
                    (if fa = 0 then None
                     else do { (ok, par) \<leftarrow> canAccess s dir fa euser egroup outParent;
                               Some (if ok then (0, fa, par, d) else (- EACCES, 0, par, d)) }) } }"

subsection \<open>Space accounting\<close>

text \<open>The loop of \<open>updateCounts\<close> up the chain of parent pointers.\<close>

partial_function (option) updateCounts_loop :: "addr \<Rightarrow> int \<Rightarrow> int \<Rightarrow> int \<Rightarrow> NS \<Rightarrow> NS option" where
  "updateCounts_loop a nbytes nfiles ndirs s =
     do { fa \<leftarrow> fattr_at s a;
          if parent fa = 0 then (if fa_id fa \<noteq> ROOTFID then None else Some s)
          else do { p \<leftarrow> fattr_at s (parent fa);
                    let p' = p\<lparr>filesize := filesize p + nbytes, subcount1 := subcount1 p + nfiles,
                               subcount2 := subcount2 p + ndirs\<rparr>;
                    (if fa_type p \<noteq> KFS_DIR \<or> filesize p' < 0 \<or> subcount1 p' < 0 \<or> subcount2 p' < 0 then None
                     else updateCounts_loop (parent fa) nbytes nfiles ndirs
                            (s\<lparr>objs := (objs s)(parent fa \<mapsto> MFattr p')\<rparr>)) } }"

definition updateCounts :: "addr \<Rightarrow> int \<Rightarrow> int \<Rightarrow> int \<Rightarrow> NS \<Rightarrow> NS option" where
  "updateCounts a nbytes nfiles ndirs s =
     (if a = 0 then None
      else if \<not> updatePathSpaceUsage s \<or> (nbytes = 0 \<and> nfiles = 0 \<and> ndirs = 0) then Some s
      else updateCounts_loop a nbytes nfiles ndirs s)"

definition setFileSize :: "addr \<Rightarrow> int \<Rightarrow> int \<Rightarrow> int \<Rightarrow> NS \<Rightarrow> NS option" where
  "setFileSize a sz nfiles ndirs s =
     do { fa \<leftarrow> fattr_at s a;
          if filesize fa < 0 \<and> fa_type fa \<noteq> KFS_FILE then None
          else if sz < 0 then None
          else do { s \<leftarrow> updateCounts a (sz - getFileSize fa) nfiles ndirs s;
                    upd_fattr a (filesize_update (\<lambda>_. sz)) s } }"

definition UpdateNumFiles :: "int \<Rightarrow> NS \<Rightarrow> NS" where
  "UpdateNumFiles n s = s\<lparr>numFiles := numFiles s + n\<rparr>"

definition UpdateNumDirs :: "int \<Rightarrow> NS \<Rightarrow> NS" where
  "UpdateNumDirs n s = s\<lparr>numDirs := numDirs s + n\<rparr>"

definition UpdateNumChunks :: "int \<Rightarrow> NS \<Rightarrow> NS" where
  "UpdateNumChunks n s = s\<lparr>numChunks := numChunks s + n\<rparr>"

subsection \<open>Links\<close>

type_synonym stripe_params = "int \<times> int \<times> int \<times> int"

definition no_stripes :: stripe_params where
  "no_stripes = (KFS_STRIPED_FILE_TYPE_NONE, 0, 0, 0)"

definition link :: "fid_t \<Rightarrow> string \<Rightarrow> FileType \<Rightarrow> fid_t \<Rightarrow> int \<Rightarrow> stripe_params \<Rightarrow>
    kfsUid_t \<Rightarrow> kfsGid_t \<Rightarrow> kfsMode_t \<Rightarrow> addr \<Rightarrow> NS \<Rightarrow> (int \<times> addr \<times> NS) option" where
  "link dir fname t myID nrep sp u g m par s =
     (if \<not> legalname fname then None
      else if fname \<noteq> kThisDir \<and> fname \<noteq> kParentDir then
        (case sp of (st, ns, nrs, ss) \<Rightarrow>
           let (ok, f) = SetStriped st ns nrs ss (new_MetaFattr (clock s) t myID nrep u g m) in
           if \<not> ok then Some (- EINVAL, 0, s)
           else
             let (fattr, s) = alloc (MFattr f) s;
                 (dentry, s) = alloc (MDentry (new_MetaDentry dir fname myID fattr)) s
             in do { s \<leftarrow> insert_meta dentry s;
                     if par = 0 then None
                     else do { s \<leftarrow> upd_fattr fattr (parent_update (\<lambda>_. par)) s;
                               s \<leftarrow> insert_meta fattr s;
                               Some (0, fattr, s) } })
      else
        let (dentry, s) = alloc (MDentry (new_MetaDentry dir fname myID par)) s
        in do { s \<leftarrow> insert_meta dentry s; Some (0, 0, s) })"

text \<open>\<open>unlink\<close> deletes through an entry on the stack with the same directory and name.\<close>

definition unlink :: "fid_t \<Rightarrow> string \<Rightarrow> addr \<Rightarrow> bool \<Rightarrow> NS \<Rightarrow> NS option" where
  "unlink dir fname fa save_fa s =
     do { f \<leftarrow> fattr_at s fa;
          (status, s) \<leftarrow> del_meta (MDentry (new_MetaDentry dir fname (fa_id f) 0)) s;
          if status \<noteq> 0 then None
          else if save_fa then Some s
          else do { f \<leftarrow> fattr_at s fa;
                    (status, s) \<leftarrow> del_meta (MFattr f) s;
                    if status \<noteq> 0 then None else Some s } }"

subsection \<open>Path names and the path cache\<close>

text \<open>The name of an entry of a directory other than \<open>.\<close> and \<open>..\<close> that has the given id.\<close>

fun name_of_id :: "NS \<Rightarrow> fid_t \<Rightarrow> addr list \<Rightarrow> string option option" where
  "name_of_id s i [] = Some None"
| "name_of_id s i (a # as) =
     do { de \<leftarrow> dentry_at s a;
          if d_fid de = i \<and> d_name de \<noteq> kThisDir \<and> d_name de \<noteq> kParentDir then Some (Some (d_name de))
          else name_of_id s i as }"

partial_function (option) getPathname_loop :: "NS \<Rightarrow> addr \<Rightarrow> string \<Rightarrow> string option" where
  "getPathname_loop s a path =
     do { fa \<leftarrow> fattr_at s a;
          if parent fa = 0 then (if fa_id fa \<noteq> ROOTFID then None else Some (''/'' @ path))
          else do { p \<leftarrow> fattr_at s (parent fa);
                    if fa_type p \<noteq> KFS_DIR then None
                    else
                      let es = all_pm (PartialMatch_of KFS_DENTRY (fa_id p)) (tree s) in
                      if es = [] then Some []
                      else do { n \<leftarrow> name_of_id s (fa_id fa) es;
                                getPathname_loop s (parent fa)
                                  (case n of None \<Rightarrow> path
                                   | Some name \<Rightarrow> if path = [] then name else name @ ''/'' @ path) } } }"

definition getPathname :: "NS \<Rightarrow> addr \<Rightarrow> string option" where
  "getPathname s a = (if \<not> allowFidToPathConversion s \<or> a = 0 then Some [] else getPathname_loop s a [])"

text \<open>
  The scan of the cached paths from \<open>lower\_bound(pn)\<close> on; \<open>None\<close> when more than \<open>maxScan\<close>
  paths start with \<open>pn\<close>.
\<close>

fun scan_prefix :: "nat \<Rightarrow> string \<Rightarrow> (string \<times> PathToFidCacheEntry) list \<Rightarrow>
    (string \<times> PathToFidCacheEntry) list option" where
  "scan_prefix n pn [] = Some []"
| "scan_prefix n pn ((cp, e) # cs) =
     (if take (length pn) cp \<noteq> pn then Some ((cp, e) # cs)
      else if n = 0 then None
      else scan_prefix (n - 1) pn cs)"

definition erase_prefix :: "string \<Rightarrow> (string \<times> PathToFidCacheEntry) list \<Rightarrow> (string \<times> PathToFidCacheEntry) list" where
  "erase_prefix pn c =
     (case scan_prefix (2 ^ 10) pn (dropWhile (\<lambda>e. fst e < pn) c) of
        None \<Rightarrow> []
      | Some c' \<Rightarrow> takeWhile (\<lambda>e. fst e < pn) c @ c')"

definition cache_erase :: "string \<Rightarrow> (string \<times> PathToFidCacheEntry) list \<Rightarrow> (string \<times> PathToFidCacheEntry) list" where
  "cache_erase pn c = filter (\<lambda>e. fst e \<noteq> pn) c"

text \<open>The test of the first character reads the local string, which is empty at that point.\<close>

definition invalidatePathCache :: "string \<Rightarrow> string \<Rightarrow> addr \<Rightarrow> bool \<Rightarrow> NS \<Rightarrow> NS option" where
  "invalidatePathCache pathname name a removeDirPrefixFlag s =
     (if pathCache s = [] then Some s
      else
        let pn = []; pn = (if pathname \<noteq> [] \<and> char_at pn 0 = CHR ''/'' then pathname else pn) in
        do { fa \<leftarrow> fattr_at s a;
             pn \<leftarrow> (if pn \<noteq> [] then Some pn
                     else if parent fa = 0 \<and> fa_id fa \<noteq> ROOTFID then None
                     else do { pn \<leftarrow> (if parent fa \<noteq> 0 then getPathname s (parent fa) else Some ''/'');
                               Some (if pn = [] then [] else if pn = ''/'' then pn @ name else pn @ ''/'' @ name) });
             if pn = [] then Some (s\<lparr>pathCache := []\<rparr>)
             else
               let s = s\<lparr>pathCache := cache_erase pn (pathCache s)\<rparr> in
               if \<not> removeDirPrefixFlag \<or> fa_type fa \<noteq> KFS_DIR then Some s
               else
                 let pn = (if last pn \<noteq> CHR ''/'' then pn @ ''/'' else pn)
                 in Some (s\<lparr>pathCache := erase_prefix pn (pathCache s)\<rparr>) })"

subsection \<open>Looking up a path\<close>

definition cache_find :: "string \<Rightarrow> (string \<times> PathToFidCacheEntry) list \<Rightarrow> PathToFidCacheEntry option" where
  "cache_find path c = map_of c path"

text \<open>\<open>insert\<close> of a sorted map: an existing entry stays.\<close>

fun cache_insert :: "string \<Rightarrow> PathToFidCacheEntry \<Rightarrow> (string \<times> PathToFidCacheEntry) list \<Rightarrow>
    (string \<times> PathToFidCacheEntry) list" where
  "cache_insert path e [] = [(path, e)]"
| "cache_insert path e ((p, x) # c) =
     (if path = p then (p, x) # c
      else if path < p then (path, e) # (p, x) # c
      else (p, x) # cache_insert path e c)"

definition cache_touch :: "string \<Rightarrow> int \<Rightarrow> (string \<times> PathToFidCacheEntry) list \<Rightarrow> (string \<times> PathToFidCacheEntry) list" where
  "cache_touch path now c = map (\<lambda>(p, x). (p, if p = path then x\<lparr>ce_lastAccessTime := now\<rparr> else x)) c"

definition not_slash :: "char \<Rightarrow> bool" where
  "not_slash c \<longleftrightarrow> c \<noteq> CHR ''/''"

lemma slash_rest:
  assumes "dropWhile not_slash rest \<noteq> []"
  shows "length (dropWhile (\<lambda>c. \<not> not_slash c) (dropWhile not_slash rest)) < length rest"
proof -
  obtain x xs where x: "dropWhile not_slash rest = x # xs" using assms by (cases "dropWhile not_slash rest") auto
  then have "\<not> not_slash x" using hd_dropWhile [OF assms] by simp
  then have "length (dropWhile (\<lambda>c. \<not> not_slash c) (x # xs)) \<le> length xs"
    by (simp add: length_dropWhile_le)
  moreover have "length (x # xs) \<le> length rest" unfolding x [symmetric] by (rule length_dropWhile_le)
  ultimately show ?thesis unfolding x by simp
qed

text \<open>
  The loop over the components; the string is the path from \<open>cstart\<close> on.  The result is
  either a status and attributes to return at once (\<open>Inl\<close>) or the directory, the last
  component and whether the result may be cached.
\<close>

function walk :: "NS \<Rightarrow> kfsUid_t \<Rightarrow> kfsGid_t \<Rightarrow> fid_t \<Rightarrow> bool \<Rightarrow> string \<Rightarrow>
    ((int \<times> addr) + (fid_t \<times> string \<times> bool)) option" where
  "walk s euser egroup dir usecache rest =
     (let component = takeWhile not_slash rest;
          slash = dropWhile not_slash rest;
          n = dropWhile (\<lambda>c. \<not> not_slash c) slash
      in if slash = [] then Some (Inr (dir, component, usecache))
         else do { d \<leftarrow> getDentry s dir component;
                   if d = 0 then Some (Inl (- ENOENT, 0))
                   else do { de \<leftarrow> dentry_at s d;
                             let da = (if d_fattr de \<noteq> 0 then d_fattr de else getFattr s (d_fid de));
                             (if da = 0 then None
                              else do { f \<leftarrow> fattr_at s da;
                                        if fa_type f \<noteq> KFS_DIR then Some (Inl (- ENOTDIR, 0))
                                        else if n = [] then Some (Inl (0, da))
                                        else if euser \<noteq> kKfsUserRoot \<and> \<not> CanSearch (members s) f euser egroup
                                        then Some (Inl (- EACCES, 0))
                                        else walk s euser egroup (d_fid de)
                                               (usecache \<and> length slash = Suc (length n) \<and>
                                                component \<noteq> kThisDir \<and> component \<noteq> kParentDir) n }) } })"
  by pat_completeness auto
termination
  by (relation "measure (\<lambda>(s, eu, eg, dir, uc, rest). length rest)") (use slash_rest in auto)

text \<open>The status, the attributes and the state with the changed path cache.\<close>

definition lookupPath :: "fid_t \<Rightarrow> string \<Rightarrow> kfsUid_t \<Rightarrow> kfsGid_t \<Rightarrow> NS \<Rightarrow> (int \<times> addr \<times> NS) option" where
  "lookupPath rootdir path euser egroup s =
     (if path = [] then Some (- ENOENT, 0, s)
      else
        let isabs = absolute path;
            cdir = (if rootdir = 0 \<or> isabs then ROOTFID else rootdir);
            cstart = (if isabs then dropWhile (\<lambda>c. \<not> not_slash c) path else path);
            usecache = (isPathToFidCacheEnabled s \<and> isabs \<and> length path = Suc (length cstart))
        in if cstart = [] then
             do { (status, fa, _) \<leftarrow> lookup s cdir ''/'' euser egroup False; Some (status, fa, s) }
           else
             let hit = (if usecache then cache_find path (pathCache s) else None) in
             case (case hit of None \<Rightarrow> None | Some e \<Rightarrow> if getFattr s (ce_fid e) = ce_fa e then Some e else None) of
               Some e \<Rightarrow> Some (0, ce_fa e, s\<lparr>pathCache := cache_touch path (seconds s) (pathCache s)\<rparr>)
             | None \<Rightarrow>
                 let s = (if hit = None then s else s\<lparr>pathCache := cache_erase path (pathCache s)\<rparr>) in
                 do { r \<leftarrow> walk s euser egroup cdir usecache cstart;
                      case r of
                        Inl (status, fa) \<Rightarrow> Some (status, fa, s)
                      | Inr (dir, component, usecache) \<Rightarrow>
                          do { (status, fa, _) \<leftarrow> lookup s dir component
                                 (if cdir = dir then euser else kKfsUserRoot)
                                 (if cdir = dir then egroup else kKfsGroupRoot) False;
                               if usecache \<and> status = 0 \<and> fa \<noteq> 0 \<and> isPathToFidCacheEnabled s
                               then do { f \<leftarrow> fattr_at s fa;
                                         Some (status, fa,
                                               s\<lparr>pathCache := cache_insert path
                                                    \<lparr>ce_fid = fa_id f, ce_fa = fa, ce_lastAccessTime = seconds s\<rparr>
                                                    (pathCache s)\<rparr>) }
                               else Some (status, fa, s) } })"

definition FID_CACHE_ENTRY_EXPIRE_INTERVAL :: int where
  "FID_CACHE_ENTRY_EXPIRE_INTERVAL = 600"

definition FID_CACHE_CLEANUP_INTERVAL :: int where
  "FID_CACHE_CLEANUP_INTERVAL = 600"

definition cleanupPathToFidCache :: "NS \<Rightarrow> NS" where
  "cleanupPathToFidCache s =
     (if seconds s - lastCacheCleanup s < (FID_CACHE_CLEANUP_INTERVAL + 1) div 2 then s
      else s\<lparr>lastCacheCleanup := seconds s,
             pathCache := filter (\<lambda>e. seconds s \<le> ce_lastAccessTime (snd e) + FID_CACHE_ENTRY_EXPIRE_INTERVAL)
                            (pathCache s)\<rparr>)"

subsection \<open>Reading a directory\<close>

text \<open>\<open>maxEntries\<close> entries at most, all of them when it is not positive; whether there are more.\<close>

definition take_max :: "int \<Rightarrow> 'c list \<Rightarrow> 'c list \<times> bool" where
  "take_max maxEntries es =
     (if maxEntries \<le> 0 then (es, False) else (take (nat maxEntries) es, nat maxEntries < length es))"

definition readdir :: "NS \<Rightarrow> fid_t \<Rightarrow> int \<Rightarrow> (int \<times> addr list \<times> bool) option" where
  "readdir s dir maxEntries =
     (let es = all_pm (PartialMatch_of KFS_DENTRY dir) (tree s) in
      if es = [] then Some (- ENOENT, [], False)
      else
        let (v, more) = take_max maxEntries es in
        if maxEntries \<noteq> 1 \<and> length v < 2 then None else Some (0, v, more))"

text \<open>The rest of the entries after the one with the start name, in the order of the tree.\<close>

fun after_name :: "NS \<Rightarrow> Key \<Rightarrow> u64 \<Rightarrow> string \<Rightarrow> (Key \<times> addr) list \<Rightarrow> (Key \<times> addr) list option option" where
  "after_name s key hash fname [] = Some None"
| "after_name s key hash fname ((k, a) # es) =
     (if k \<noteq> key then Some None
      else do { de \<leftarrow> dentry_at s a;
                if d_hash de = hash \<and> d_name de = fname then Some (Some es)
                else after_name s key hash fname es })"

definition readdir_from :: "NS \<Rightarrow> fid_t \<Rightarrow> string \<Rightarrow> int \<Rightarrow> (int \<times> addr list \<times> bool) option" where
  "readdir_from s dir fnameStart maxEntries =
     (let hash = nameHash fnameStart; key = dentry_key dir hash in
      do { r \<leftarrow> after_name s key hash fnameStart (it_list (tree s) (find_key key (tree s)));
           case r of
             None \<Rightarrow> Some (- ENOENT, [], False)
           | Some es \<Rightarrow>
               let (v, more) = take_max maxEntries
                     (map snd (takeWhile (\<lambda>e. pm_eq (PartialMatch_of KFS_DENTRY dir) (fst e)) es))
               in Some (0, v, more) })"

definition emptydir :: "NS \<Rightarrow> fid_t \<Rightarrow> bool" where
  "emptydir s dir =
     (let kNumEmptyDirEntries = 2;
          k = min (Suc kNumEmptyDirEntries) (length (all_pm (PartialMatch_of KFS_DENTRY dir) (tree s)))
      in k = kNumEmptyDirEntries)"

definition getalloc_all :: "NS \<Rightarrow> fid_t \<Rightarrow> addr list" where
  "getalloc_all s i = all_pm (PartialMatch_of KFS_CHUNKINFO i) (tree s)"

subsection \<open>Directories\<close>

definition mkdir :: "fid_t \<Rightarrow> string \<Rightarrow> kfsUid_t \<Rightarrow> kfsGid_t \<Rightarrow> kfsMode_t \<Rightarrow> kfsUid_t \<Rightarrow> kfsGid_t \<Rightarrow> fid_t \<Rightarrow> NS \<Rightarrow>
    (int \<times> fid_t \<times> addr \<times> NS) option" where
  "mkdir dir dname u g m euser egroup newFid s =
     (if \<not> legalname dname \<and> (dir \<noteq> ROOTFID \<or> dname \<noteq> ''/'') then Some (- EINVAL, newFid, 0, s)
      else
        let par = getFattr s dir; pf = (if par = 0 then None else fattr_at s par) in
        if par \<noteq> 0 \<and> pf = None then None
        else if (case pf of None \<Rightarrow> True | Some p \<Rightarrow> fa_type p \<noteq> KFS_DIR) \<and> (dir \<noteq> ROOTFID \<and> dname \<noteq> ''/'')
        then Some (- ENOTDIR, newFid, 0, s)
        else do { d \<leftarrow> getDentry s dir dname;
          if d \<noteq> 0 then Some (- EEXIST, newFid, 0, s)
          else if (case pf of None \<Rightarrow> False | Some p \<Rightarrow> \<not> CanWrite (members s) p euser egroup)
          then Some (- EACCES, newFid, 0, s)
          else
            let (myID, s) = (if newFid \<noteq> 0 then (newFid, s)
                             else if dname = ''/'' then (dir, s)
                             else let (i, sd) = genid (fileID s) in (i, s\<lparr>fileID := sd\<rparr>));
                (fattr, s) = alloc (MFattr ((new_MetaFattr (clock s) KFS_DIR myID 1 u g m)\<lparr>parent := par\<rparr>)) s;
                (dentry, s) = alloc (MDentry (new_MetaDentry dir dname myID fattr)) s
            in do { s \<leftarrow> insert_meta dentry s;
                    s \<leftarrow> insert_meta fattr s;
                    (_, _, s) \<leftarrow> link myID kThisDir KFS_DIR myID 1 no_stripes kKfsUserNone kKfsGroupNone 0 fattr s;
                    (_, _, s) \<leftarrow> link myID kParentDir KFS_DIR dir 1 no_stripes kKfsUserNone kKfsGroupNone 0 par s;
                    s \<leftarrow> updateCounts fattr 0 0 1 s;
                    s \<leftarrow> (case pf of
                            None \<Rightarrow> Some s
                          | Some p \<Rightarrow> upd_fattr fattr (\<lambda>f. f\<lparr>minSTier := minSTier p, maxSTier := maxSTier p\<rparr>) s);
                    Some (0, myID, fattr, UpdateNumDirs 1 s) } })"

definition rmdir :: "fid_t \<Rightarrow> string \<Rightarrow> string \<Rightarrow> kfsUid_t \<Rightarrow> kfsGid_t \<Rightarrow> NS \<Rightarrow> (int \<times> NS) option" where
  "rmdir dir dname pathname euser egroup s =
     do { (status, fa, par, _) \<leftarrow> lookup s dir dname euser egroup True;
          if status \<noteq> 0 then Some (status, s)
          else do { f \<leftarrow> fattr_at s fa;
                    p \<leftarrow> fattr_at s par;
                    if dir = ROOTFID \<and> (dname = DUMPSTERDIR \<or> dname = ''/'') then Some (- EPERM, s)
                    else if dname = kThisDir then Some (- EINVAL, s)
                    else if dname = kParentDir then Some (- ENOTEMPTY, s)
                    else if fa_type f \<noteq> KFS_DIR then Some (- ENOTDIR, s)
                    else if \<not> CanWrite (members s) p euser egroup then Some (- EACCES, s)
                    else if IsDeleteRestricted p f euser then Some (- EPERM, s)
                    else if \<not> emptydir s (fa_id f) then Some (- ENOTEMPTY, s)
                    else do { s \<leftarrow> invalidatePathCache pathname dname fa False s;
                              s \<leftarrow> setFileSize fa 0 0 (- 1) (UpdateNumDirs (- 1) s);
                              s \<leftarrow> unlink (fa_id f) kThisDir fa True s;
                              s \<leftarrow> unlink (fa_id f) kParentDir fa True s;
                              s \<leftarrow> unlink dir dname fa False s;
                              Some (0, s) } } }"

end
