(* ===== verification/IntText.thy ===== *)
theory IntText
  imports Prelude "HOL-Library.Signed_Division" "HOL-Library.Monad_Syntax"
begin

text \<open>
  Conversion of integers to text (common/IntToString.h) and back (class \<open>DecIntParser\<close> and
  class \<open>HexIntParser\<close> of common/RequestParser.h).  The integer type is given by its width
  in bits and whether it is signed; text is a list of characters.
\<close>

subsection \<open>Printing\<close>

definition hex_char :: "nat \<Rightarrow> char" where
  "hex_char d = ''0123456789ABCDEF'' ! d"

definition dec_char :: "nat \<Rightarrow> char" where
  "dec_char d = char_of (d + 48)"

text \<open>The loops \<open>Hex\<close> and \<open>Other\<close> write in front of the text that is already there.\<close>

function conv_loop :: "nat \<Rightarrow> nat \<Rightarrow> string \<Rightarrow> string" where
  "conv_loop radix v buf =
     (if radix < 2 then buf
      else
        let buf = (if radix = 16 then hex_char (v mod 16) else dec_char (v mod radix)) # buf;
            v = v div radix
        in if v \<noteq> 0 then conv_loop radix v buf else buf)"
  by pat_completeness auto
termination
  by (relation "measure (\<lambda>(radix, v, buf). v)") (auto intro!: div_less_dividend gr0I)

definition ConvertSigned :: "nat \<Rightarrow> nat \<Rightarrow> int \<Rightarrow> string" where
  "ConvertSigned w radix v =
     (let kMinInt = - (2 ^ (w - 1)); theNegFlag = (v < 0);
          (v, buf) = (if theNegFlag then
                        if v = kMinInt
                        then (- (kMinInt sdiv int radix), conv_loop radix (nat (- (kMinInt smod int radix))) [])
                        else (- v, [])
                      else (v, []));
          buf = conv_loop radix (nat v) buf
      in if theNegFlag then CHR ''-'' # buf else buf)"

text \<open>\<open>Convert\<close> for a signed or an unsigned type of width \<open>w\<close>.\<close>

definition IntToString :: "bool \<Rightarrow> nat \<Rightarrow> nat \<Rightarrow> int \<Rightarrow> string" where
  "IntToString is_signed w radix v = (if is_signed then ConvertSigned w radix v else conv_loop radix (nat v) [])"


definition toString :: "u64 \<Rightarrow> string" where
  "toString n = IntToString True 64 10 (sint n)"

subsection \<open>Parsing\<close>

definition is_space :: "char \<Rightarrow> bool" where
  "is_space c \<longleftrightarrow> of_char c \<le> (32 :: nat)"

text \<open>
  The sign: \<open>None\<close> when nothing follows, otherwise whether it was a minus and the text after it.
\<close>

definition parse_sign :: "string \<Rightarrow> (bool \<times> string) option" where
  "parse_sign s =
     (case dropWhile is_space s of
        [] \<Rightarrow> None
      | c # cs \<Rightarrow>
          if c = CHR ''-'' \<or> c = CHR ''+'' then (if cs = [] then None else Some (c = CHR ''-'', cs))
          else Some (False, c # cs))"

definition digit_of :: "char \<Rightarrow> int" where
  "digit_of c = int (of_char c) - 48"

text \<open>The loop over the digits; it stops at other characters and on overflow.\<close>

fun dec_loop :: "int \<Rightarrow> int \<Rightarrow> string \<Rightarrow> int \<times> string" where
  "dec_loop kMax v [] = (v, [])"
| "dec_loop kMax v (c # cs) =
     (let d = digit_of c; theMaxDivRadix = kMax div 10 in
      if d < 0 \<or> d \<ge> 10 then (v, c # cs)
      else if v > theMaxDivRadix \<or> (v = theMaxDivRadix \<and> d > kMax - theMaxDivRadix * 10) then (kMax, cs)
      else dec_loop kMax (v * 10 + d) cs)"

definition int_max :: "bool \<Rightarrow> nat \<Rightarrow> int" where
  "int_max is_signed w = (if is_signed then 2 ^ (w - 1) - 1 else 2 ^ w - 1)"

text \<open>Negation in the integer type.\<close>

definition int_neg :: "bool \<Rightarrow> nat \<Rightarrow> int \<Rightarrow> int" where
  "int_neg is_signed w v = (if is_signed then - v else (- v) mod 2 ^ w)"

text \<open>The value and the rest of the text; \<open>None\<close> when the result is \<open>false\<close>.\<close>

definition DecIntParser_Parse :: "bool \<Rightarrow> nat \<Rightarrow> string \<Rightarrow> (int \<times> string) option" where
  "DecIntParser_Parse is_signed w s =
     do { (minus, cs) \<leftarrow> parse_sign s;
          if (let d = digit_of (hd cs) in d < 0 \<or> d \<ge> 10) then None
          else
            let (v, rest) = dec_loop (int_max is_signed w) 0 cs
            in Some (if minus then int_neg is_signed w v else v, rest) }"







subsection \<open>Digits\<close>

declare conv_loop.simps [simp del]












lemma dec_loop_range: "0 \<le> v \<Longrightarrow> v \<le> kMax \<Longrightarrow> 0 \<le> fst (dec_loop kMax v s) \<and> fst (dec_loop kMax v s) \<le> kMax"
proof (induction kMax v s rule: dec_loop.induct)
  case (2 kMax v c cs)
  have "v * 10 + digit_of c \<le> kMax" if "\<not> (digit_of c < 0 \<or> digit_of c \<ge> 10)"
    "\<not> (v > kMax div 10 \<or> (v = kMax div 10 \<and> digit_of c > kMax - kMax div 10 * 10))"
    using that by (cases "v = kMax div 10") linarith+
  then show ?case using 2 by (auto simp: Let_def)
qed simp


subsection \<open>Properties\<close>



text \<open>
  C32. The decimal parser never overflows: for a signed type every value it returns, for any
  text, lies strictly between the smallest value and \<open>2 ^ (w - 1)\<close>, since an overflow
  saturates.
\<close>

theorem dec_parse_range:
  assumes "DecIntParser_Parse True w s = Some (v, rest)" "0 < w"
  shows "- (2 ^ (w - 1)) < v \<and> v < 2 ^ (w - 1)"
proof -
  obtain minus cs where cs: "parse_sign s = Some (minus, cs)" using assms(1) by (auto simp: DecIntParser_Parse_def split: bind_splits)
  let ?d = "dec_loop (int_max True w) 0 cs"
  have "0 \<le> fst ?d \<and> fst ?d \<le> int_max True w" by (rule dec_loop_range) (auto simp: int_max_def)
  moreover have "v = (if minus then - fst ?d else fst ?d)"
    using assms(1) cs by (auto simp: DecIntParser_Parse_def int_neg_def Let_def split: if_splits prod.splits)
  ultimately show ?thesis by (auto simp: int_max_def)
qed

theorem dec_parse_range_witness:
  "DecIntParser_Parse True 8 ''-1234'' = Some (- 127, []) \<and> - (2 ^ (8 - 1)) < (- 127 :: int) \<and> (- 127 :: int) < 2 ^ (8 - 1)"
proof -
  have *: "DecIntParser_Parse True 8 ''-1234'' = Some (- 127, [])"
    by (simp add: DecIntParser_Parse_def parse_sign_def is_space_def digit_of_def int_max_def int_neg_def)
  show ?thesis using * dec_parse_range [OF *] by simp
qed






end
