(* ===== verification/NsFiles.thy ===== *)
theory NsFiles
  imports NsDirs IntText
begin

text \<open>
  Name space operations of the metaserver (kfsops.cc), second part: renaming, the dumpster,
  creating and removing files, replication and storage tiers, recomputing directory sizes.
\<close>

subsection \<open>Renaming\<close>

text \<open>The loop of \<open>is\_descendant\<close> up the chain of parents; \<open>dotdot\<close> may be null.\<close>

partial_function (option) is_descendant :: "NS \<Rightarrow> fid_t \<Rightarrow> fid_t \<Rightarrow> addr \<Rightarrow> bool option" where
  "is_descendant s src dst dotdot =
     (if src = dst \<or> dst = ROOTFID then Some (src = dst)
      else do { par \<leftarrow> (if dotdot = 0 then Some 0 else map_option parent (fattr_at s dotdot));
                up \<leftarrow> (if par \<noteq> 0 then Some par
                       else do { (_, fa, _) \<leftarrow> lookup s dst kParentDir kKfsUserRoot kKfsGroupRoot False; Some fa });
                if up = 0 then Some False
                else do { f \<leftarrow> fattr_at s up; is_descendant s src (fa_id f) up } })"

text \<open>The part of a name after its last slash, and the directory in front of it.\<close>

definition base_name :: "string \<Rightarrow> string" where
  "base_name path = rev (takeWhile not_slash (rev path))"

definition dir_part :: "string \<Rightarrow> string" where
  "dir_part path = take (max 1 (length path - length (base_name path) - 1)) path"

text \<open>
  The destination directory: its status, identifier, attributes (0 when the directory does
  not change) and the name in it.
\<close>

definition rename_target :: "fid_t \<Rightarrow> string \<Rightarrow> kfsUid_t \<Rightarrow> kfsGid_t \<Rightarrow> NS \<Rightarrow>
    (int \<times> fid_t \<times> addr \<times> string \<times> NS) option" where
  "rename_target par newname euser egroup s =
     (if list_all not_slash newname then Some (0, par, 0, newname, s)
      else do { (status, dd, s) \<leftarrow> lookupPath par (dir_part newname) euser egroup s;
                if status \<noteq> 0 then Some (status, 0, 0, [], s)
                else do { f \<leftarrow> fattr_at s dd;
                          if fa_type f \<noteq> KFS_DIR then Some (- ENOTDIR, 0, 0, [], s)
                          else if \<not> CanWrite (members s) f euser egroup then Some (- EACCES, 0, 0, [], s)
                          else Some (0, fa_id f, dd, base_name newname, s) } })"

text \<open>
  The move itself: the entry \<open>src\<close> gives way to a new one, and when the directory changes
  the space accounting and the entry \<open>..\<close> of a moved directory follow.  The attribute pointer
  of the old entry is written after the entry was destroyed; a write to storage that no
  longer holds an object has no effect here.
\<close>

definition rename_move :: "addr \<Rightarrow> addr \<Rightarrow> fid_t \<Rightarrow> string \<Rightarrow> addr \<Rightarrow> NS \<Rightarrow> NS option" where
  "rename_move src sfattr ddir dname ddfattr s =
     do { f \<leftarrow> fattr_at s sfattr;
          let t = fa_type f;
          let srcfid = fa_id f;
          s \<leftarrow> (if t = KFS_DIR \<and> ddfattr \<noteq> 0 then unlink srcfid kParentDir sfattr True s else Some s);
          de \<leftarrow> dentry_at s src;
          (status, s) \<leftarrow> del_meta (MDentry de) s;
          if status \<noteq> 0 then None
          else
            let (newSrc, s) = alloc (MDentry (new_MetaDentry ddir dname srcfid sfattr)) s in
            do { s \<leftarrow> insert_meta newSrc s;
                 if ddfattr = 0 then Some s
                 else do { f \<leftarrow> fattr_at s sfattr;
                           let sz = filesize f;
                           let fileCnt = (if t = KFS_DIR then subcount1 f else 1);
                           let dirCnt = (if t = KFS_DIR then subcount2 f + 1 else 0);
                           s \<leftarrow> setFileSize sfattr 0 (- fileCnt) (- dirCnt) s;
                           s \<leftarrow> upd_fattr sfattr (parent_update (\<lambda>_. ddfattr)) s;
                           s \<leftarrow> (if dentry_at s src = None then Some s
                                 else upd_dentry src (d_fattr_update (\<lambda>_. sfattr)) s);
                           s \<leftarrow> setFileSize sfattr (if sz \<ge> 0 then sz else - 1 - sz) fileCnt dirCnt s;
                           s \<leftarrow> upd_fattr sfattr (filesize_update (\<lambda>_. sz)) s;
                           if t = KFS_DIR
                           then do { (_, _, s) \<leftarrow> link srcfid kParentDir KFS_DIR ddir 1 no_stripes
                                                    kKfsUserNone kKfsGroupNone 0 ddfattr s;
                                     Some s }
                           else Some s } } }"

text \<open>
  \<open>rename\<close> calls \<open>remove\<close> when it overwrites a file, \<open>remove\<close> calls \<open>moveToDumpster\<close> when the
  file is in use, and that calls \<open>rename\<close> without overwriting.  The first of them takes the
  removal as a parameter.  The result holds the status and \<open>todumpster\<close>.
\<close>

type_synonym remover = "fid_t \<Rightarrow> string \<Rightarrow> string \<Rightarrow> fid_t \<Rightarrow> kfsUid_t \<Rightarrow> kfsGid_t \<Rightarrow> NS \<Rightarrow> (int \<times> fid_t \<times> NS) option"

definition rename_with :: "remover \<Rightarrow> fid_t \<Rightarrow> string \<Rightarrow> string \<Rightarrow> string \<Rightarrow> bool \<Rightarrow> fid_t \<Rightarrow> kfsUid_t \<Rightarrow> kfsGid_t \<Rightarrow> NS \<Rightarrow>
    (int \<times> fid_t \<times> NS) option" where
  "rename_with rm par oldname newname oldpath overwrite todumpster euser egroup s =
     do { (status, sfattr, sdfattr, src) \<leftarrow> lookup s par oldname euser egroup True;
          if status \<noteq> 0 then Some (status, todumpster, s)
          else do { sd \<leftarrow> fattr_at s sdfattr;
            sf \<leftarrow> fattr_at s sfattr;
            if \<not> CanWrite (members s) sd euser egroup then Some (- EACCES, todumpster, s)
            else do { (status, ddir, ddfattr, dname, s) \<leftarrow> rename_target par newname euser egroup s;
              if status \<noteq> 0 then Some (status, todumpster, s)
              else if \<not> legalname dname then Some (- EINVAL, todumpster, s)
              else if ddir = par \<and> dname = oldname then Some (0, todumpster, s)
              else do { (status, dfattr, _, _) \<leftarrow> lookup s ddir dname euser egroup False;
                if status \<noteq> 0 \<and> status \<noteq> - ENOENT then Some (status, todumpster, s)
                else if \<not> overwrite \<and> dfattr \<noteq> 0 then Some (- EEXIST, todumpster, s)
                else do { df \<leftarrow> (if dfattr = 0 then Some None else map_option Some (fattr_at s dfattr));
                  let t = fa_type sf;
                  if (case df of None \<Rightarrow> False | Some d \<Rightarrow> t \<noteq> fa_type d)
                  then Some (if t = KFS_DIR then - ENOTDIR else - EISDIR, todumpster, s)
                  else if (case df of None \<Rightarrow> False | Some d \<Rightarrow> t = KFS_DIR \<and> \<not> emptydir s (fa_id d))
                  then Some (- ENOTEMPTY, todumpster, s)
                  else do { desc \<leftarrow> (if t = KFS_DIR then is_descendant s (fa_id sf) ddir dfattr else Some False);
                    if desc then Some (- EINVAL, todumpster, s)
                    else do { (status, todumpster, s) \<leftarrow>
                        (case df of
                           None \<Rightarrow> Some (0, todumpster, s)
                         | Some _ \<Rightarrow>
                             if t = KFS_DIR
                             then do { (st, s) \<leftarrow> rmdir ddir dname newname euser egroup s; Some (st, todumpster, s) }
                             else rm ddir dname newname todumpster euser egroup s);
                      if status \<noteq> 0 then Some (status, todumpster, s)
                      else do { s \<leftarrow> invalidatePathCache oldpath oldname sfattr True s;
                                s \<leftarrow> rename_move src sfattr ddir dname ddfattr s;
                                Some (0, todumpster, s) } } } } } } } }"

subsection \<open>The dumpster\<close>

definition makeDumpsterDir :: "NS \<Rightarrow> NS option" where
  "makeDumpsterDir s =
     do { (_, _, _, s) \<leftarrow> mkdir ROOTFID DUMPSTERDIR kKfsUserRoot kKfsGroupRoot 0x1C0 kKfsUserRoot kKfsGroupRoot 0 s;
          Some s }"

text \<open>The attributes of the dumpster directory, 0 when it does not exist.\<close>

definition lookup_dumpster :: "NS \<Rightarrow> addr option" where
  "lookup_dumpster s =
     do { (_, fa, _, _) \<leftarrow> lookup s ROOTFID DUMPSTERDIR kKfsUserRoot kKfsGroupRoot False; Some fa }"

definition moveToDumpster :: "fid_t \<Rightarrow> string \<Rightarrow> fid_t \<Rightarrow> NS \<Rightarrow> (int \<times> NS) option" where
  "moveToDumpster dir fname todumpster s =
     do { fa \<leftarrow> lookup_dumpster s;
          s \<leftarrow> (if fa = 0 then makeDumpsterDir s else Some s);
          fa \<leftarrow> (if fa = 0 then lookup_dumpster s else Some fa);
          f \<leftarrow> (if fa = 0 then None else fattr_at s fa);
          if fa_id f = dir then Some (- EEXIST, s)
          else
            let tempname = ''/'' @ DUMPSTERDIR @ ''/'' @ fname @ toString todumpster
            in do { (status, _, s) \<leftarrow>
                      rename_with (\<lambda>_ _ _ _ _ _ _. None) dir fname tempname [] False (- 1) kKfsUserRoot kKfsGroupRoot s;
                    Some (status, s) } }"

subsection \<open>Removing a file\<close>

text \<open>\<open>MetaChunkInfo::DeleteChunk\<close>.\<close>

definition DeleteChunk :: "addr \<Rightarrow> NS \<Rightarrow> NS option" where
  "DeleteChunk a s =
     do { c \<leftarrow> chunk_at s a;
          (status, s) \<leftarrow> del_meta (MChunk c) s;
          if status \<noteq> 0 then None else Some s }"

fun DeleteChunks :: "addr list \<Rightarrow> NS \<Rightarrow> NS option" where
  "DeleteChunks [] s = Some s"
| "DeleteChunks (a # as) s = do { s \<leftarrow> DeleteChunk a s; DeleteChunks as s }"

fun IsValidLeaseIssued :: "NS \<Rightarrow> addr list \<Rightarrow> bool option" where
  "IsValidLeaseIssued s [] = Some False"
| "IsValidLeaseIssued s (a # as) =
     do { c \<leftarrow> chunk_at s a;
          if leaseIssued s (c_chunkId c) then Some True else IsValidLeaseIssued s as }"

definition remove :: remover where
  "remove dir fname pathname todumpster euser egroup s =
     do { (status, fa, par, _) \<leftarrow> lookup s dir fname euser egroup True;
          if status \<noteq> 0 then Some (status, todumpster, s)
          else do { f \<leftarrow> fattr_at s fa;
                    p \<leftarrow> fattr_at s par;
                    if fa_type f \<noteq> KFS_FILE then Some (- EISDIR, todumpster, s)
                    else if \<not> CanWrite (members s) p euser egroup then Some (- EACCES, todumpster, s)
                    else if IsDeleteRestricted p f euser then Some (- EPERM, todumpster, s)
                    else do { s \<leftarrow> invalidatePathCache pathname fname fa False s;
                      let chunkInfo = (if subcount1 f > 0 then getalloc_all s (fa_id f) else []);
                      if subcount1 f > 0 \<and> subcount1 f \<noteq> int (length chunkInfo) then None
                      else do { leased \<leftarrow> IsValidLeaseIssued s chunkInfo;
                        if subcount1 f > 0 \<and> (0 < sint todumpster \<or> leased)
                        then do { (status, s) \<leftarrow> moveToDumpster dir fname (fa_id f) s;
                                  Some (status, fa_id f, s) }
                        else do { s \<leftarrow> (if subcount1 f > 0
                                       then DeleteChunks chunkInfo (UpdateNumChunks (- subcount1 f) s)
                                       else Some s);
                                  s \<leftarrow> setFileSize fa 0 (- 1) 0 (UpdateNumFiles (- 1) s);
                                  s \<leftarrow> unlink dir fname fa False s;
                                  Some (0, todumpster, s) } } } } }"

definition rename :: "fid_t \<Rightarrow> string \<Rightarrow> string \<Rightarrow> string \<Rightarrow> bool \<Rightarrow> fid_t \<Rightarrow> kfsUid_t \<Rightarrow> kfsGid_t \<Rightarrow> NS \<Rightarrow>
    (int \<times> fid_t \<times> NS) option" where
  "rename = rename_with remove"

subsection \<open>Creating a file\<close>

text \<open>The status, the new identifier, \<open>todumpster\<close> and the new attributes.\<close>

definition create :: "fid_t \<Rightarrow> string \<Rightarrow> fid_t \<Rightarrow> int \<Rightarrow> bool \<Rightarrow> stripe_params \<Rightarrow> fid_t \<Rightarrow>
    kfsUid_t \<Rightarrow> kfsGid_t \<Rightarrow> kfsMode_t \<Rightarrow> kfsUid_t \<Rightarrow> kfsGid_t \<Rightarrow> NS \<Rightarrow> (int \<times> fid_t \<times> fid_t \<times> addr \<times> NS) option" where
  "create dir fname newFid nrep exclusive sp todumpster u g m euser egroup s =
     (if \<not> legalname fname then Some (- EINVAL, newFid, todumpster, 0, s)
      else if nrep \<le> 0 then Some (- EINVAL, newFid, todumpster, 0, s)
      else
        let par = getFattr s dir in
        if par = 0 then Some (- ENOENT, newFid, todumpster, 0, s)
        else do { p \<leftarrow> fattr_at s par;
          if fa_type p \<noteq> KFS_DIR then Some (- ENOTDIR, newFid, todumpster, 0, s)
          else if \<not> CanWrite (members s) p euser egroup then Some (- EACCES, newFid, todumpster, 0, s)
          else do { (status, fa, _, _) \<leftarrow> lookup s dir fname euser egroup False;
            if status \<noteq> - ENOENT \<and> status \<noteq> 0 then Some (status, newFid, todumpster, 0, s)
            else do { (status, todumpster, s) \<leftarrow>
                (if fa = 0 then Some (0, todumpster, s)
                 else do { f \<leftarrow> fattr_at s fa;
                           if fa_type f \<noteq> KFS_FILE then Some (- EISDIR, todumpster, s)
                           else if exclusive then Some (- EEXIST, todumpster, s)
                           else if IsDeleteRestricted p f euser then Some (- EPERM, todumpster, s)
                           else do { (status, todumpster, s) \<leftarrow> remove dir fname [] todumpster euser egroup s;
                                     if status \<noteq> 0 \<and> \<not> (status = - EBUSY \<or> 0 < sint todumpster) then None
                                     else Some (status, todumpster, s) } });
              if status \<noteq> 0 then Some (status, newFid, todumpster, 0, s)
              else
                let (newFid, s) = (if newFid = 0 then let (i, sd) = genid (fileID s) in (i, s\<lparr>fileID := sd\<rparr>)
                                   else (newFid, s))
                in do { (status, fa, s) \<leftarrow> link dir fname KFS_FILE newFid nrep sp u g m par s;
                        if status \<noteq> 0 then Some (status, newFid, todumpster, 0, s)
                        else do { s \<leftarrow> updateCounts fa 0 1 0 (UpdateNumFiles 1 s);
                                  p \<leftarrow> fattr_at s par;
                                  s \<leftarrow> upd_fattr fa (\<lambda>f. f\<lparr>minSTier := minSTier p, maxSTier := maxSTier p\<rparr>) s;
                                  Some (0, newFid, todumpster, fa, s) } } } } })"

subsection \<open>Initialization and cleanup\<close>

definition new_tree :: "kfsUid_t \<Rightarrow> kfsGid_t \<Rightarrow> kfsMode_t \<Rightarrow> NS \<Rightarrow> (int \<times> NS) option" where
  "new_tree u g m s =
     do { (status, _, _, s) \<leftarrow> mkdir ROOTFID ''/'' u g m kKfsUserRoot kKfsGroupRoot 0 s; Some (status, s) }"

text \<open>\<open>RemoveDumpsterEntry\<close> applied to the entries of the dumpster.\<close>

fun remove_entries :: "fid_t \<Rightarrow> addr list \<Rightarrow> NS \<Rightarrow> NS option" where
  "remove_entries dir [] s = Some s"
| "remove_entries dir (a # as) s =
     do { e \<leftarrow> dentry_at s a;
          (_, _, s) \<leftarrow> remove dir (d_name e) [] (- 1) kKfsUserRoot kKfsGroupRoot s;
          remove_entries dir as s }"

definition cleanupDumpster :: "NS \<Rightarrow> NS option" where
  "cleanupDumpster s =
     do { fa \<leftarrow> lookup_dumpster s;
          if fa = 0 then makeDumpsterDir s
          else do { f \<leftarrow> fattr_at s fa;
                    (_, v, _) \<leftarrow> readdir s (fa_id f) 0;
                    remove_entries (fa_id f) v s } }"

definition emptyDumpsterDir :: "NS \<Rightarrow> NS option" where
  "emptyDumpsterDir s = do { s \<leftarrow> makeDumpsterDir s; cleanupDumpster s }"

subsection \<open>Replication and storage tiers\<close>

definition tier_ok :: "int \<Rightarrow> bool" where
  "tier_ok t \<longleftrightarrow> t = kKfsSTierUndef \<or> (kKfsSTierMin \<le> t \<and> t \<le> kKfsSTierMax)"

definition set_tiers :: "int \<Rightarrow> int \<Rightarrow> MetaFattr \<Rightarrow> MetaFattr" where
  "set_tiers minT maxT fa =
     (let fa = (if minT = kKfsSTierUndef then fa
                else let fa = fa\<lparr>minSTier := minT\<rparr> in if maxSTier fa < minT then fa\<lparr>maxSTier := minT\<rparr> else fa)
      in if maxT = kKfsSTierUndef then fa
         else let fa = fa\<lparr>maxSTier := maxT\<rparr> in if maxT < minSTier fa then fa\<lparr>minSTier := maxT\<rparr> else fa)"

fun ChangeChunkReplications :: "addr list \<Rightarrow> NS \<Rightarrow> NS option" where
  "ChangeChunkReplications [] s = Some s"
| "ChangeChunkReplications (a # as) s =
     do { c \<leftarrow> chunk_at s a;
          ChangeChunkReplications as
            (if csmap s (c_chunkId c) = None then s
             else s\<lparr>replicationChecks := replicationChecks s @ [c_chunkId c]\<rparr>) }"

definition changeFileReplication :: "addr \<Rightarrow> int \<Rightarrow> int \<Rightarrow> int \<Rightarrow> NS \<Rightarrow> (int \<times> NS) option" where
  "changeFileReplication a nrep minT maxT s =
     do { fa \<leftarrow> fattr_at s a;
          if fa_type fa \<noteq> KFS_FILE \<and> 0 < nrep then Some (- EISDIR, s)
          else if \<not> tier_ok minT \<or> \<not> tier_ok maxT then Some (- EINVAL, s)
          else do { s \<leftarrow> upd_fattr a (set_tiers minT maxT) s;
                    if nrep \<le> 0 then Some (if minT \<noteq> kKfsSTierUndef \<or> maxT \<noteq> kKfsSTierUndef then 0 else - EINVAL, s)
                    else if int (numReplicas fa) = nrep then Some (0, s)
                    else do { s \<leftarrow> upd_fattr a (setReplication nrep) s;
                              s \<leftarrow> ChangeChunkReplications (getalloc_all s (fa_id fa)) s;
                              Some (0, s) } } }"

text \<open>The loop over the entries of a directory and its recursion into subdirectories.\<close>

partial_function (option) changeDir_loop :: "fid_t \<Rightarrow> addr list \<Rightarrow> int \<Rightarrow> int \<Rightarrow> int \<Rightarrow> NS \<Rightarrow> NS option" where
  "changeDir_loop dir es nrep minT maxT s =
     (case es of
        [] \<Rightarrow> Some s
      | e # es \<Rightarrow>
          do { de \<leftarrow> dentry_at s e;
               s \<leftarrow> (if d_name de = kThisDir \<or> d_name de = kParentDir \<or> d_fid de = dir then Some s
                     else
                       let fa = getFattr s (d_fid de) in
                       if fa = 0 then Some s
                       else do { f \<leftarrow> fattr_at s fa;
                                 if fa_type f = KFS_DIR
                                 then do { (_, es', _) \<leftarrow> readdir s (fa_id f) 0;
                                           changeDir_loop (fa_id f) es' nrep minT maxT s }
                                 else do { (_, s) \<leftarrow> changeFileReplication fa nrep minT maxT s; Some s } });
               changeDir_loop dir es nrep minT maxT s })"

definition changeDirReplication :: "addr \<Rightarrow> int \<Rightarrow> int \<Rightarrow> int \<Rightarrow> NS \<Rightarrow> (int \<times> NS) option" where
  "changeDirReplication a nrep minT maxT s =
     (if a = 0 then Some (- ENOTDIR, s)
      else do { fa \<leftarrow> fattr_at s a;
                if fa_type fa \<noteq> KFS_DIR then Some (- ENOTDIR, s)
                else do { (_, es, _) \<leftarrow> readdir s (fa_id fa) 0;
                          s \<leftarrow> changeDir_loop (fa_id fa) es nrep minT maxT s;
                          Some (0, s) } })"

definition changePathReplication :: "fid_t \<Rightarrow> int \<Rightarrow> int \<Rightarrow> int \<Rightarrow> NS \<Rightarrow> (int \<times> NS) option" where
  "changePathReplication i nrep minT maxT s =
     (let a = getFattr s i in
      if a = 0 then Some (- ENOENT, s)
      else do { fa \<leftarrow> fattr_at s a;
                if fa_type fa = KFS_DIR then changeDirReplication a nrep minT maxT s
                else changeFileReplication a nrep minT maxT s })"

subsection \<open>Recomputing the sizes of directories\<close>

text \<open>Setting the attribute pointer of an entry that may only be null or right.\<close>

definition fix_dentry :: "addr \<Rightarrow> addr \<Rightarrow> NS \<Rightarrow> NS option" where
  "fix_dentry e fa s =
     do { de \<leftarrow> dentry_at s e;
          if d_fattr de = fa then Some s
          else if d_fattr de \<noteq> 0 then None
          else upd_dentry e (d_fattr_update (\<lambda>_. fa)) s }"

definition reset_dir :: "addr \<Rightarrow> NS \<Rightarrow> NS option" where
  "reset_dir a s = upd_fattr a (\<lambda>f. f\<lparr>filesize := 0, subcount2 := 0, subcount1 := 0\<rparr>) s"

definition add_to_dir :: "addr \<Rightarrow> int \<Rightarrow> int \<Rightarrow> int \<Rightarrow> int \<Rightarrow> NS \<Rightarrow> NS option" where
  "add_to_dir a sz mt nfiles ndirs s =
     upd_fattr a (\<lambda>f. f\<lparr>filesize := filesize f + sz, mtime := max (mtime f) mt,
                        subcount1 := subcount1 f + nfiles, subcount2 := subcount2 f + ndirs\<rparr>) s"

text \<open>The checks and repairs of the pointers between an entry, its attributes and the directory.\<close>

definition check_entry :: "addr \<Rightarrow> addr \<Rightarrow> addr \<Rightarrow> NS \<Rightarrow> NS option" where
  "check_entry a e fa s =
     do { f \<leftarrow> fattr_at s fa;
          de \<leftarrow> dentry_at s e;
          if parent f = 0
          then do { s \<leftarrow> upd_fattr fa (parent_update (\<lambda>_. a)) s; fix_dentry e fa s }
          else if parent f \<noteq> a then None
          else if d_fattr de \<noteq> fa then None
          else Some s }"

partial_function (option) recomputeDirSize_loop :: "addr \<Rightarrow> fid_t \<Rightarrow> addr list \<Rightarrow> NS \<Rightarrow> NS option" where
  "recomputeDirSize_loop a dir es s =
     (case es of
        [] \<Rightarrow> Some s
      | e # es \<Rightarrow>
          do { de \<leftarrow> dentry_at s e;
               d \<leftarrow> fattr_at s a;
               s \<leftarrow> (if d_fid de = dir \<or> d_name de = kThisDir \<or> d_name de = kParentDir then
                       let fa = (if d_fid de = dir then a else parent d)
                       in if fa = 0 then None else fix_dentry e fa s
                     else
                       let fa = getFattr s (d_fid de) in
                       if fa = 0 then Some s
                       else do { s \<leftarrow> check_entry a e fa s;
                                 f \<leftarrow> fattr_at s fa;
                                 if fa_type f = KFS_DIR
                                 then do { s \<leftarrow> reset_dir fa s;
                                           s \<leftarrow> recomputeDirSize_loop fa (fa_id f)
                                                 (all_pm (PartialMatch_of KFS_DENTRY (fa_id f)) (tree s)) s;
                                           f \<leftarrow> fattr_at s fa;
                                           add_to_dir a (filesize f) (mtime f) (subcount1 f) (subcount2 f + 1) s }
                                 else add_to_dir a (getFileSize f) (mtime f) 1 0 s });
               recomputeDirSize_loop a dir es s })"

definition recomputeDirSize_dir :: "addr \<Rightarrow> NS \<Rightarrow> NS option" where
  "recomputeDirSize_dir a s =
     do { s \<leftarrow> reset_dir a s;
          f \<leftarrow> fattr_at s a;
          recomputeDirSize_loop a (fa_id f) (all_pm (PartialMatch_of KFS_DENTRY (fa_id f)) (tree s)) s }"

definition recomputeDirSize :: "NS \<Rightarrow> NS option" where
  "recomputeDirSize s =
     do { (status, fa, _, _) \<leftarrow> lookup s ROOTFID ''/'' kKfsUserRoot kKfsGroupRoot False;
          if status \<noteq> 0 then Some s else recomputeDirSize_dir fa s }"

definition setUpdatePathSpaceUsage :: "bool \<Rightarrow> NS \<Rightarrow> NS option" where
  "setUpdatePathSpaceUsage flag s =
     (let recomputeFlag = (\<not> updatePathSpaceUsage s \<and> flag);
          s = s\<lparr>updatePathSpaceUsage := flag\<rparr>
      in if recomputeFlag then recomputeDirSize s else Some s)"

end
