(* ===== verification/NsChunks.thy ===== *)
theory NsChunks
  imports NsFiles
begin

text \<open>
  Chunks of files (kfsops.cc): finding the chunks of a file, allocating and assigning chunks,
  moving the chunks of one file to another and truncation.
\<close>

subsection \<open>Chunk iterators\<close>

text \<open>
  A \<open>ChunkIterator\<close> is a leaf iterator and a partial match.  The entry it points to:
  \<open>Some None\<close> for the null node, \<open>None\<close> for an index outside the node.
\<close>

fun it_at :: "Tree \<Rightarrow> LeafIter \<Rightarrow> (Key \<times> addr) option option" where
  "it_at t (None, pos) = Some None"
| "it_at t (Some i, pos) =
     (case get_node (root t) i of
        Some (Level1 _ _ es) \<Rightarrow> if pos < length es then Some (Some (es ! pos)) else None
      | _ \<Rightarrow> None)"

definition chunk_pm :: "fid_t \<Rightarrow> PartialMatch" where
  "chunk_pm i = PartialMatch_of KFS_CHUNKINFO i"

text \<open>\<open>MetaIterator::next\<close>: the item, or 0 when the key does not match.\<close>

definition cit_next :: "Tree \<Rightarrow> fid_t \<Rightarrow> LeafIter \<Rightarrow> (addr \<times> LeafIter) option" where
  "cit_next t i it =
     do { e \<leftarrow> it_at t it;
          Some (case e of
                  Some (k, a) \<Rightarrow> if pm_eq (chunk_pm i) k then (a, it_next t it) else (0, it)
                | None \<Rightarrow> (0, it)) }"

text \<open>All items that repeated \<open>next\<close> returns.\<close>

definition cit_list :: "Tree \<Rightarrow> fid_t \<Rightarrow> LeafIter \<Rightarrow> addr list" where
  "cit_list t i it = map snd (takeWhile (\<lambda>e. pm_eq (chunk_pm i) (fst e)) (it_list t it))"

text \<open>The search of \<open>MetaIterator::lowerBound\<close> from a node on; fuel bounds the nodes visited.\<close>

fun seek :: "nat \<Rightarrow> Tree \<Rightarrow> (Key \<Rightarrow> bool) \<Rightarrow> nat option \<Rightarrow> LeafIter" where
  "seek 0 t lt n = (None, 0)"
| "seek (Suc f) t lt None = (None, 0)"
| "seek (Suc f) t lt (Some i) =
     (case get_node (root t) i of
        None \<Rightarrow> (None, 0)
      | Some n \<Rightarrow> let p = place lt n in if p = children n then seek f t lt (nxt n) else (Some i, p))"

definition cit_lowerBound :: "Tree \<Rightarrow> fid_t \<Rightarrow> Key \<Rightarrow> LeafIter \<Rightarrow> (addr \<times> LeafIter) option" where
  "cit_lowerBound t i k it = cit_next t i (seek (length (nodes (root t))) t (\<lambda>x. x < k) (fst it))"

definition kLSearchThreshold :: int where
  "kLSearchThreshold = 32"

definition FindChunk :: "NS \<Rightarrow> int \<Rightarrow> fid_t \<Rightarrow> int \<Rightarrow> LeafIter \<Rightarrow> addr \<Rightarrow> (addr \<times> LeafIter) option" where
  "FindChunk s chunkCount i pos cit ci =
     do { c \<leftarrow> chunk_at s ci;
          if kLSearchThreshold < chunkCount \<and> c_offset c + kLSearchThreshold * CHUNKSIZE < pos
          then cit_next (tree s) i (lower_bound_key (chunk_key i pos) (tree s))
          else if c_offset c < pos then cit_lowerBound (tree s) i (chunk_key i pos) cit
          else Some (ci, cit) }"

subsection \<open>\<open>getalloc\<close>\<close>

definition take_limit :: "int \<Rightarrow> 'c list \<Rightarrow> 'c list" where
  "take_limit n xs = (if n \<le> 0 then xs else take (nat n) xs)"

text \<open>The attributes of a file and an iterator at the entry that follows them.\<close>

definition fattr_and_next :: "NS \<Rightarrow> fid_t \<Rightarrow> (int \<times> addr \<times> LeafIter) option" where
  "fattr_and_next s i =
     (let it = find_key (fattr_key i) (tree s) in
      case it_at (tree s) it of
        None \<Rightarrow> None
      | Some None \<Rightarrow> Some (- ENOENT, 0, (None, 0))
      | Some (Some (k, a)) \<Rightarrow>
          do { f \<leftarrow> fattr_at s a;
               if fa_type f \<noteq> KFS_FILE then Some (- EISDIR, 0, (None, 0))
               else Some (0, a, it_next (tree s) it) })"

definition getalloc_max :: "NS \<Rightarrow> fid_t \<Rightarrow> int \<Rightarrow> (int \<times> addr \<times> addr list) option" where
  "getalloc_max s i maxChunks =
     do { (status, fa, it) \<leftarrow> fattr_and_next s i;
          Some (status, fa, if status \<noteq> 0 then [] else take_limit maxChunks (cit_list (tree s) i it)) }"

definition getAlloc :: "NS \<Rightarrow> fid_t \<Rightarrow> LeafIter" where
  "getAlloc s i = find_pm (chunk_pm i) (tree s)"

definition getAlloc_fa :: "NS \<Rightarrow> fid_t \<Rightarrow> (addr \<times> LeafIter) option" where
  "getAlloc_fa s i = do { (_, fa, it) \<leftarrow> fattr_and_next s i; Some (fa, it) }"

definition readDir :: "NS \<Rightarrow> fid_t \<Rightarrow> LeafIter" where
  "readDir s dir = find_pm (PartialMatch_of KFS_DENTRY dir) (tree s)"

text \<open>The loop over a chunk block: the chunk at the boundary and the chunks of the block.\<close>

fun block_loop :: "NS \<Rightarrow> int \<Rightarrow> int \<Rightarrow> bool \<Rightarrow> bool \<Rightarrow> addr list \<Rightarrow> addr \<Rightarrow> addr list \<Rightarrow> (addr \<times> addr list) option" where
  "block_loop s boundary bend striped wantBlock [] c blk = Some (c, blk)"
| "block_loop s boundary bend striped wantBlock (a # as) c blk =
     do { ci \<leftarrow> chunk_at s a;
          if bend < c_offset ci then Some (c, blk)
          else if c_offset ci = boundary \<and> (\<not> wantBlock \<or> \<not> striped) then Some (a, blk)
          else
            let c = (if c_offset ci = boundary then a else c);
                blk = (if wantBlock then blk @ [a] else blk)
            in if c_offset ci = bend then Some (c, blk)
               else block_loop s boundary bend striped wantBlock as c blk }"

text \<open>The status, the offset, the attributes, the chunk, the chunk block and its start.\<close>

definition getalloc_block :: "NS \<Rightarrow> fid_t \<Rightarrow> int \<Rightarrow> bool \<Rightarrow> (int \<times> int \<times> addr \<times> addr \<times> addr list \<times> int) option" where
  "getalloc_block s i offset wantBlock =
     (if offset < 0 \<and> offset \<noteq> - 1 then Some (- EINVAL, offset, 0, 0, [], 0)
      else do { (status, fa, it) \<leftarrow> fattr_and_next s i;
                if status \<noteq> 0 then Some (status, offset, 0, 0, [], 0)
                else do { f \<leftarrow> fattr_at s fa;
                          let offset = (if offset < 0 then subcount2 f else offset);
                          (ci, cit) \<leftarrow> cit_next (tree s) i it;
                          if ci = 0 then Some (- ENOENT, offset, fa, 0, [], 0)
                          else
                            let boundary = chunkStartOffset offset;
                                bstart = ChunkPosToChunkBlkStartPos f boundary;
                                bend = bstart + ChunkBlkSize f - CHUNKSIZE
                            in do { (ci, cit) \<leftarrow> FindChunk s (subcount1 f) i (if wantBlock then bstart else boundary) cit ci;
                                    (c, blk) \<leftarrow> block_loop s boundary bend (IsStriped f) wantBlock
                                       (if ci = 0 then [] else ci # cit_list (tree s) i cit) 0 [];
                                    Some (if c \<noteq> 0 then 0 else - ENOENT, offset, fa, c, blk, bstart) } } })"

definition getLastChunkInfo :: "NS \<Rightarrow> fid_t \<Rightarrow> (int \<times> addr \<times> addr) option" where
  "getLastChunkInfo s i =
     do { (fa, cit) \<leftarrow> getAlloc_fa s i;
          (c, cit) \<leftarrow> cit_next (tree s) i cit;
          if fa = 0 then Some (- ENOENT, 0, c)
          else if c = 0 then Some (0, fa, 0)
          else do { f \<leftarrow> fattr_at s fa;
                    ci \<leftarrow> chunk_at s c;
                    let cit = (if 8 < subcount1 f \<and> c_offset ci + 8 * CHUNKSIZE < subcount2 f
                               then let l = lower_bound_key (chunk_key i (subcount2 f - CHUNKSIZE)) (tree s)
                                    in if fst l \<noteq> None then l else cit
                               else cit);
                    Some (0, fa, last (c # cit_list (tree s) i cit)) } }"

definition getalloc_from :: "NS \<Rightarrow> fid_t \<Rightarrow> int \<Rightarrow> int \<Rightarrow> int \<times> addr list" where
  "getalloc_from s i offset maxChunks =
     (let v = cit_list (tree s) i (lower_bound_key (chunk_key i (chunkStartOffset offset)) (tree s))
      in (if v = [] then - ENOENT else 0, take_limit maxChunks v))"

definition getalloc_one :: "NS \<Rightarrow> fid_t \<Rightarrow> int \<Rightarrow> (int \<times> addr) option" where
  "getalloc_one s i offset =
     do { e \<leftarrow> it_at (tree s) (find_key (chunk_key i (chunkStartOffset offset)) (tree s));
          Some (case e of None \<Rightarrow> (- ENOENT, 0) | Some (_, a) \<Rightarrow> (0, a)) }"

subsection \<open>Allocation\<close>

text \<open>The result of \<open>allocateChunkId\<close>: the out parameters that were set.\<close>

record alloc_result =
  r_offset :: int
  r_chunkId :: chunkId_t
  r_chunkVersion :: int
  r_numReplicas :: nat
  r_striped :: bool
  r_block :: "addr list"
  r_blockStart :: int
  r_fa :: addr

definition allocateChunkId :: "fid_t \<Rightarrow> int \<Rightarrow> chunkId_t \<Rightarrow> int \<Rightarrow> bool \<Rightarrow> kfsUid_t \<Rightarrow> kfsGid_t \<Rightarrow> NS \<Rightarrow>
    (int \<times> alloc_result \<times> NS) option" where
  "allocateChunkId file offset chunkId version wantBlock euser egroup s =
     (let r = \<lparr>r_offset = offset, r_chunkId = chunkId, r_chunkVersion = version, r_numReplicas = 0,
               r_striped = False, r_block = [], r_blockStart = 0, r_fa = 0\<rparr> in
      if offset > 0 \<and> offset mod CHUNKSIZE \<noteq> 0 then Some (- EINVAL, r, s)
      else do { (res, offset, fa, ci, blk, bstart) \<leftarrow> getalloc_block s file offset wantBlock;
        let r = r\<lparr>r_offset := offset, r_block := blk, r_blockStart := bstart, r_fa := fa\<rparr>;
        if fa = 0 \<or> (res \<noteq> 0 \<and> res \<noteq> - ENOENT) then Some (res, r, s)
        else do { f \<leftarrow> fattr_at s fa;
          if \<not> CanWrite (members s) f euser egroup then Some (- EACCES, r, s)
          else if numReplicas f = 0 then None
          else
            let r = r\<lparr>r_numReplicas := numReplicas f, r_striped := IsStriped f\<rparr> in
            if res \<noteq> - ENOENT \<and> ci \<noteq> 0
            then do { c \<leftarrow> chunk_at s ci;
                      Some (- EEXIST, r\<lparr>r_chunkId := c_chunkId c, r_chunkVersion := c_chunkVersion c\<rparr>, s) }
            else if chunkId = 0 then
              let (n, sd) = genid (chunkID s)
              in Some (0, r\<lparr>r_chunkId := n, r_chunkVersion := 1\<rparr>, s\<lparr>chunkID := sd\<rparr>)
            else Some (0, r, s) } })"

text \<open>\<open>CSMap::Insert\<close>: the entry of the chunk map and whether it is new.\<close>

definition CSMap_Insert :: "addr \<Rightarrow> int \<Rightarrow> chunkId_t \<Rightarrow> int \<Rightarrow> NS \<Rightarrow> (addr \<times> bool \<times> NS) option" where
  "CSMap_Insert fattr offset chunkId version s =
     (case csmap s chunkId of
        None \<Rightarrow>
          let (a, s) = alloc (MChunk \<lparr>c_fattr = fattr, c_offset = offset, c_chunkId = chunkId, c_chunkVersion = version\<rparr>) s
          in Some (a, True, s\<lparr>csmap := (csmap s)(chunkId \<mapsto> a)\<rparr>)
      | Some a \<Rightarrow>
          do { s \<leftarrow> upd_chunk a (\<lambda>c. c\<lparr>c_offset := offset, c_chunkVersion := version, c_fattr := fattr\<rparr>) s;
               Some (a, False, s) })"

definition AddChunkToServerMapping :: "addr \<Rightarrow> int \<Rightarrow> chunkId_t \<Rightarrow> int \<Rightarrow> NS \<Rightarrow> (addr \<times> bool \<times> NS) option" where
  "AddChunkToServerMapping fattr offset chunkId version s =
     (if fattr = 0 then None else CSMap_Insert fattr offset chunkId version s)"

text \<open>A chunk that exists already: a new version of it, or an error.\<close>

definition assign_existing :: "addr \<Rightarrow> addr \<Rightarrow> int \<Rightarrow> chunkId_t \<Rightarrow> int \<Rightarrow> bool \<Rightarrow> NS \<Rightarrow> (int \<times> chunkId_t \<times> NS) option" where
  "assign_existing fa ca boundary chunkId version appendReplayFlag s =
     do { f \<leftarrow> fattr_at s fa;
          c \<leftarrow> chunk_at s ca;
          if c_chunkId c \<noteq> chunkId \<or> c_chunkVersion c = version then Some (- EEXIST, c_chunkId c, s)
          else do { s \<leftarrow> upd_chunk ca (c_chunkVersion_update (\<lambda>_. version)) s;
                    s \<leftarrow> (if appendReplayFlag \<and> \<not> IsStriped f then
                            let sz = max (subcount2 f) (boundary + CHUNKSIZE)
                            in if filesize f < sz then setFileSize fa sz 0 0 s else Some s
                          else if boundary + CHUNKSIZE \<ge> subcount2 f \<and> \<not> IsStriped f \<and> filesize f \<ge> 0
                          then upd_fattr fa invalidateFileSize s
                          else Some s);
                    s \<leftarrow> upd_fattr fa (mtime_update (\<lambda>_. clock s)) s;
                    Some (0, c_chunkId c, s) } }"

text \<open>The changes of the attributes of the file that gets a new chunk at \<open>boundary\<close>.\<close>

definition account_chunk :: "int \<Rightarrow> bool \<Rightarrow> bool \<Rightarrow> MetaFattr \<Rightarrow> MetaFattr" where
  "account_chunk boundary appendFlag appendReplayFlag f =
     (let f = f\<lparr>subcount1 := subcount1 f + 1\<rparr> in
      if boundary \<ge> subcount2 f then
        let f = (if \<not> IsStriped f \<and> filesize f \<ge> 0 \<and> \<not> appendFlag \<and> \<not> appendReplayFlag then invalidateFileSize f else f)
        in f\<lparr>subcount2 := boundary + CHUNKSIZE\<rparr>
      else f)"

text \<open>The status, the offset assigned to an append, the chunk at the offset and the state.\<close>

definition assignChunkId :: "fid_t \<Rightarrow> int \<Rightarrow> chunkId_t \<Rightarrow> int \<Rightarrow> bool \<Rightarrow> bool \<Rightarrow> NS \<Rightarrow>
    (int \<times> int option \<times> chunkId_t option \<times> NS) option" where
  "assignChunkId file offset chunkId version appendFlag appendReplayFlag s =
     (let fa = getFattr s file; boundary = chunkStartOffset offset in
      if fa = 0 then Some (- ENOENT, None, None, s)
      else do { f \<leftarrow> fattr_at s fa;
        e \<leftarrow> it_at (tree s) (find_key (chunk_key file boundary) (tree s));
        if e \<noteq> None \<and> \<not> appendFlag
        then do { (status, cur, s) \<leftarrow> assign_existing fa (snd (the e)) boundary chunkId version appendReplayFlag s;
                  Some (status, None, Some cur, s) }
        else
          let appendOffset = (if e \<noteq> None then Some (subcount2 f) else None);
              boundary = (if e \<noteq> None then subcount2 f else boundary)
          in do { (m, newEntryFlag, s) \<leftarrow> AddChunkToServerMapping fa boundary chunkId version s;
                  if \<not> newEntryFlag then None
                  else do { s \<leftarrow> insert_meta m s;
                            s \<leftarrow> upd_fattr fa (account_chunk boundary appendFlag appendReplayFlag) s;
                            f \<leftarrow> fattr_at s fa;
                            s \<leftarrow> (if (appendReplayFlag \<or> appendFlag) \<and> \<not> IsStriped f \<and> filesize f < subcount2 f
                                  then setFileSize fa (subcount2 f) 0 0 s else Some s);
                            s \<leftarrow> upd_fattr fa (mtime_update (\<lambda>_. clock s)) (UpdateNumChunks 1 s);
                            Some (0, appendOffset, Some chunkId, s) } } })"

subsection \<open>Moving chunks between files\<close>

definition ChangeChunkFid :: "addr \<Rightarrow> addr \<Rightarrow> addr \<Rightarrow> NS \<Rightarrow> NS option" where
  "ChangeChunkFid srcFattr dstFattr chunk s =
     (if chunkEntryToChange s \<noteq> 0 \<or> fattrToChangeTo s \<noteq> 0 then None
      else if chunk = 0 then (if srcFattr = 0 \<and> dstFattr \<noteq> 0 then None else Some s)
      else if dstFattr = 0 then None
      else do { c \<leftarrow> chunk_at s chunk;
                if c_fattr c \<noteq> srcFattr then None
                else Some (s\<lparr>chunkEntryToChange := chunk, fattrToChangeTo := dstFattr\<rparr>) })"

definition move_chunk :: "addr \<Rightarrow> addr \<Rightarrow> int \<Rightarrow> addr \<Rightarrow> NS \<Rightarrow> NS option" where
  "move_chunk srcFa dstFa dstStartPos a s =
     do { c \<leftarrow> chunk_at s a;
          let boundary = chunkStartOffset (dstStartPos + c_offset c);
          s \<leftarrow> ChangeChunkFid srcFa dstFa a s;
          (status, s) \<leftarrow> del_meta (MChunk c) s;
          if status \<noteq> 0 then None
          else do { s \<leftarrow> upd_chunk a (c_offset_update (\<lambda>_. boundary)) s;
                    s \<leftarrow> insert_meta a s;
                    upd_fattr dstFa (\<lambda>f. f\<lparr>subcount2 := (if boundary \<ge> subcount2 f then boundary + CHUNKSIZE else subcount2 f),
                                           subcount1 := subcount1 f + 1\<rparr>) s } }"

fun move_chunks :: "addr \<Rightarrow> addr \<Rightarrow> int \<Rightarrow> addr list \<Rightarrow> NS \<Rightarrow> NS option" where
  "move_chunks srcFa dstFa dstStartPos [] s = Some s"
| "move_chunks srcFa dstFa dstStartPos (a # as) s =
     do { s \<leftarrow> move_chunk srcFa dstFa dstStartPos a s; move_chunks srcFa dstFa dstStartPos as s }"

definition stripes_differ :: "MetaFattr \<Rightarrow> MetaFattr \<Rightarrow> bool" where
  "stripes_differ src dst \<longleftrightarrow>
     (IsStriped src \<or> IsStriped dst) \<and>
     (striperType src \<noteq> striperType dst \<or> numStripes src \<noteq> numStripes dst \<or>
      numRecoveryStripes src \<noteq> numRecoveryStripes dst \<or> stripeSize src \<noteq> stripeSize dst \<or>
      (subcount1 src > 0 \<and> filesize src < 0) \<or> (subcount1 dst > 0 \<and> filesize dst < 0) \<or>
      ChunkPosToChunkBlkStartPos src (subcount2 src) \<noteq> subcount2 src \<or>
      ChunkPosToChunkBlkStartPos dst (subcount2 dst) \<noteq> subcount2 dst)"

text \<open>The status, the two identifiers, the start offset in the destination and the number of chunks.\<close>

definition coalesceBlocks :: "addr \<Rightarrow> addr \<Rightarrow> int option \<Rightarrow> kfsUid_t \<Rightarrow> kfsGid_t \<Rightarrow> NS \<Rightarrow>
    (int \<times> fid_t \<times> fid_t \<times> int \<times> nat \<times> NS) option" where
  "coalesceBlocks srcFa dstFa mt euser egroup s =
     (if srcFa = 0 \<or> dstFa = 0 then Some (- ENOENT, 0, 0, 0, 0, s)
      else if srcFa = dstFa then Some (- EINVAL, 0, 0, 0, 0, s)
      else do { src \<leftarrow> fattr_at s srcFa;
        dst \<leftarrow> fattr_at s dstFa;
        if fa_type src \<noteq> KFS_FILE \<or> fa_type dst \<noteq> KFS_FILE then Some (- EISDIR, 0, 0, 0, 0, s)
        else if \<not> CanWrite (members s) src euser egroup \<or> \<not> CanWrite (members s) dst euser egroup
        then Some (- EACCES, 0, 0, 0, 0, s)
        else if stripes_differ src dst then Some (- EINVAL, 0, 0, 0, 0, s)
        else
          let chunkInfo = getalloc_all s (fa_id src); dstStartPos = subcount2 dst in
          do { s \<leftarrow> (if chunkInfo \<noteq> [] then ChangeChunkFid srcFa dstFa 0 s else Some s);
               s \<leftarrow> move_chunks srcFa dstFa dstStartPos chunkInfo s;
               s \<leftarrow> (if chunkInfo \<noteq> [] then ChangeChunkFid 0 0 0 s else Some s);
               dst \<leftarrow> fattr_at s dstFa;
               src \<leftarrow> fattr_at s srcFa;
               let dstStartOffset = (if IsStriped dst then ChunkPosToChunkBlkFileStartPos dst dstStartPos else dstStartPos);
               s \<leftarrow> (if subcount2 dst > dstStartPos
                     then do { s \<leftarrow> setFileSize dstFa (dstStartOffset + getFileSize src) 0 0 s;
                               if filesize src < 0 then upd_fattr dstFa invalidateFileSize s else Some s }
                     else Some s);
               s \<leftarrow> upd_fattr srcFa (\<lambda>f. f\<lparr>subcount2 := 0, subcount1 := 0\<rparr>) s;
               s \<leftarrow> setFileSize srcFa 0 0 0 s;
               let now = (case mt of Some m \<Rightarrow> m | None \<Rightarrow> clock s);
               s \<leftarrow> upd_fattr srcFa (mtime_update (\<lambda>_. now)) s;
               s \<leftarrow> upd_fattr dstFa (mtime_update (\<lambda>_. now)) s;
               Some (0, fa_id src, fa_id dst, dstStartOffset, length chunkInfo, s) } })"

definition coalesceBlocks_path :: "string \<Rightarrow> string \<Rightarrow> int option \<Rightarrow> kfsUid_t \<Rightarrow> kfsGid_t \<Rightarrow> NS \<Rightarrow>
    (int \<times> fid_t \<times> fid_t \<times> int \<times> nat \<times> NS) option" where
  "coalesceBlocks_path srcPath dstPath mt euser egroup s =
     do { (status, src, s) \<leftarrow> lookupPath ROOTFID srcPath euser egroup s;
          if status \<noteq> 0 then Some (status, 0, 0, 0, 0, s)
          else do { (status, dst, s) \<leftarrow> lookupPath ROOTFID dstPath euser egroup s;
                    if status \<noteq> 0 then Some (status, 0, 0, 0, 0, s)
                    else if srcPath = dstPath then Some (- EINVAL, 0, 0, 0, 0, s)
                    else coalesceBlocks src dst mt euser egroup s } }"

subsection \<open>Truncation\<close>

text \<open>The chunks to delete: those before \<open>endOffset\<close>, all of them when it is negative.\<close>

fun chunks_before :: "NS \<Rightarrow> int \<Rightarrow> addr list \<Rightarrow> addr list option" where
  "chunks_before s endOffset [] = Some []"
| "chunks_before s endOffset (a # as) =
     do { c \<leftarrow> chunk_at s a;
          if endOffset < 0 \<or> c_offset c < endOffset
          then do { rest \<leftarrow> chunks_before s endOffset as; Some (a # rest) }
          else Some [] }"

fun truncate_chunks :: "addr \<Rightarrow> addr list \<Rightarrow> NS \<Rightarrow> NS option" where
  "truncate_chunks fa [] s = Some s"
| "truncate_chunks fa (a # as) s =
     do { s \<leftarrow> DeleteChunk a s;
          s \<leftarrow> upd_fattr fa (\<lambda>f. f\<lparr>subcount1 := subcount1 f - 1\<rparr>) s;
          truncate_chunks fa as (UpdateNumChunks (- 1) s) }"

text \<open>
  The search at the start of \<open>truncate\<close>: the attributes, the chunk and the iterator.
\<close>

definition truncate_search :: "NS \<Rightarrow> fid_t \<Rightarrow> int \<Rightarrow> bool \<Rightarrow> (addr \<times> addr \<times> LeafIter) option" where
  "truncate_search s file lco searchFlag =
     do { (ci, cit) \<leftarrow> (if searchFlag then cit_next (tree s) file (lower_bound_key (chunk_key file lco) (tree s))
                        else Some (0, (None, 0)));
          fa \<leftarrow> (if ci \<noteq> 0 then map_option c_fattr (chunk_at s ci) else Some 0);
          if fa = 0 then do { (fa, cit) \<leftarrow> getAlloc_fa s file; Some (fa, ci, cit) }
          else Some (fa, ci, cit) }"

definition truncate :: "fid_t \<Rightarrow> int \<Rightarrow> int option \<Rightarrow> kfsUid_t \<Rightarrow> kfsGid_t \<Rightarrow> int \<Rightarrow> bool \<Rightarrow> NS \<Rightarrow> (int \<times> NS) option" where
  "truncate file offset mt euser egroup endOffset setEofHintFlag s =
     (if endOffset \<ge> 0 \<and> (endOffset < offset \<or> endOffset mod CHUNKSIZE \<noteq> 0) then Some (- EINVAL, s)
      else
        let lco = chunkStartOffset offset;
            searchFlag = ((\<not> setEofHintFlag \<or> endOffset \<ge> 0) \<and> CHUNKSIZE < offset) in
        do { (fa, ci, cit) \<leftarrow> truncate_search s file lco searchFlag;
          if fa = 0 then Some (- ENOENT, s)
          else do { f \<leftarrow> fattr_at s fa;
            if fa_type f \<noteq> KFS_FILE then Some (- EISDIR, s)
            else if offset < 0 then Some (- EINVAL, s)
            else if \<not> CanWrite (members s) f euser egroup then Some (- EACCES, s)
            else if filesize f = offset then Some (0, s)
            else if IsStriped f \<and> (offset > 0 \<or> endOffset \<ge> 0) then
              if endOffset \<ge> 0 \<or> offset < filesize f \<or> FilePosToChunkBlkIndex f (offset - 1) \<noteq> LastChunkBlkIndex f
              then Some (- EACCES, s)
              else do { s \<leftarrow> setFileSize fa offset 0 0 s;
                        Some (0, s\<lparr>recoveryUpdates := recoveryUpdates s @ [fa_id f]\<rparr>) }
            else do { (ci, cit) \<leftarrow>
                (if searchFlag then Some (ci, cit)
                 else do { (ci, cit) \<leftarrow> cit_next (tree s) file cit;
                           if ci \<noteq> 0 then FindChunk s (subcount1 f) file lco cit ci else Some (ci, cit) });
              c \<leftarrow> (if ci = 0 then Some None else map_option Some (chunk_at s ci));
              if (case c of None \<Rightarrow> False | Some c \<Rightarrow> c_offset c < offset \<and> offset < filesize f) then Some (- EACCES, s)
              else do { chunkInfo \<leftarrow> chunks_before s endOffset (if ci = 0 then [] else ci # cit_list (tree s) file cit);
                s \<leftarrow> truncate_chunks fa (rev chunkInfo) s;
                f \<leftarrow> fattr_at s fa;
                s \<leftarrow> (if endOffset < 0
                      then do { s \<leftarrow> upd_fattr fa (subcount2_update (\<lambda>_. if lco < offset then lco + CHUNKSIZE else lco)) s;
                                setFileSize fa offset 0 0 s }
                      else if filesize f < endOffset
                      then do { s \<leftarrow> upd_fattr fa (subcount2_update (\<lambda>_. endOffset)) s;
                                setFileSize fa endOffset 0 0 s }
                      else Some s);
                s \<leftarrow> (case mt of None \<Rightarrow> Some s | Some m \<Rightarrow> upd_fattr fa (mtime_update (\<lambda>_. m)) s);
                Some (0, s) } } } })"

definition pruneFromHead :: "fid_t \<Rightarrow> int \<Rightarrow> int option \<Rightarrow> kfsUid_t \<Rightarrow> kfsGid_t \<Rightarrow> NS \<Rightarrow> (int \<times> NS) option" where
  "pruneFromHead file offset mt euser egroup s =
     (if offset < 0 then Some (- EINVAL, s)
      else truncate file 0 mt euser egroup (chunkStartOffset offset) False s)"

end
