(* ===== verification/NsStore.thy ===== *)
theory NsStore
  imports NsChunks
begin

text \<open>
  The invariant of the metadata store and what searching, inserting and deleting do to it:
  every entry of the tree has the key of the object it points to, no object is entered
  twice, attributes have unique identifiers and directory entries unique names.
\<close>

subsection \<open>Searching the tree\<close>

lemma it_list_it_of [simp]: "it_list t (it_of None) = []" "it_list t (it_of (Some it)) = iterate_from t it"
  by (cases "length (nodes (root t))"; cases it; simp add: it_of_def it_list_def iterate_from_def)+

lemma all_key_extractAll: "all_key k t = extractAll (\<lambda>x. x < k) (\<lambda>x. x = k) t"
  by (simp add: all_key_def extractAll_def find_key_def split: option.split)

lemma all_pm_extractAll: "all_pm p t = extractAll (pm_greater p) (pm_eq p) t"
  by (simp add: all_pm_def extractAll_def find_pm_def split: option.split)

lemma findLeaf_key:
  assumes "tree_inv t" "k < sentinel"
  shows "it_list t (find_key k t) = (let xs = dropWhile (\<lambda>e. fst e < k) (leaves (root t)) in if fst (hd xs) = k then xs else [])"
proof -
  have ini: "initial (\<lambda>x. x < k) (leaves (root t))" using assms(1) by (intro initial_less) (simp add: tree_inv_def)
  have "\<not> sentinel < k" using assms(2) by auto
  from iterate_lowerBound [OF assms(1) ini this] obtain it where it: "lowerBound (\<lambda>x. x < k) (root t) = Some it"
    "getkey (root t) it = Some (fst (hd (dropWhile (\<lambda>e. fst e < k) (leaves (root t)))))"
    "iterate_from t it = dropWhile (\<lambda>e. fst e < k) (leaves (root t))" by blast
  then show ?thesis by (simp add: find_key_def findLeaf_def Let_def)
qed

lemma getFattr_all_key:
  assumes "tree_inv (tree s)"
  shows "getFattr s i = (case all_key (fattr_key i) (tree s) of [] \<Rightarrow> 0 | a # _ \<Rightarrow> a)"
proof -
  have k: "fattr_key i < sentinel" by (simp add: fattr_key_def Key_below_sentinel)
  define xs where "xs = dropWhile (\<lambda>e. fst e < fattr_key i) (leaves (root (tree s)))"
  show ?thesis
    unfolding getFattr_def all_key_def findLeaf_key [OF assms k] xs_def [symmetric] by (cases xs) (auto simp: Let_def)
qed

abbreviation ents :: "NS \<Rightarrow> (Key \<times> addr) set" where
  "ents s \<equiv> set (entries (tree s))"

lemma fattr_key_inj [simp]: "fattr_key i = fattr_key j \<longleftrightarrow> i = j"
  by (simp add: fattr_key_def Key_of_eq)

lemma keys_differ [simp]:
  "fattr_key i \<noteq> dentry_key d h" "dentry_key d h \<noteq> fattr_key i"
  "fattr_key i \<noteq> chunk_key j off" "chunk_key j off \<noteq> fattr_key i"
  "chunk_key j off \<noteq> dentry_key d h" "dentry_key d h \<noteq> chunk_key j off"
  by (simp_all add: fattr_key_def dentry_key_def chunk_key_def Key_of_eq)

lemma keys_below [simp]: "fattr_key i < sentinel" "dentry_key d h < sentinel" "chunk_key j off < sentinel"
  by (simp_all add: fattr_key_def dentry_key_def chunk_key_def Key_below_sentinel)

lemma dentry_key_dir: "dentry_key d h = dentry_key d' h' \<Longrightarrow> d = d'"
  by (simp add: dentry_key_def Key_of_eq)

lemma chunk_key_fid: "chunk_key d h = chunk_key d' h' \<Longrightarrow> d = d'"
  by (simp add: chunk_key_def Key_of_eq)

lemma set_all_key: "tree_inv t \<Longrightarrow> k < sentinel \<Longrightarrow> set (all_key k t) = {a. (k, a) \<in> set (entries t)}"
  by (force simp: all_key_extractAll all_by_key)

subsection \<open>Name hashes\<close>

lemma nameHash_bound: "unat (nameHash n) < 2 ^ 36"
proof -
  have "unat (SuperFastHash (map (\<lambda>c. of_nat (of_char c)) n)) < 2 ^ 32"
    using unsigned_less [of "SuperFastHash (map (\<lambda>c. of_nat (of_char c)) n)"] by simp
  then have "unat (Hsieh_hash_fcn n) < 2 ^ 32"
    unfolding Hsieh_hash_fcn_def by (simp add: unsigned_ucast_eq take_bit_nat_eq_self)
  moreover from this have "unat (nameHash n) = unat (Hsieh_hash_fcn n) * 2 ^ 4"
    unfolding nameHash_def unsigned_push_bit_eq by (simp add: push_bit_eq_mult take_bit_nat_eq_self)
  ultimately show ?thesis by simp
qed

lemma sint_nonneg: "unat (w :: u64) < 2 ^ 63 \<Longrightarrow> sint w = int (unat w)"
proof -
  assume "unat w < 2 ^ 63"
  then have "int (unat w) < 2 ^ 63" unfolding of_nat_less_iff [where 'a = int, symmetric] by simp
  then have "signed_take_bit 63 (int (unat w)) = int (unat w)" 
    by (intro signed_take_bit_int_eq_self order_trans [of "- (2 ^ 63)" 0 "int (unat w)"]) simp_all
  then show ?thesis by (simp add: sint_uint flip: uint_nat)
qed

lemma nameHash_nonneg: "0 \<le> sint (nameHash n)"
  using sint_nonneg [of "nameHash n"] nameHash_bound [of n] by simp

subsection \<open>The invariant\<close>

text \<open>An entry of the tree has the key of its object, which is well-formed.\<close>

definition meta_ok :: "Meta \<Rightarrow> bool" where
  "meta_ok m \<longleftrightarrow>
     (case m of
        MFattr f \<Rightarrow> True
      | MDentry d \<Rightarrow> d_hash d = nameHash (d_name d)
      | MChunk c \<Rightarrow> 0 \<le> c_offset c \<and> c_offset c < 2 ^ 63 \<and> CHUNKSIZE dvd c_offset c)"

definition ent_ok :: "NS \<Rightarrow> Key \<times> addr \<Rightarrow> bool" where
  "ent_ok s e \<longleftrightarrow> (case objs s (snd e) of None \<Rightarrow> False | Some m \<Rightarrow> meta_ok m \<and> meta_key s m = Some (fst e))"

text \<open>Objects in the tree.\<close>

definition live :: "NS \<Rightarrow> addr \<Rightarrow> bool" where
  "live s a \<longleftrightarrow> a \<in> snd ` ents s"

definition fattr_in :: "NS \<Rightarrow> addr \<Rightarrow> MetaFattr \<Rightarrow> bool" where
  "fattr_in s a f \<longleftrightarrow> live s a \<and> objs s a = Some (MFattr f)"

definition dentry_in :: "NS \<Rightarrow> addr \<Rightarrow> MetaDentry \<Rightarrow> bool" where
  "dentry_in s a d \<longleftrightarrow> live s a \<and> objs s a = Some (MDentry d)"

definition chunk_in :: "NS \<Rightarrow> addr \<Rightarrow> MetaChunkInfo \<Rightarrow> bool" where
  "chunk_in s a c \<longleftrightarrow> live s a \<and> objs s a = Some (MChunk c)"

definition store_inv :: "NS \<Rightarrow> bool" where
  "store_inv s \<longleftrightarrow>
     tree_inv (tree s) \<and> (\<forall>e\<in>ents s. ent_ok s e) \<and> distinct (map snd (entries (tree s))) \<and>
     0 < nextAddr s \<and> (\<forall>a. objs s a \<noteq> None \<longrightarrow> 0 < a \<and> a < nextAddr s) \<and>
     (\<forall>a b f g. fattr_in s a f \<longrightarrow> fattr_in s b g \<longrightarrow> fa_id f = fa_id g \<longrightarrow> a = b) \<and>
     (\<forall>a b d e. dentry_in s a d \<longrightarrow> dentry_in s b e \<longrightarrow> d_dir d = d_dir e \<longrightarrow> d_name d = d_name e \<longrightarrow> a = b) \<and>
     (\<forall>a b c d. chunk_in s a c \<longrightarrow> dentry_in s b d \<longrightarrow> chunk_fid s c \<noteq> Some (d_dir d)) \<and>
     (\<forall>a b c e. chunk_in s a c \<longrightarrow> chunk_in s b e \<longrightarrow> chunk_fid s c = chunk_fid s e \<longrightarrow> c_offset c = c_offset e \<longrightarrow> a = b)"

lemmas in_defs = fattr_in_def dentry_in_def chunk_in_def

lemma ent_live: "(k, a) \<in> ents s \<Longrightarrow> live s a"
  by (force simp: live_def)

lemma ent_key: "store_inv s \<Longrightarrow> (k, a) \<in> ents s \<Longrightarrow> \<exists>m. objs s a = Some m \<and> meta_ok m \<and> meta_key s m = Some k"
proof -
  assume "store_inv s" "(k, a) \<in> ents s"
  then have "ent_ok s (k, a)" unfolding store_inv_def by blast
  then show ?thesis by (auto simp: ent_ok_def split: option.splits)
qed

lemma ent_cases:
  assumes "store_inv s" "(k, a) \<in> ents s"
  obtains (fattr) f where "fattr_in s a f" "k = fattr_key (fa_id f)"
    | (dentry) d where "dentry_in s a d" "k = dentry_key (d_dir d) (d_hash d)" "d_hash d = nameHash (d_name d)"
    | (chunk) c i where "chunk_in s a c" "chunk_fid s c = Some i" "k = chunk_key i (c_offset c)" "0 \<le> c_offset c" "c_offset c < 2 ^ 63" "CHUNKSIZE dvd c_offset c"
proof -
  have l: "live s a" by (rule ent_live [OF assms(2)])
  obtain m where m: "objs s a = Some m" "meta_ok m" "meta_key s m = Some k" using ent_key [OF assms] by blast
  show thesis
  proof (cases m)
    case (MFattr f)
    then show ?thesis using m l fattr by (auto simp: in_defs)
  next
    case (MDentry d)
    then show ?thesis using m l dentry by (auto simp: in_defs meta_ok_def)
  next
    case (MChunk c)
    then show ?thesis using m l chunk by (auto simp: in_defs meta_ok_def chunk_fid_def split: bind_splits)
  qed
qed

lemma live_ent: "live s a \<Longrightarrow> \<exists>k. (k, a) \<in> ents s"
  by (auto simp: live_def)

lemma live_key:
  assumes "store_inv s" "live s a" "objs s a = Some m"
  shows "meta_ok m" "\<exists>k. meta_key s m = Some k \<and> (k, a) \<in> ents s"
  using live_ent [OF assms(2)] ent_key [OF assms(1)] assms(3) by fastforce+

lemma fattr_in_ent: "store_inv s \<Longrightarrow> fattr_in s a f \<Longrightarrow> (fattr_key (fa_id f), a) \<in> ents s"
  using live_key(2) [of s a "MFattr f"] by (auto simp: in_defs)

lemma dentry_in_ent: "store_inv s \<Longrightarrow> dentry_in s a d \<Longrightarrow> (dentry_key (d_dir d) (d_hash d), a) \<in> ents s \<and> d_hash d = nameHash (d_name d)"
  using live_key [of s a "MDentry d"] by (auto simp: in_defs meta_ok_def)

lemma chunk_in_ent: "store_inv s \<Longrightarrow> chunk_in s a c \<Longrightarrow>
    \<exists>i. chunk_fid s c = Some i \<and> (chunk_key i (c_offset c), a) \<in> ents s \<and> 0 \<le> c_offset c \<and> c_offset c < 2 ^ 63 \<and> CHUNKSIZE dvd c_offset c"
  using live_key [of s a "MChunk c"] by (auto simp: in_defs meta_ok_def chunk_fid_def split: bind_splits)

lemma store_inv_tree [simp]: "store_inv s \<Longrightarrow> tree_inv (tree s)"
  by (simp add: store_inv_def)

lemma store_addr: "store_inv s \<Longrightarrow> objs s a \<noteq> None \<Longrightarrow> 0 < a \<and> a < nextAddr s"
  unfolding store_inv_def by blast

lemma store_fattr_unique: "store_inv s \<Longrightarrow> fattr_in s a f \<Longrightarrow> fattr_in s b g \<Longrightarrow> fa_id f = fa_id g \<Longrightarrow> a = b"
  unfolding store_inv_def by blast

lemma store_dentry_unique:
  "store_inv s \<Longrightarrow> dentry_in s a d \<Longrightarrow> dentry_in s b e \<Longrightarrow> d_dir d = d_dir e \<Longrightarrow> d_name d = d_name e \<Longrightarrow> a = b"
  unfolding store_inv_def by blast

lemma store_chunk_dentry: "store_inv s \<Longrightarrow> chunk_in s a c \<Longrightarrow> dentry_in s b d \<Longrightarrow> chunk_fid s c \<noteq> Some (d_dir d)"
  unfolding store_inv_def by blast

lemma store_chunk_unique:
  "store_inv s \<Longrightarrow> chunk_in s a c \<Longrightarrow> chunk_in s b e \<Longrightarrow> chunk_fid s c = chunk_fid s e \<Longrightarrow> c_offset c = c_offset e \<Longrightarrow> a = b"
  unfolding store_inv_def by blast

lemma live_addr: "store_inv s \<Longrightarrow> live s a \<Longrightarrow> 0 < a \<and> a < nextAddr s"
  using live_ent [of s a] ent_key [of s _ a] store_addr [of s a] by force

subsection \<open>Searching the store\<close>

lemma getFattr_in:
  assumes "store_inv s" "fattr_in s a f"
  shows "getFattr s (fa_id f) = a"
proof -
  have "set (all_key (fattr_key (fa_id f)) (tree s)) = {b. (fattr_key (fa_id f), b) \<in> ents s}"
    using assms by (simp add: set_all_key)
  also have "\<dots> = {a}"
  proof -
    have "b = a" if b: "(fattr_key (fa_id f), b) \<in> ents s" for b
      using assms(1) b
    proof (cases rule: ent_cases)
      case (fattr g)
      then show ?thesis using store_fattr_unique [OF assms(1), of b g a f] assms(2) by simp
    qed auto
    then show ?thesis using fattr_in_ent [OF assms] by blast
  qed
  finally have set: "set (all_key (fattr_key (fa_id f)) (tree s)) = {a}" .
  show ?thesis
  proof (cases "all_key (fattr_key (fa_id f)) (tree s)")
    case (Cons x xs)
    then have "x = a" using set by simp
    then show ?thesis unfolding getFattr_all_key [OF store_inv_tree [OF assms(1)]] Cons by simp
  qed (use set in simp)
qed

lemma getFattr_out:
  assumes "store_inv s" "\<And>a f. fattr_in s a f \<Longrightarrow> fa_id f \<noteq> i"
  shows "getFattr s i = 0"
proof -
  have "(fattr_key i, b) \<notin> ents s" for b
  proof
    assume "(fattr_key i, b) \<in> ents s"
    with assms(1) show False by (cases rule: ent_cases) (use assms(2) in auto)
  qed
  then have all: "all_key (fattr_key i) (tree s) = []"
    using set_all_key [OF store_inv_tree [OF assms(1)], of "fattr_key i"] by simp
  show ?thesis unfolding getFattr_all_key [OF store_inv_tree [OF assms(1)]] all by simp
qed

lemma getFattr_iff:
  assumes "store_inv s"
  shows "getFattr s i = a \<and> a \<noteq> 0 \<longleftrightarrow> (\<exists>f. fattr_in s a f \<and> fa_id f = i)"
proof
  assume a: "getFattr s i = a \<and> a \<noteq> 0"
  then obtain b f where f: "fattr_in s b f" "fa_id f = i" using getFattr_out [OF assms, of i] by auto
  then show "\<exists>f. fattr_in s a f \<and> fa_id f = i" using getFattr_in [OF assms f(1)] a by auto
next
  assume "\<exists>f. fattr_in s a f \<and> fa_id f = i"
  then obtain f where "fattr_in s a f" "fa_id f = i" by blast
  then show "getFattr s i = a \<and> a \<noteq> 0" using getFattr_in [OF assms] live_addr [OF assms, of a] by (auto simp: fattr_in_def)
qed

lemma find_name_spec:
  assumes "\<And>a. a \<in> set as \<Longrightarrow> \<exists>d. dentry_at s a = Some d"
  shows "\<exists>r. find_name s h n as = Some r \<and>
    (r = 0 \<and> (\<forall>a\<in>set as. \<forall>d. dentry_at s a = Some d \<longrightarrow> \<not> (d_hash d = h \<and> d_name d = n)) \<or>
     r \<in> set as \<and> (\<exists>d. dentry_at s r = Some d \<and> d_hash d = h \<and> d_name d = n))"
  using assms
proof (induction as)
  case (Cons a as)
  obtain d where "dentry_at s a = Some d" using Cons.prems by force
  then show ?case using Cons by (cases "d_hash d = h \<and> d_name d = n") auto
qed simp

lemma dentry_at_in: "dentry_in s a d \<Longrightarrow> dentry_at s a = Some d"
  by (simp add: in_defs dentry_at_def)

lemma fattr_at_in: "fattr_in s a f \<Longrightarrow> fattr_at s a = Some f"
  by (simp add: in_defs fattr_at_def)

lemma chunk_at_in: "chunk_in s a c \<Longrightarrow> chunk_at s a = Some c"
  by (simp add: in_defs chunk_at_def)

lemma getDentry_spec:
  assumes "store_inv s"
  shows "\<exists>r. getDentry s dir n = Some r \<and>
    (r = 0 \<and> (\<forall>a d. dentry_in s a d \<longrightarrow> \<not> (d_dir d = dir \<and> d_name d = n)) \<or>
     (\<exists>d. dentry_in s r d \<and> d_dir d = dir \<and> d_name d = n))"
proof -
  let ?k = "dentry_key dir (nameHash n)"
  have set: "set (all_key ?k (tree s)) = {a. (?k, a) \<in> ents s}" using assms by (simp add: set_all_key)
  have in_k: "\<exists>d. dentry_in s a d \<and> d_dir d = dir" if "(?k, a) \<in> ents s" for a
    using assms that by (cases rule: ent_cases) (auto dest: dentry_key_dir)
  then have "\<exists>d. dentry_at s a = Some d" if "a \<in> set (all_key ?k (tree s))" for a
    using that dentry_at_in unfolding set by blast
  then obtain r where
    r: "getDentry s dir n = Some r"
    "r = 0 \<and> (\<forall>a\<in>set (all_key ?k (tree s)). \<forall>d. dentry_at s a = Some d \<longrightarrow> \<not> (d_hash d = nameHash n \<and> d_name d = n)) \<or>
     r \<in> set (all_key ?k (tree s)) \<and> (\<exists>d. dentry_at s r = Some d \<and> d_hash d = nameHash n \<and> d_name d = n)"
    using find_name_spec [of "all_key ?k (tree s)" s "nameHash n" n] unfolding getDentry_def Let_def by blast
  from r(2) show ?thesis
  proof
    assume 0: "r = 0 \<and> (\<forall>a\<in>set (all_key ?k (tree s)). \<forall>d. dentry_at s a = Some d \<longrightarrow> \<not> (d_hash d = nameHash n \<and> d_name d = n))"
    have "\<not> (d_dir d = dir \<and> d_name d = n)" if "dentry_in s a d" for a d
      using dentry_in_ent [OF assms that] dentry_at_in [OF that] 0 unfolding set by auto
    then show ?thesis using r(1) 0 by blast
  next
    assume 1: "r \<in> set (all_key ?k (tree s)) \<and> (\<exists>d. dentry_at s r = Some d \<and> d_hash d = nameHash n \<and> d_name d = n)"
    then obtain d d' where "dentry_in s r d" "d_dir d = dir" "dentry_at s r = Some d'" "d_name d' = n"
      using in_k [of r] unfolding set by auto
    then show ?thesis using r(1) dentry_at_in [of s r d] by (intro exI [of _ r]) auto
  qed
qed

lemma getDentry_in:
  assumes "store_inv s" "dentry_in s a d"
  shows "getDentry s (d_dir d) (d_name d) = Some a"
proof -
  obtain r where r: "getDentry s (d_dir d) (d_name d) = Some r"
    "r = 0 \<and> (\<forall>a' d'. dentry_in s a' d' \<longrightarrow> \<not> (d_dir d' = d_dir d \<and> d_name d' = d_name d)) \<or>
     (\<exists>d'. dentry_in s r d' \<and> d_dir d' = d_dir d \<and> d_name d' = d_name d)"
    using getDentry_spec [OF assms(1)] by metis
  then obtain d' where "dentry_in s r d'" "d_dir d' = d_dir d" "d_name d' = d_name d" using assms(2) by blast
  then show ?thesis using r(1) store_dentry_unique [OF assms(1) _ assms(2), of r d'] by simp
qed

lemma getDentry_out:
  assumes "store_inv s" "\<And>a d. dentry_in s a d \<Longrightarrow> \<not> (d_dir d = dir \<and> d_name d = n)"
  shows "getDentry s dir n = Some 0"
proof -
  obtain r where r: "getDentry s dir n = Some r"
    "r = 0 \<and> (\<forall>a d. dentry_in s a d \<longrightarrow> \<not> (d_dir d = dir \<and> d_name d = n)) \<or>
     (\<exists>d. dentry_in s r d \<and> d_dir d = dir \<and> d_name d = n)"
    using getDentry_spec [OF assms(1)] by metis
  then show ?thesis using assms(2) by auto
qed

end
