(* ===== verification/NsChange.thy ===== *)
theory NsChange
  imports NsStore
begin

text \<open>
  How inserting into, deleting from and allocating in the metadata store change it, and that
  the invariant of the store is kept.
\<close>

subsection \<open>Changes of the store\<close>

text \<open>States that agree on the tree and the objects.\<close>

definition same_store :: "NS \<Rightarrow> NS \<Rightarrow> bool" where
  "same_store s s' \<longleftrightarrow> tree s' = tree s \<and> objs s' = objs s \<and> nextAddr s' = nextAddr s"

lemma chunk_fid_cong: "objs s' = objs s \<Longrightarrow> chunk_fid s' = chunk_fid s"
  by (simp add: chunk_fid_def [abs_def] fattr_at_def)

lemma meta_key_cong: "fattr_at s' = fattr_at s \<Longrightarrow> meta_key s' m = meta_key s m"
  by (cases m) auto

lemma at_cong:
  "objs s' = objs s \<Longrightarrow> fattr_at s' = fattr_at s"
  "objs s' = objs s \<Longrightarrow> dentry_at s' = dentry_at s"
  "objs s' = objs s \<Longrightarrow> chunk_at s' = chunk_at s"
  by (auto simp: fattr_at_def dentry_at_def chunk_at_def fun_eq_iff)

lemma same_store_in:
  assumes "same_store s s'"
  shows "live s' = live s" "fattr_in s' = fattr_in s" "dentry_in s' = dentry_in s" "chunk_in s' = chunk_in s"
    "chunk_fid s' = chunk_fid s" "fattr_at s' = fattr_at s" "dentry_at s' = dentry_at s" "chunk_at s' = chunk_at s"
  using assms by (auto simp: same_store_def live_def in_defs fun_eq_iff chunk_fid_def fattr_at_def dentry_at_def chunk_at_def)

lemma same_store_inv: "same_store s s' \<Longrightarrow> store_inv s' \<longleftrightarrow> store_inv s"
  using same_store_in [of s s'] meta_key_cong [of s' s]
  by (simp add: store_inv_def ent_ok_def same_store_def cong: option.case_cong)

lemma store_distinct: "store_inv s \<Longrightarrow> distinct (map snd (entries (tree s)))"
  by (simp add: store_inv_def)

subsection \<open>Insertion\<close>

text \<open>What an object must satisfy so that it can enter the tree.\<close>

definition new_ok :: "NS \<Rightarrow> Meta \<Rightarrow> bool" where
  "new_ok s m \<longleftrightarrow> meta_ok m \<and> meta_key s m \<noteq> None \<and>
     (case m of
        MFattr f \<Rightarrow> \<forall>b g. fattr_in s b g \<longrightarrow> fa_id g \<noteq> fa_id f
      | MDentry d \<Rightarrow> (\<forall>b e. dentry_in s b e \<longrightarrow> \<not> (d_dir e = d_dir d \<and> d_name e = d_name d)) \<and>
                     (\<forall>b c. chunk_in s b c \<longrightarrow> chunk_fid s c \<noteq> Some (d_dir d))
      | MChunk c \<Rightarrow> (\<forall>b d. dentry_in s b d \<longrightarrow> chunk_fid s c \<noteq> Some (d_dir d)) \<and>
                    (\<forall>b e. chunk_in s b e \<longrightarrow> \<not> (chunk_fid s e = chunk_fid s c \<and> c_offset e = c_offset c)))"

definition added :: "NS \<Rightarrow> addr \<Rightarrow> NS \<Rightarrow> bool" where
  "added s a s' \<longleftrightarrow> (\<exists>t. s' = s\<lparr>tree := t\<rparr>) \<and> store_inv s' \<and> (\<forall>b. live s' b \<longleftrightarrow> live s b \<or> b = a)"

lemma meta_key_below: "meta_key s m = Some k \<Longrightarrow> k < sentinel"
  by (cases m) (auto split: bind_splits)

lemma new_ok_unique:
  assumes inv: "store_inv s" and m: "objs s a = Some m" "new_ok s m" and l: "\<And>b. live s' b \<longleftrightarrow> live s b \<or> b = a" and o: "objs s' = objs s"
  shows "\<forall>b c f g. fattr_in s' b f \<longrightarrow> fattr_in s' c g \<longrightarrow> fa_id f = fa_id g \<longrightarrow> b = c"
    "\<forall>b c d e. dentry_in s' b d \<longrightarrow> dentry_in s' c e \<longrightarrow> d_dir d = d_dir e \<longrightarrow> d_name d = d_name e \<longrightarrow> b = c"
    "\<forall>b b' c d. chunk_in s' b c \<longrightarrow> dentry_in s' b' d \<longrightarrow> chunk_fid s' c \<noteq> Some (d_dir d)"
    "\<forall>b b' c e. chunk_in s' b c \<longrightarrow> chunk_in s' b' e \<longrightarrow> chunk_fid s' c = chunk_fid s' e \<longrightarrow> c_offset c = c_offset e \<longrightarrow> b = b'"
proof -
  have f: "fattr_in s' b f \<longleftrightarrow> fattr_in s b f \<or> b = a \<and> m = MFattr f" for b f using l o m(1) by (auto simp: in_defs)
  have d: "dentry_in s' b d \<longleftrightarrow> dentry_in s b d \<or> b = a \<and> m = MDentry d" for b d using l o m(1) by (auto simp: in_defs)
  have c: "chunk_in s' b c \<longleftrightarrow> chunk_in s b c \<or> b = a \<and> m = MChunk c" for b c using l o m(1) by (auto simp: in_defs)
  show "\<forall>b c f g. fattr_in s' b f \<longrightarrow> fattr_in s' c g \<longrightarrow> fa_id f = fa_id g \<longrightarrow> b = c"
    unfolding f using store_fattr_unique [OF inv] m(2) by (cases m) (auto simp: new_ok_def, metis+)
  show "\<forall>b c d e. dentry_in s' b d \<longrightarrow> dentry_in s' c e \<longrightarrow> d_dir d = d_dir e \<longrightarrow> d_name d = d_name e \<longrightarrow> b = c"
    unfolding d using store_dentry_unique [OF inv] m(2) by (cases m) (auto simp: new_ok_def, metis+)
  show "\<forall>b b' c d. chunk_in s' b c \<longrightarrow> dentry_in s' b' d \<longrightarrow> chunk_fid s' c \<noteq> Some (d_dir d)"
    unfolding c d chunk_fid_cong [OF o] using store_chunk_dentry [OF inv] m(2) by (cases m) (auto simp: new_ok_def)
  show "\<forall>b b' c e. chunk_in s' b c \<longrightarrow> chunk_in s' b' e \<longrightarrow> chunk_fid s' c = chunk_fid s' e \<longrightarrow> c_offset c = c_offset e \<longrightarrow> b = b'"
    unfolding c chunk_fid_cong [OF o] using store_chunk_unique [OF inv] m(2) by (cases m) (auto simp: new_ok_def, metis+)
qed

lemma insert_meta_added:
  assumes inv: "store_inv s" and m: "objs s a = Some m" "new_ok s m" and nl: "\<not> live s a"
  shows "\<exists>s'. insert_meta a s = Some s' \<and> added s a s'"
proof -
  obtain k where k: "meta_key s m = Some k" using m(2) by (auto simp: new_ok_def)
  obtain t where t: "Tree_insert k a (tree s) = Some t" "tree_inv t"
    using mt.ins_law [OF store_inv_tree [OF inv] meta_key_below [OF k]] by blast
  have e: "set (entries t) = insert (k, a) (ents s)" "mset (entries t) = add_mset (k, a) (mset (entries (tree s)))"
    using mt.ins_set [OF store_inv_tree [OF inv] meta_key_below [OF k] t(1)] by auto
  let ?s = "s\<lparr>tree := t\<rparr>"
  have l: "live ?s b \<longleftrightarrow> live s b \<or> b = a" for b using e(1) by (auto simp: live_def)
  have "mset (map snd (entries t)) = mset (a # map snd (entries (tree s)))" using e(2) by simp
  moreover have "distinct (a # map snd (entries (tree s)))" using store_distinct [OF inv] nl by (simp add: live_def)
  ultimately have "distinct (map snd (entries t))" by (metis mset_eq_imp_distinct_iff)
  moreover have "ent_ok ?s x" if "x \<in> ents ?s" for x
  proof -
    have "x \<in> ents s \<or> x = (k, a)" using that e(1) by auto
    then have "ent_ok s x"
    proof
      assume "x \<in> ents s"
      then show ?thesis using inv unfolding store_inv_def by blast
    next
      assume "x = (k, a)"
      then show ?thesis using m k by (simp add: ent_ok_def new_ok_def)
    qed
    then show ?thesis using meta_key_cong [of ?s s] at_cong(1) [of ?s s] by (auto simp: ent_ok_def split: option.splits)
  qed
  ultimately have "store_inv ?s"
    using inv t(2) new_ok_unique [OF inv m l] unfolding store_inv_def by (intro conjI) simp_all
  then show ?thesis using t(1) m(1) k l by (intro exI [of _ ?s]) (auto simp: insert_meta_def added_def)
qed

subsection \<open>Deletion\<close>

definition removed :: "NS \<Rightarrow> addr \<Rightarrow> NS \<Rightarrow> bool" where
  "removed s a s' \<longleftrightarrow> (\<exists>t. s' = s\<lparr>tree := t, objs := (objs s)(a := None)\<rparr>) \<and> store_inv s' \<and> hgt (tree s') \<le> 16 \<and>
     (\<forall>b. live s' b \<longleftrightarrow> live s b \<and> b \<noteq> a)"

lemma key_unique: "store_inv s \<Longrightarrow> (k, a) \<in> ents s \<Longrightarrow> (k', a) \<in> ents s \<Longrightarrow> k = k'"
  using ent_key [of s k a] ent_key [of s k' a] by auto

lemma Tree_del_only:
  assumes inv: "store_inv s" "hgt (tree s) \<le> 16" and e: "(k, a) \<in> ents s" "meta_match s m a"
    and only: "\<And>b. (k, b) \<in> ents s \<Longrightarrow> meta_match s m b \<Longrightarrow> b = a" and k: "k < sentinel"
  shows "\<exists>t. Tree_del k (meta_match s m) (tree s) = Some (Some a, t) \<and> tree_inv t \<and> hgt t \<le> 16 \<and>
    entries t = remove1 (k, a) (entries (tree s))"
proof -
  have "matches k (meta_match s m) x \<longleftrightarrow> x = (k, a)" if x: "x \<in> ents s" for x
  proof
    assume "matches k (meta_match s m) x"
    then have "(k, snd x) \<in> ents s" "meta_match s m (snd x)" "fst x = k" using x by (auto simp: matches_def)
    with only show "x = (k, a)" by (metis prod.collapse)
  qed (use e(2) in \<open>simp add: matches_def\<close>)
  from mt.del_unique [OF store_inv_tree [OF inv(1)] inv(2) k e(1) this] show ?thesis by blast
qed

lemma distinct_map_remove: "distinct (map f xs) \<Longrightarrow> distinct (map f (remove1 x xs))"
  by (induction xs) (auto dest: subsetD [OF set_remove1_subset])

text \<open>Taking an object out of the tree and the store.\<close>

lemma store_inv_remove:
  assumes inv: "store_inv s" and e: "(k, a) \<in> ents s" and t: "tree_inv (tree s')" "entries (tree s') = remove1 (k, a) (entries (tree s))"
    and o: "objs s' = (objs s)(a := None)" "nextAddr s' = nextAddr s"
    and ch: "\<And>b c. chunk_in s b c \<Longrightarrow> b \<noteq> a \<Longrightarrow> c_fattr c \<noteq> a"
  shows "store_inv s'" "live s' b \<longleftrightarrow> live s b \<and> b \<noteq> a"
proof -
  have dist: "distinct (entries (tree s))" using store_distinct [OF inv] by (simp add: distinct_map)
  then have ents: "ents s' = ents s - {(k, a)}" using t(2) by simp
  have live_iff: "live u b \<longleftrightarrow> (\<exists>j. (j, b) \<in> ents u)" for u b by (force simp: live_def)
  show l: "live s' b \<longleftrightarrow> live s b \<and> b \<noteq> a" for b
    unfolding live_iff ents using key_unique [OF inv e] by blast
  have f: "fattr_in s' b f \<longleftrightarrow> fattr_in s b f \<and> b \<noteq> a" for b f using l o(1) by (auto simp: in_defs)
  have d: "dentry_in s' b f \<longleftrightarrow> dentry_in s b f \<and> b \<noteq> a" for b f using l o(1) by (auto simp: in_defs)
  have c: "chunk_in s' b f \<longleftrightarrow> chunk_in s b f \<and> b \<noteq> a" for b f using l o(1) by (auto simp: in_defs)
  have fid: "chunk_fid s' c = chunk_fid s c" if "chunk_in s b c" "b \<noteq> a" for b c
    using ch [OF that] o(1) by (simp add: chunk_fid_def fattr_at_def)
  have "ent_ok s' x" if x: "x \<in> ents s'" for x
  proof -
    obtain j b where b: "x = (j, b)" "(j, b) \<in> ents s" "b \<noteq> a"
      using x key_unique [OF inv e] unfolding ents by (metis DiffD1 DiffD2 insertI1 prod.collapse)
    then obtain m where m: "objs s b = Some m" "meta_ok m" "meta_key s m = Some j" using ent_key [OF inv] by blast
    have "meta_key s' m = meta_key s m"
    proof (cases m)
      case (MChunk ci)
      then have "c_fattr ci \<noteq> a" using ch [of b ci] m(1) b(3) ent_live [OF b(2)] by (simp add: chunk_in_def)
      then show ?thesis using MChunk o(1) by (simp add: fattr_at_def)
    qed simp_all
    then show ?thesis using m b o(1) by (simp add: ent_ok_def)
  qed
  moreover have "distinct (map snd (entries (tree s')))"
    unfolding t(2) by (rule distinct_map_remove [OF store_distinct [OF inv]])
  moreover have "\<forall>b c f g. fattr_in s' b f \<longrightarrow> fattr_in s' c g \<longrightarrow> fa_id f = fa_id g \<longrightarrow> b = c"
    unfolding f using store_fattr_unique [OF inv] by blast
  moreover have "\<forall>b c p q. dentry_in s' b p \<longrightarrow> dentry_in s' c q \<longrightarrow> d_dir p = d_dir q \<longrightarrow> d_name p = d_name q \<longrightarrow> b = c"
    unfolding d using store_dentry_unique [OF inv] by blast
  moreover have "\<forall>b b' p q. chunk_in s' b p \<longrightarrow> dentry_in s' b' q \<longrightarrow> chunk_fid s' p \<noteq> Some (d_dir q)"
  proof (intro allI impI)
    fix b b' p q assume "chunk_in s' b p" "dentry_in s' b' q"
    then show "chunk_fid s' p \<noteq> Some (d_dir q)" using store_chunk_dentry [OF inv, of b p b' q] fid [of b p] c d by simp
  qed
  moreover have "\<forall>b b' p q. chunk_in s' b p \<longrightarrow> chunk_in s' b' q \<longrightarrow> chunk_fid s' p = chunk_fid s' q \<longrightarrow> c_offset p = c_offset q \<longrightarrow> b = b'"
  proof (intro allI impI)
    fix b b' p q assume "chunk_in s' b p" "chunk_in s' b' q" "chunk_fid s' p = chunk_fid s' q" "c_offset p = c_offset q"
    then show "b = b'" using store_chunk_unique [OF inv, of b p b' q] fid [of b p] fid [of b' q] c by simp
  qed
  ultimately show "store_inv s'"
    using inv t(1) o unfolding store_inv_def by (intro conjI) simp_all
qed

lemma del_dentry_removed:
  assumes inv: "store_inv s" "hgt (tree s) \<le> 16" and d: "dentry_in s a d"
    and d': "d_dir d' = d_dir d" "d_name d' = d_name d" "d_hash d' = nameHash (d_name d')"
  shows "\<exists>s'. del_meta (MDentry d') s = Some (0, s') \<and> removed s a s'"
proof -
  let ?k = "dentry_key (d_dir d) (d_hash d)"
  have e: "(?k, a) \<in> ents s" "d_hash d = nameHash (d_name d)" using dentry_in_ent [OF inv(1) d] by auto
  have only: "b = a" if "(?k, b) \<in> ents s" "meta_match s (MDentry d') b" for b
    using inv(1) that(1)
  proof (cases rule: ent_cases)
    case (dentry p)
    have "d_dir p = d_dir d" using dentry_key_dir [OF dentry(2)] by simp
    moreover have "d_name p = d_name d" using that(2) dentry(1) d'(2) by (simp add: in_defs)
    ultimately show ?thesis by (rule store_dentry_unique [OF inv(1) dentry(1) d])
  qed auto
  have match: "meta_match s (MDentry d') a" using d d' e(2) by (simp add: in_defs)
  obtain t where t: "Tree_del ?k (meta_match s (MDentry d')) (tree s) = Some (Some a, t)" "tree_inv t" "hgt t \<le> 16"
    "entries t = remove1 (?k, a) (entries (tree s))"
    using Tree_del_only [OF inv e(1) match only keys_below(2)] by blast
  let ?s = "s\<lparr>tree := t, objs := (objs s)(a := None)\<rparr>"
  have "c_fattr c \<noteq> a" if "chunk_in s b c" for b c
    using chunk_in_ent [OF inv(1) that] d by (auto simp: chunk_fid_def fattr_at_def in_defs)
  then have "store_inv ?s" "\<And>b. live ?s b \<longleftrightarrow> live s b \<and> b \<noteq> a"
    using store_inv_remove [OF inv(1) e(1), of ?s] t(2,4) by simp_all
  moreover have "del_meta (MDentry d') s = Some (0, ?s)"
    using t(1) d d' e(2) by (simp add: del_meta_def meta_destroy_def in_defs)
  ultimately show ?thesis using t(3) by (auto simp: removed_def)
qed

lemma del_fattr_removed:
  assumes inv: "store_inv s" "hgt (tree s) \<le> 16" and f: "fattr_in s a f" and ch: "\<And>b c. chunk_in s b c \<Longrightarrow> c_fattr c \<noteq> a"
  shows "\<exists>s'. del_meta (MFattr f) s = Some (0, s') \<and> removed s a s'"
proof -
  let ?k = "fattr_key (fa_id f)"
  have e: "(?k, a) \<in> ents s" by (rule fattr_in_ent [OF inv(1) f])
  have only: "b = a" if "(?k, b) \<in> ents s" "meta_match s (MFattr f) b" for b
    using inv(1) that(1)
  proof (cases rule: ent_cases)
    case (fattr g)
    then show ?thesis using store_fattr_unique [OF inv(1) fattr(1) f] by simp
  qed auto
  have match: "meta_match s (MFattr f) a" using f by (simp add: in_defs)
  obtain t where t: "Tree_del ?k (meta_match s (MFattr f)) (tree s) = Some (Some a, t)" "tree_inv t" "hgt t \<le> 16"
    "entries t = remove1 (?k, a) (entries (tree s))"
    using Tree_del_only [OF inv e match only keys_below(1)] by blast
  let ?s = "s\<lparr>tree := t, objs := (objs s)(a := None)\<rparr>"
  have "store_inv ?s" "\<And>b. live ?s b \<longleftrightarrow> live s b \<and> b \<noteq> a"
    using store_inv_remove [OF inv(1) e, of ?s] t(2,4) ch by simp_all
  moreover have "del_meta (MFattr f) s = Some (0, ?s)"
    using t(1) f by (simp add: del_meta_def meta_destroy_def in_defs)
  ultimately show ?thesis using t(3) by (auto simp: removed_def)
qed

subsection \<open>Allocation and updates\<close>

lemma alloc_inv:
  assumes "store_inv s" "alloc m s = (a, s')"
  shows "store_inv s'" "live s' = live s" "\<not> live s' a" "objs s' a = Some m" "objs s a = None" "a \<noteq> 0" "tree s' = tree s"
    "\<And>b. b \<noteq> a \<Longrightarrow> objs s' b = objs s b"
proof -
  have s': "s' = s\<lparr>objs := (objs s)(a \<mapsto> m), nextAddr := Suc a\<rparr>" "a = nextAddr s" using assms(2) by (auto simp: alloc_def Let_def)
  have fresh: "objs s a = None" using store_addr [OF assms(1), of a] s'(2) by (cases "objs s a") auto
  show "objs s a = None" by (rule fresh)
  show "tree s' = tree s" "objs s' a = Some m" "\<And>b. b \<noteq> a \<Longrightarrow> objs s' b = objs s b" by (simp_all add: s'(1))
  show l: "live s' = live s" by (simp add: s'(1) live_def fun_eq_iff)
  show "a \<noteq> 0" using assms(1) s'(2) by (simp add: store_inv_def)
  have na: "\<not> live s a" using live_addr [OF assms(1), of a] s'(2) by auto
  then show "\<not> live s' a" using l by simp
  have f: "fattr_in s' b f \<longleftrightarrow> fattr_in s b f" "dentry_in s' b d \<longleftrightarrow> dentry_in s b d" "chunk_in s' b c \<longleftrightarrow> chunk_in s b c" for b f d c
    using na l by (auto simp: in_defs s'(1))
  have at: "fattr_at s' b = fattr_at s b" if "fattr_at s b \<noteq> None" for b
    using that fresh by (auto simp: fattr_at_def s'(1))
  have fid: "chunk_fid s' c = chunk_fid s c" if "chunk_in s b c" for b c
    using chunk_in_ent [OF assms(1) that] at by (fastforce simp: chunk_fid_def)
  have "ent_ok s' x" if x: "x \<in> ents s'" for x
  proof -
    obtain k b where b: "x = (k, b)" by (cases x)
    then have b2: "(k, b) \<in> ents s" using x by (simp add: s'(1))
    then obtain m' where m: "objs s b = Some m'" "meta_ok m'" "meta_key s m' = Some k" using ent_key [OF assms(1)] by blast
    have "meta_key s' m' = Some k"
    proof (cases m')
      case (MChunk ci)
      then show ?thesis using m(3) at [of "c_fattr ci"] by (auto split: bind_splits)
    qed (use m(3) in simp_all)
    moreover have "b \<noteq> a" using m(1) fresh by auto
    ultimately show ?thesis using m(1,2) b by (simp add: ent_ok_def s'(1))
  qed
  moreover have "\<forall>b. objs s' b \<noteq> None \<longrightarrow> 0 < b \<and> b < nextAddr s'"
    using store_addr [OF assms(1)] \<open>a \<noteq> 0\<close> s' by (auto simp: less_Suc_eq)
  moreover have "\<forall>b c f g. fattr_in s' b f \<longrightarrow> fattr_in s' c g \<longrightarrow> fa_id f = fa_id g \<longrightarrow> b = c"
    unfolding f using store_fattr_unique [OF assms(1)] by blast
  moreover have "\<forall>b c p q. dentry_in s' b p \<longrightarrow> dentry_in s' c q \<longrightarrow> d_dir p = d_dir q \<longrightarrow> d_name p = d_name q \<longrightarrow> b = c"
    unfolding f using store_dentry_unique [OF assms(1)] by blast
  moreover have "\<forall>b b' p q. chunk_in s' b p \<longrightarrow> dentry_in s' b' q \<longrightarrow> chunk_fid s' p \<noteq> Some (d_dir q)"
  proof (intro allI impI)
    fix b b' p q assume "chunk_in s' b p" "dentry_in s' b' q"
    then show "chunk_fid s' p \<noteq> Some (d_dir q)" using store_chunk_dentry [OF assms(1), of b p b' q] fid [of b p] f by simp
  qed
  moreover have "\<forall>b b' p q. chunk_in s' b p \<longrightarrow> chunk_in s' b' q \<longrightarrow> chunk_fid s' p = chunk_fid s' q \<longrightarrow> c_offset p = c_offset q \<longrightarrow> b = b'"
  proof (intro allI impI)
    fix b b' p q assume "chunk_in s' b p" "chunk_in s' b' q" "chunk_fid s' p = chunk_fid s' q" "c_offset p = c_offset q"
    then show "b = b'" using store_chunk_unique [OF assms(1), of b p b' q] fid [of b p] fid [of b' q] f by simp
  qed
  ultimately show "store_inv s'"
    using assms(1) s' unfolding store_inv_def by (intro conjI) simp_all
qed

end
