(* ===== verification/NsViews.thy ===== *)
theory NsViews
  imports NsChange
begin

text \<open>
  The attributes, entries and chunks of a state as sets, states that differ only in the
  counters, and the accounting of space along the chain of parents.
\<close>

subsection \<open>Attributes without their counters\<close>

text \<open>
  The parts of the attributes that the structure of the name space does not depend on are
  set to zero; states are similar when they agree otherwise.
\<close>

definition strip :: "MetaFattr \<Rightarrow> MetaFattr" where
  "strip f = f\<lparr>filesize := 0, subcount1 := 0, subcount2 := 0, mtime := 0, numReplicas := 0, minSTier := 0, maxSTier := 0\<rparr>"

lemma strip_simps [simp]:
  "fa_id (strip f) = fa_id f" "fa_type (strip f) = fa_type f" "parent (strip f) = parent f" "strip (strip f) = strip f"
  "user (strip f) = user f" "group (strip f) = group f" "mode (strip f) = mode f"
  by (simp_all add: strip_def)

lemma strip_upd [simp]:
  "strip (filesize_update g f) = strip f" "strip (subcount1_update g f) = strip f" "strip (subcount2_update g f) = strip f"
  "strip (mtime_update g f) = strip f" "strip (numReplicas_update h f) = strip f"
  "strip (minSTier_update g f) = strip f" "strip (maxSTier_update g f) = strip f"
  by (simp_all add: strip_def)

lemma strip_parent [simp]: "strip (parent_update g f) = parent_update g (strip f)"
  by (simp add: strip_def)

lemma strip_eq:
  assumes "strip f = strip g"
  shows "fa_id f = fa_id g" "fa_type f = fa_type g" "parent f = parent g" "user f = user g" "group f = group g" "mode f = mode g"
  using assms by (metis strip_simps)+

fun strip_meta :: "Meta \<Rightarrow> Meta" where
  "strip_meta (MFattr f) = MFattr (strip f)"
| "strip_meta m = m"

lemma strip_meta_iff [simp]:
  "strip_meta m = MDentry d \<longleftrightarrow> m = MDentry d" "strip_meta m = MChunk c \<longleftrightarrow> m = MChunk c"
  "MDentry d = strip_meta m \<longleftrightarrow> m = MDentry d" "MChunk c = strip_meta m \<longleftrightarrow> m = MChunk c"
  by (cases m; auto)+

lemma strip_meta_fattr: "strip_meta m = MFattr g \<longleftrightarrow> (\<exists>f. m = MFattr f \<and> strip f = g)"
  by (cases m) auto

text \<open>The objects in the tree, by kind.\<close>

definition FS :: "NS \<Rightarrow> (addr \<times> MetaFattr) set" where
  "FS s = {(a, strip f) |a f. fattr_in s a f}"

definition DS :: "NS \<Rightarrow> (addr \<times> MetaDentry) set" where
  "DS s = {(a, d). dentry_in s a d}"

definition CS :: "NS \<Rightarrow> (addr \<times> MetaChunkInfo) set" where
  "CS s = {(a, c). chunk_in s a c}"

definition similar :: "NS \<Rightarrow> NS \<Rightarrow> bool" where
  "similar s s' \<longleftrightarrow> tree s' = tree s \<and> nextAddr s' = nextAddr s \<and>
     (\<forall>a. map_option strip_meta (objs s' a) = map_option strip_meta (objs s a))"

lemma similar_refl [simp]: "similar s s"
  by (simp add: similar_def)

lemma similar_trans: "similar s s' \<Longrightarrow> similar s' s'' \<Longrightarrow> similar s s''"
  by (simp add: similar_def)

lemma similar_sym: "similar s s' \<Longrightarrow> similar s' s"
  by (simp add: similar_def)

lemma similar_objs:
  assumes "similar s s'"
  shows "objs s' a = Some (MDentry d) \<longleftrightarrow> objs s a = Some (MDentry d)" "objs s' a = Some (MChunk c) \<longleftrightarrow> objs s a = Some (MChunk c)"
    "objs s a = Some (MFattr f) \<Longrightarrow> \<exists>f'. objs s' a = Some (MFattr f') \<and> strip f' = strip f" "objs s' a = None \<longleftrightarrow> objs s a = None"
proof -
  have *: "map_option strip_meta (objs s' a) = map_option strip_meta (objs s a)" using assms by (simp add: similar_def)
  show "objs s' a = Some (MDentry d) \<longleftrightarrow> objs s a = Some (MDentry d)" using * by (cases "objs s a"; cases "objs s' a"; auto)
  show "objs s' a = Some (MChunk c) \<longleftrightarrow> objs s a = Some (MChunk c)" using * by (cases "objs s a"; cases "objs s' a"; auto)
  show "objs s a = Some (MFattr f) \<Longrightarrow> \<exists>f'. objs s' a = Some (MFattr f') \<and> strip f' = strip f"
    using * by (cases "objs s' a") (auto simp: strip_meta_fattr)
  show "objs s' a = None \<longleftrightarrow> objs s a = None" using * by (cases "objs s a"; cases "objs s' a"; auto)
qed

lemma similar_in:
  assumes "similar s s'"
  shows "live s' = live s" "dentry_in s' = dentry_in s" "chunk_in s' = chunk_in s" "dentry_at s' = dentry_at s" "chunk_at s' = chunk_at s"
    "fattr_in s a f \<Longrightarrow> \<exists>f'. fattr_in s' a f' \<and> strip f' = strip f" "fattr_at s a = Some f \<Longrightarrow> \<exists>f'. fattr_at s' a = Some f' \<and> strip f' = strip f"
    "fattr_at s' a = None \<longleftrightarrow> fattr_at s a = None"
proof -
  note o = similar_objs [OF assms]
  show l: "live s' = live s" using assms by (simp add: live_def similar_def fun_eq_iff)
  show "dentry_in s' = dentry_in s" "chunk_in s' = chunk_in s" by (auto simp: fun_eq_iff in_defs l o)
  show "dentry_at s' = dentry_at s"
  proof
    show "dentry_at s' a = dentry_at s a" for a
      using o(1) [of a] o(1) [of a] by (cases "dentry_at s a"; cases "dentry_at s' a") (auto simp: dentry_at_def split: option.splits Meta.splits)
  qed
  show "chunk_at s' = chunk_at s"
  proof
    show "chunk_at s' a = chunk_at s a" for a
      using o(2) [of a] by (cases "chunk_at s a"; cases "chunk_at s' a") (auto simp: chunk_at_def split: option.splits Meta.splits)
  qed
  show "fattr_in s a f \<Longrightarrow> \<exists>f'. fattr_in s' a f' \<and> strip f' = strip f" using o(3) l by (auto simp: in_defs)
  show "fattr_at s a = Some f \<Longrightarrow> \<exists>f'. fattr_at s' a = Some f' \<and> strip f' = strip f"
    using o(3) [of a] by (auto simp: fattr_at_def split: option.splits Meta.splits)
  show "fattr_at s' a = None \<longleftrightarrow> fattr_at s a = None"
    using o(1) [of a] o(2) [of a] o(3) [of a] o(4) [of a]
    by (cases "objs s a"; cases "objs s' a") (auto simp: fattr_at_def split: Meta.splits)
qed

lemma similar_views:
  assumes "similar s s'"
  shows "FS s' = FS s" "DS s' = DS s" "CS s' = CS s" "chunk_fid s' = chunk_fid s"
proof -
  show "DS s' = DS s" "CS s' = CS s" using similar_in(2,3) [OF assms] by (auto simp: DS_def CS_def)
  have "FS s \<subseteq> FS s'" if "similar s s'" for s s'
    using similar_in(6) [OF that] by (auto simp: FS_def) (metis)
  then show "FS s' = FS s" using assms similar_sym by blast
  have "map_option fa_id (fattr_at s' a) = map_option fa_id (fattr_at s a)" for a
    using similar_in(7,8) [OF assms, of a] by (cases "fattr_at s a") (auto dest: strip_eq)
  then show "chunk_fid s' = chunk_fid s" by (simp add: chunk_fid_def fun_eq_iff)
qed


lemma similar_store_inv:
  assumes inv: "store_inv s" and sim: "similar s s'"
  shows "store_inv s'"
proof -
  note v = similar_views [OF sim] similar_in [OF sim]
  have t: "tree s' = tree s" "nextAddr s' = nextAddr s" using sim by (simp_all add: similar_def)
  have bk: "\<exists>g. fattr_in s a g \<and> fa_id g = fa_id f" if "fattr_in s' a f" for a f
    using similar_in(6) [OF similar_sym [OF sim] that] by (auto dest: strip_eq)
  have "ent_ok s' e" if e: "e \<in> ents s'" for e
  proof -
    obtain k a where ka: "e = (k, a)" by (cases e)
    then have ka': "(k, a) \<in> ents s" using e t by simp
    then obtain m where m: "objs s a = Some m" "meta_ok m" "meta_key s m = Some k" using ent_key [OF inv] by blast
    show ?thesis
    proof (cases m)
      case (MFattr f)
      then show ?thesis using similar_objs(3) [OF sim] m ka by (fastforce simp: ent_ok_def meta_ok_def dest: strip_eq)
    next
      case (MDentry d)
      then show ?thesis using similar_objs(1) [OF sim, of a d] m ka by (simp add: ent_ok_def)
    next
      case (MChunk c)
      then have o: "objs s' a = Some (MChunk c)" using similar_objs(2) [OF sim, of a c] m by simp
      obtain f where f: "fattr_at s (c_fattr c) = Some f" "k = chunk_key (fa_id f) (c_offset c)"
        using m(3) MChunk by (auto split: bind_splits)
      obtain f' where f': "fattr_at s' (c_fattr c) = Some f'" "strip f' = strip f" using similar_in(7) [OF sim f(1)] by blast
      have "fa_id f' = fa_id f" using f'(2) by (rule strip_eq)
      then show ?thesis using o ka m(2) MChunk f f'(1) by (simp add: ent_ok_def)
    qed
  qed
  moreover have "\<forall>a. objs s' a \<noteq> None \<longrightarrow> 0 < a \<and> a < nextAddr s'" using store_addr [OF inv] similar_objs(4) [OF sim] t by simp
  moreover have "\<forall>a b f g. fattr_in s' a f \<longrightarrow> fattr_in s' b g \<longrightarrow> fa_id f = fa_id g \<longrightarrow> a = b"
    using bk store_fattr_unique [OF inv] by metis
  ultimately show ?thesis
    using inv v t unfolding store_inv_def by (intro conjI) (simp_all only:, blast+)
qed

lemma similar_lookups:
  assumes "similar s s'"
  shows "getFattr s' = getFattr s" "getDentry s' = getDentry s"
proof -
  have t: "tree s' = tree s" using assms by (simp add: similar_def)
  then show "getFattr s' = getFattr s" by (simp add: getFattr_def fun_eq_iff)
  have "find_name s' h n as = find_name s h n as" for h n as
  proof (induction as)
    case (Cons a as)
    then show ?case by (cases "dentry_at s a") (simp_all add: similar_in(4) [OF assms])
  qed simp
  then show "getDentry s' = getDentry s" using t by (simp add: getDentry_def fun_eq_iff)
qed

lemma upd_fattr_similar:
  assumes "fattr_at s a = Some f" "strip (g f) = strip f"
  shows "\<exists>s'. upd_fattr a g s = Some s' \<and> similar s s' \<and> fattr_at s' a = Some (g f) \<and> s' = s\<lparr>objs := (objs s)(a \<mapsto> MFattr (g f))\<rparr>"
  using assms by (auto simp: upd_fattr_def similar_def fattr_at_def split: option.splits Meta.splits)

subsection \<open>Chains of parents\<close>

text \<open>The addresses above \<open>a\<close> up to the root directory.\<close>

fun anc :: "NS \<Rightarrow> addr \<Rightarrow> addr list \<Rightarrow> bool" where
  "anc s a [] = (case fattr_at s a of None \<Rightarrow> False | Some f \<Rightarrow> parent f = 0 \<and> fa_id f = ROOTFID)"
| "anc s a (p # ps) = (case fattr_at s a of None \<Rightarrow> False | Some f \<Rightarrow> parent f = p \<and> p \<noteq> 0 \<and> anc s p ps)"

lemma anc_det: "anc s a ps \<Longrightarrow> anc s a qs \<Longrightarrow> ps = qs"
proof (induction ps arbitrary: a qs)
  case Nil
  then show ?case by (cases qs) (auto split: option.splits)
next
  case (Cons p ps)
  then show ?case by (cases qs) (auto split: option.splits)
qed

lemma anc_suffix: "anc s a (us @ b # vs) \<Longrightarrow> anc s b vs"
  by (induction us arbitrary: a) (auto split: option.splits)

lemma anc_acyclic: "anc s a ps \<Longrightarrow> a \<notin> set ps"
proof
  assume a: "anc s a ps" "a \<in> set ps"
  then obtain us vs where "ps = us @ a # vs" by (meson split_list)
  with a(1) anc_suffix anc_det show False by (metis append_Cons append_Nil2 append_eq_append_conv2 append_self_conv2 list.distinct(1) self_append_conv)
qed

lemma anc_similar: "similar s s' \<Longrightarrow> anc s a ps \<Longrightarrow> anc s' a ps"
proof (induction ps arbitrary: a)
  case Nil
  then show ?case using similar_in(7) [OF Nil.prems(1), of a] by (auto split: option.splits dest: strip_eq)
next
  case (Cons p ps)
  then show ?case using similar_in(7) [OF Cons.prems(1), of a] by (auto split: option.splits dest: strip_eq)
qed

definition bump :: "int \<Rightarrow> int \<Rightarrow> int \<Rightarrow> MetaFattr \<Rightarrow> MetaFattr" where
  "bump nbytes nfiles ndirs p =
     p\<lparr>filesize := filesize p + nbytes, subcount1 := subcount1 p + nfiles, subcount2 := subcount2 p + ndirs\<rparr>"

text \<open>An ancestor can be charged: it is a directory and its counters stay non-negative.\<close>

definition can_bump :: "NS \<Rightarrow> int \<Rightarrow> int \<Rightarrow> int \<Rightarrow> addr \<Rightarrow> bool" where
  "can_bump s nbytes nfiles ndirs a \<longleftrightarrow>
     (case fattr_at s a of
        None \<Rightarrow> False
      | Some p \<Rightarrow> fa_type p = KFS_DIR \<and> 0 \<le> filesize p + nbytes \<and> 0 \<le> subcount1 p + nfiles \<and> 0 \<le> subcount2 p + ndirs)"

definition bump_objs :: "addr set \<Rightarrow> int \<Rightarrow> int \<Rightarrow> int \<Rightarrow> (addr \<Rightarrow> Meta option) \<Rightarrow> addr \<Rightarrow> Meta option" where
  "bump_objs A nbytes nfiles ndirs m a =
     (if a \<in> A then (case m a of Some (MFattr p) \<Rightarrow> Some (MFattr (bump nbytes nfiles ndirs p)) | x \<Rightarrow> x) else m a)"

lemma strip_bump [simp]: "strip (bump n f d p) = strip p"
  by (simp add: bump_def)

lemma bump_objs_empty [simp]: "bump_objs {} n f d m = m"
  by (simp add: bump_objs_def fun_eq_iff)

lemma bump_similar: "similar s (s\<lparr>objs := bump_objs A n f d (objs s)\<rparr>)"
  by (auto simp: similar_def bump_objs_def split: option.splits Meta.splits)

lemma updateCounts_loop_chain:
  "anc s a ps \<Longrightarrow> (\<And>p. p \<in> set ps \<Longrightarrow> can_bump s n f d p) \<Longrightarrow>
   updateCounts_loop a n f d s = Some (s\<lparr>objs := bump_objs (set ps) n f d (objs s)\<rparr>)"
proof (induction ps arbitrary: a s)
  case Nil
  then show ?case by (subst updateCounts_loop.simps) (auto split: option.splits)
next
  case (Cons p ps)
  obtain fa where fa: "fattr_at s a = Some fa" "parent fa = p" "p \<noteq> 0" "anc s p ps" using Cons.prems(1) by (auto split: option.splits)
  obtain q where q: "fattr_at s p = Some q" "fa_type q = KFS_DIR" "0 \<le> filesize q + n" "0 \<le> subcount1 q + f" "0 \<le> subcount2 q + d"
    using Cons.prems(2) [of p] by (auto simp: can_bump_def split: option.splits)
  then have o: "objs s p = Some (MFattr q)" by (auto simp: fattr_at_def split: option.splits Meta.splits)
  let ?s = "s\<lparr>objs := (objs s)(p \<mapsto> MFattr (bump n f d q))\<rparr>"
  have sim: "similar s ?s" using o by (simp add: similar_def)
  have p: "p \<notin> set ps" using anc_acyclic [OF fa(4)] .
  have "can_bump ?s n f d x" if "x \<in> set ps" for x
    using Cons.prems(2) [of x] that p by (auto simp: can_bump_def fattr_at_def)
  then have "updateCounts_loop p n f d ?s = Some (?s\<lparr>objs := bump_objs (set ps) n f d (objs ?s)\<rparr>)"
    by (intro Cons.IH anc_similar [OF sim fa(4)])
  moreover have "bump_objs (set ps) n f d (objs ?s) = bump_objs (set (p # ps)) n f d (objs s)"
    using o p by (auto simp: bump_objs_def fun_eq_iff)
  ultimately have "updateCounts_loop p n f d ?s = Some (s\<lparr>objs := bump_objs (set (p # ps)) n f d (objs s)\<rparr>)" by simp
  moreover have "updateCounts_loop a n f d s = updateCounts_loop p n f d ?s"
    using fa q by (subst updateCounts_loop.simps) (simp add: bump_def)
  ultimately show ?case by simp
qed

text \<open>When the accounting of an operation on \<open>a\<close> can be done.\<close>

definition acct_ok :: "NS \<Rightarrow> addr \<Rightarrow> int \<Rightarrow> int \<Rightarrow> int \<Rightarrow> bool" where
  "acct_ok s a nbytes nfiles ndirs \<longleftrightarrow>
     a \<noteq> 0 \<and> (\<not> updatePathSpaceUsage s \<or> (nbytes = 0 \<and> nfiles = 0 \<and> ndirs = 0) \<or>
       (\<exists>ps. anc s a ps \<and> (\<forall>p\<in>set ps. can_bump s nbytes nfiles ndirs p)))"

lemma updateCounts_ok:
  assumes "acct_ok s a n f d"
  shows "\<exists>A. updateCounts a n f d s = Some (s\<lparr>objs := bump_objs A n f d (objs s)\<rparr>) \<and> a \<notin> A"
proof (cases "\<not> updatePathSpaceUsage s \<or> (n = 0 \<and> f = 0 \<and> d = 0)")
  case True
  then show ?thesis using assms by (intro exI [of _ "{}"]) (auto simp: acct_ok_def updateCounts_def)
next
  case False
  then obtain ps where ps: "anc s a ps" "\<forall>p\<in>set ps. can_bump s n f d p" using assms by (auto simp: acct_ok_def)
  then show ?thesis using updateCounts_loop_chain [OF ps(1), of n f d] anc_acyclic [OF ps(1)] assms False
    by (intro exI [of _ "set ps"]) (auto simp: acct_ok_def updateCounts_def)
qed

lemma updateCounts_similar:
  assumes "acct_ok s a n f d"
  shows "\<exists>s'. updateCounts a n f d s = Some s' \<and> similar s s' \<and> objs s' a = objs s a \<and> (\<exists>m. s' = s\<lparr>objs := m\<rparr>)"
  using updateCounts_ok [OF assms] bump_similar by (fastforce simp: bump_objs_def)

lemma setFileSize_similar:
  assumes "fattr_at s a = Some fa" "0 \<le> filesize fa \<or> fa_type fa = KFS_FILE" "0 \<le> sz" "acct_ok s a (sz - getFileSize fa) nf nd"
  shows "\<exists>s'. setFileSize a sz nf nd s = Some s' \<and> similar s s' \<and> fattr_at s' a = Some (fa\<lparr>filesize := sz\<rparr>) \<and> (\<exists>m. s' = s\<lparr>objs := m\<rparr>)"
proof -
  obtain s1 where s1: "updateCounts a (sz - getFileSize fa) nf nd s = Some s1" "similar s s1" "objs s1 a = objs s a" "\<exists>m. s1 = s\<lparr>objs := m\<rparr>"
    using updateCounts_similar [OF assms(4)] by blast
  have "fattr_at s1 a = Some fa" using s1(3) assms(1) by (simp add: fattr_at_def)
  then obtain s2 where "upd_fattr a (filesize_update (\<lambda>_. sz)) s1 = Some s2" "similar s1 s2" "fattr_at s2 a = Some (fa\<lparr>filesize := sz\<rparr>)" "\<exists>m. s2 = s1\<lparr>objs := m\<rparr>"
    using upd_fattr_similar [of s1 a fa "filesize_update (\<lambda>_. sz)"] by auto
  then show ?thesis using s1 assms(1-3) similar_trans [OF s1(2)] by (intro exI [of _ s2]) (auto simp: setFileSize_def)
qed

end
