(* ===== verification/NsTree.thy ===== *)
theory NsTree
  imports NsViews
begin

text \<open>
  The directory tree as a property of the sets of attributes, entries and chunks, and the
  changes that keep it: adding, removing, renaming and moving a file or a directory.
\<close>

subsection \<open>The directory tree\<close>

text \<open>An entry that names a file or a directory, other than the entries every directory has.\<close>

definition proper :: "MetaDentry \<Rightarrow> bool" where
  "proper d \<longleftrightarrow> d_name d \<notin> {kThisDir, kParentDir, ''/''}"

text \<open>Attributes from which the root directory is reached by the parent pointers.\<close>

inductive up :: "(addr \<times> MetaFattr) set \<Rightarrow> addr \<Rightarrow> bool" for F where
  root: "(a, f) \<in> F \<Longrightarrow> fa_id f = ROOTFID \<Longrightarrow> up F a"
| step: "(a, f) \<in> F \<Longrightarrow> fa_id f \<noteq> ROOTFID \<Longrightarrow> up F (parent f) \<Longrightarrow> up F a"

text \<open>
  The attributes \<open>F\<close>, entries \<open>D\<close> and chunks \<open>C\<close> form a directory tree: identifiers and names
  are unique, entries are in directories and lead to attributes, chunks belong to files, the
  parent pointers agree with the entries and lead to the root, every object but the root has
  exactly one name, and every directory has its two own entries.
\<close>

definition fs_refs :: "(addr \<times> MetaFattr) set \<Rightarrow> (addr \<times> MetaDentry) set \<Rightarrow> (addr \<times> MetaChunkInfo) set \<Rightarrow> bool" where
  "fs_refs F D C \<longleftrightarrow>
     (\<forall>a b f g. (a, f) \<in> F \<longrightarrow> (b, g) \<in> F \<longrightarrow> fa_id f = fa_id g \<or> a = b \<longrightarrow> a = b \<and> f = g) \<and>
     (\<forall>a b d e. (a, d) \<in> D \<longrightarrow> (b, e) \<in> D \<longrightarrow> (d_dir d = d_dir e \<and> d_name d = d_name e) \<or> a = b \<longrightarrow> a = b \<and> d = e) \<and>
     (\<forall>a d. (a, d) \<in> D \<longrightarrow> (\<exists>b f. (b, f) \<in> F \<and> fa_id f = d_dir d \<and> fa_type f = KFS_DIR)) \<and>
     (\<forall>a d. (a, d) \<in> D \<longrightarrow> (\<exists>b f. (b, f) \<in> F \<and> fa_id f = d_fid d \<and> (d_fattr d = 0 \<or> d_fattr d = b))) \<and>
     (\<forall>a c. (a, c) \<in> C \<longrightarrow> (\<exists>f. (c_fattr c, f) \<in> F \<and> fa_type f = KFS_FILE))"

definition fs_tree :: "(addr \<times> MetaFattr) set \<Rightarrow> bool" where
  "fs_tree F \<longleftrightarrow>
     (\<exists>a f. (a, f) \<in> F \<and> fa_id f = ROOTFID \<and> fa_type f = KFS_DIR \<and> parent f = 0) \<and>
     (\<forall>a f. (a, f) \<in> F \<longrightarrow> fa_id f \<noteq> ROOTFID \<longrightarrow> parent f \<noteq> 0 \<and> (\<exists>g. (parent f, g) \<in> F \<and> fa_type g = KFS_DIR)) \<and>
     (\<forall>a f. (a, f) \<in> F \<longrightarrow> up F a)"

definition fs_links :: "(addr \<times> MetaFattr) set \<Rightarrow> (addr \<times> MetaDentry) set \<Rightarrow> bool" where
  "fs_links F D \<longleftrightarrow>
     (\<forall>a d b f. (a, d) \<in> D \<longrightarrow> proper d \<longrightarrow> (b, f) \<in> F \<longrightarrow> fa_id f = d_fid d \<longrightarrow>
        fa_id f \<noteq> ROOTFID \<and> (\<exists>g. (parent f, g) \<in> F \<and> fa_id g = d_dir d)) \<and>
     (\<forall>a b d e. (a, d) \<in> D \<longrightarrow> (b, e) \<in> D \<longrightarrow> proper d \<longrightarrow> proper e \<longrightarrow> d_fid d = d_fid e \<longrightarrow> a = b) \<and>
     (\<forall>a f. (a, f) \<in> F \<longrightarrow> fa_id f \<noteq> ROOTFID \<longrightarrow> (\<exists>b d. (b, d) \<in> D \<and> proper d \<and> d_fid d = fa_id f))"

definition fs_dots :: "(addr \<times> MetaFattr) set \<Rightarrow> (addr \<times> MetaDentry) set \<Rightarrow> bool" where
  "fs_dots F D \<longleftrightarrow>
     (\<forall>a f. (a, f) \<in> F \<longrightarrow> fa_type f = KFS_DIR \<longrightarrow>
        (\<exists>b d. (b, d) \<in> D \<and> d_dir d = fa_id f \<and> d_name d = kThisDir) \<and>
        (\<exists>b d. (b, d) \<in> D \<and> d_dir d = fa_id f \<and> d_name d = kParentDir)) \<and>
     (\<forall>a d. (a, d) \<in> D \<longrightarrow> d_name d = kThisDir \<longrightarrow> d_fid d = d_dir d) \<and>
     (\<forall>a d b f. (a, d) \<in> D \<longrightarrow> d_name d = kParentDir \<longrightarrow> (b, f) \<in> F \<longrightarrow> fa_id f = d_dir d \<longrightarrow>
        (if fa_id f = ROOTFID then d_fid d = ROOTFID else \<exists>g. (parent f, g) \<in> F \<and> fa_id g = d_fid d)) \<and>
     (\<forall>a d. (a, d) \<in> D \<longrightarrow> d_name d = ''/'' \<longrightarrow> d_dir d = ROOTFID \<and> d_fid d = ROOTFID)"

definition fs_ok :: "(addr \<times> MetaFattr) set \<Rightarrow> (addr \<times> MetaDentry) set \<Rightarrow> (addr \<times> MetaChunkInfo) set \<Rightarrow> bool" where
  "fs_ok F D C \<longleftrightarrow> fs_refs F D C \<and> fs_tree F \<and> fs_links F D \<and> fs_dots F D"

lemma fs_ids: "fs_refs F D C \<Longrightarrow> (a, f) \<in> F \<Longrightarrow> (b, g) \<in> F \<Longrightarrow> fa_id f = fa_id g \<or> a = b \<Longrightarrow> a = b \<and> f = g"
  unfolding fs_refs_def by blast

lemma fs_names: "fs_refs F D C \<Longrightarrow> (a, d) \<in> D \<Longrightarrow> (b, e) \<in> D \<Longrightarrow> (d_dir d = d_dir e \<and> d_name d = d_name e) \<or> a = b \<Longrightarrow> a = b \<and> d = e"
  unfolding fs_refs_def by blast

lemma fs_dir: "fs_refs F D C \<Longrightarrow> (a, d) \<in> D \<Longrightarrow> \<exists>b f. (b, f) \<in> F \<and> fa_id f = d_dir d \<and> fa_type f = KFS_DIR"
  unfolding fs_refs_def by blast

lemma fs_target: "fs_refs F D C \<Longrightarrow> (a, d) \<in> D \<Longrightarrow> \<exists>b f. (b, f) \<in> F \<and> fa_id f = d_fid d \<and> (d_fattr d = 0 \<or> d_fattr d = b)"
  unfolding fs_refs_def by blast

lemma fs_chunk: "fs_refs F D C \<Longrightarrow> (a, c) \<in> C \<Longrightarrow> \<exists>f. (c_fattr c, f) \<in> F \<and> fa_type f = KFS_FILE"
  unfolding fs_refs_def by blast

lemma fs_link_parent: "fs_links F D \<Longrightarrow> (a, d) \<in> D \<Longrightarrow> proper d \<Longrightarrow> (b, f) \<in> F \<Longrightarrow> fa_id f = d_fid d \<Longrightarrow>
    fa_id f \<noteq> ROOTFID \<and> (\<exists>g. (parent f, g) \<in> F \<and> fa_id g = d_dir d)"
  unfolding fs_links_def by blast

lemma fs_link_one: "fs_links F D \<Longrightarrow> (a, d) \<in> D \<Longrightarrow> (b, e) \<in> D \<Longrightarrow> proper d \<Longrightarrow> proper e \<Longrightarrow> d_fid d = d_fid e \<Longrightarrow> a = b"
  unfolding fs_links_def by blast

lemma fs_link_some: "fs_links F D \<Longrightarrow> (a, f) \<in> F \<Longrightarrow> fa_id f \<noteq> ROOTFID \<Longrightarrow> \<exists>b d. (b, d) \<in> D \<and> proper d \<and> d_fid d = fa_id f"
  unfolding fs_links_def by blast

lemma fs_parent: "fs_tree F \<Longrightarrow> (a, f) \<in> F \<Longrightarrow> fa_id f \<noteq> ROOTFID \<Longrightarrow> parent f \<noteq> 0 \<and> (\<exists>g. (parent f, g) \<in> F \<and> fa_type g = KFS_DIR)"
  unfolding fs_tree_def by blast

lemma fs_root: "fs_tree F \<Longrightarrow> \<exists>a f. (a, f) \<in> F \<and> fa_id f = ROOTFID \<and> fa_type f = KFS_DIR \<and> parent f = 0"
  unfolding fs_tree_def by blast

lemma fs_up: "fs_tree F \<Longrightarrow> (a, f) \<in> F \<Longrightarrow> up F a"
  unfolding fs_tree_def by blast

lemma fs_dots_in: "fs_dots F D \<Longrightarrow> (a, f) \<in> F \<Longrightarrow> fa_type f = KFS_DIR \<Longrightarrow>
    (\<exists>b d. (b, d) \<in> D \<and> d_dir d = fa_id f \<and> d_name d = kThisDir) \<and>
    (\<exists>b d. (b, d) \<in> D \<and> d_dir d = fa_id f \<and> d_name d = kParentDir)"
  unfolding fs_dots_def by blast

lemma fs_dot: "fs_dots F D \<Longrightarrow> (a, d) \<in> D \<Longrightarrow> d_name d = kThisDir \<Longrightarrow> d_fid d = d_dir d"
  unfolding fs_dots_def by blast

lemma fs_dotdot: "fs_dots F D \<Longrightarrow> (a, d) \<in> D \<Longrightarrow> d_name d = kParentDir \<Longrightarrow> (b, f) \<in> F \<Longrightarrow> fa_id f = d_dir d \<Longrightarrow>
    if fa_id f = ROOTFID then d_fid d = ROOTFID else \<exists>g. (parent f, g) \<in> F \<and> fa_id g = d_fid d"
  unfolding fs_dots_def by blast

lemma fs_slash: "fs_dots F D \<Longrightarrow> (a, d) \<in> D \<Longrightarrow> d_name d = ''/'' \<Longrightarrow> d_dir d = ROOTFID \<and> d_fid d = ROOTFID"
  unfolding fs_dots_def by blast

lemma up_mono: "up F a \<Longrightarrow> F \<subseteq> G \<Longrightarrow> up G a"
  by (induction rule: up.induct) (auto intro: up.intros)

lemma names_distinct [simp]:
  "kThisDir \<noteq> kParentDir" "kParentDir \<noteq> kThisDir" "kThisDir \<noteq> ''/''" "kParentDir \<noteq> ''/''" "''/'' \<noteq> kThisDir" "''/'' \<noteq> kParentDir"
  by (simp_all add: kThisDir_def kParentDir_def)

subsection \<open>Adding to the tree\<close>

lemma fs_tree_add:
  assumes "fs_tree F" "fa_id f \<noteq> ROOTFID" "parent f \<noteq> 0" "(parent f, P) \<in> F" "fa_type P = KFS_DIR"
  shows "fs_tree (insert (a, f) F)"
proof -
  have "up (insert (a, f) F) b" if "(b, g) \<in> F" for b g
    using assms(1) that by (auto simp: fs_tree_def intro: up_mono [OF _ subset_insertI])
  moreover from this have "up (insert (a, f) F) a" using assms(2,4) by (intro up.step [of a f]) auto
  ultimately show ?thesis using assms unfolding fs_tree_def by blast
qed

lemma fs_links_add:
  assumes "fs_refs F D C" "fs_links F D" and new: "\<And>b g. (b, g) \<in> F \<Longrightarrow> fa_id g \<noteq> fa_id f"
    and d: "proper d" "d_fid d = fa_id f" "(parent f, P) \<in> F" "fa_id P = d_dir d" "fa_id f \<noteq> ROOTFID"
    and E: "\<And>b e. (b, e) \<in> E \<Longrightarrow> \<not> proper e"
  shows "fs_links (insert (a, f) F) (insert (x, d) D \<union> E)"
proof -
  have old: "d_fid e \<noteq> fa_id f" if "(b, e) \<in> D" for b e using assms(1) that new unfolding fs_refs_def by metis
  show ?thesis
    unfolding fs_links_def
  proof (intro conjI allI impI)
    fix y e b g assume "(y, e) \<in> insert (x, d) D \<union> E" "proper e" "(b, g) \<in> insert (a, f) F" "fa_id g = d_fid e"
    moreover have "(y, e) \<notin> E" using \<open>proper e\<close> E by blast
    ultimately consider "e = d" "g = f" | "(y, e) \<in> D" "(b, g) \<in> F" using d(2) old [of y e] new [of b g] by (cases "(y, e) \<in> D") auto
    then have "fa_id g \<noteq> ROOTFID \<and> (\<exists>h. (parent g, h) \<in> F \<and> fa_id h = d_dir e)"
    proof cases
      case 2
      then show ?thesis using fs_link_parent [OF assms(2)] \<open>proper e\<close> \<open>fa_id g = d_fid e\<close> by blast
    qed (use d in blast)
    then show "fa_id g \<noteq> ROOTFID" "\<exists>h. (parent g, h) \<in> insert (a, f) F \<and> fa_id h = d_dir e" by blast+
  next
    fix y z e g assume *: "(y, e) \<in> insert (x, d) D \<union> E" "(z, g) \<in> insert (x, d) D \<union> E" "proper e" "proper g" "d_fid e = d_fid g"
    then have "(y, e) \<in> insert (x, d) D" "(z, g) \<in> insert (x, d) D" using E by blast+
    then show "y = z" using old [of y e] old [of z g] d(2) *(3-5) fs_link_one [OF assms(2), of y e z g] by auto
  next
    fix b g assume "(b, g) \<in> insert (a, f) F" "fa_id g \<noteq> ROOTFID"
    then show "\<exists>y e. (y, e) \<in> insert (x, d) D \<union> E \<and> proper e \<and> d_fid e = fa_id g"
      using d(1,2) fs_link_some [OF assms(2), of b g] by auto
  qed
qed

lemma fs_dots_add_file:
  assumes "fs_refs F D C" "fs_dots F D" "fa_type f \<noteq> KFS_DIR" and new: "\<And>b g. (b, g) \<in> F \<Longrightarrow> fa_id g \<noteq> fa_id f"
    and d: "proper d"
  shows "fs_dots (insert (a, f) F) (insert (x, d) D)"
proof -
  have nd: "d_name d \<noteq> kThisDir" "d_name d \<noteq> kParentDir" "d_name d \<noteq> ''/''" using d by (auto simp: proper_def)
  show ?thesis
    unfolding fs_dots_def
  proof (intro conjI allI impI)
    fix b g assume "(b, g) \<in> insert (a, f) F" "fa_type g = KFS_DIR"
    then have "(b, g) \<in> F" using assms(3) by auto
    then show "\<exists>y e. (y, e) \<in> insert (x, d) D \<and> d_dir e = fa_id g \<and> d_name e = kThisDir"
      "\<exists>y e. (y, e) \<in> insert (x, d) D \<and> d_dir e = fa_id g \<and> d_name e = kParentDir"
      using fs_dots_in [OF assms(2)] \<open>fa_type g = KFS_DIR\<close> by blast+
  next
    fix y e b g assume *: "(y, e) \<in> insert (x, d) D" "d_name e = kParentDir" "(b, g) \<in> insert (a, f) F" "fa_id g = d_dir e"
    then have e: "(y, e) \<in> D" using nd by auto
    then have g: "(b, g) \<in> F" using fs_dir [OF assms(1) e] *(3,4) new by force
    show "if fa_id g = ROOTFID then d_fid e = ROOTFID else \<exists>h. (parent g, h) \<in> insert (a, f) F \<and> fa_id h = d_fid e"
      using fs_dotdot [OF assms(2) e *(2) g *(4)] by (cases "fa_id g = ROOTFID") auto
  qed (use nd fs_dot [OF assms(2)] fs_slash [OF assms(2)] in auto)
qed

definition names_uniq :: "(addr \<times> MetaDentry) set \<Rightarrow> bool" where
  "names_uniq D \<longleftrightarrow>
     (\<forall>a b d e. (a, d) \<in> D \<longrightarrow> (b, e) \<in> D \<longrightarrow> (d_dir d = d_dir e \<and> d_name d = d_name e) \<or> a = b \<longrightarrow> a = b \<and> d = e)"

lemma names_uniqD: "names_uniq D \<Longrightarrow> (a, d) \<in> D \<Longrightarrow> (b, e) \<in> D \<Longrightarrow> (d_dir d = d_dir e \<and> d_name d = d_name e) \<or> a = b \<Longrightarrow> a = b \<and> d = e"
  unfolding names_uniq_def by blast

lemma names_uniq_insert:
  assumes "names_uniq D" "\<And>y e. (y, e) \<in> D \<Longrightarrow> \<not> (d_dir e = d_dir d \<and> d_name e = d_name d) \<and> y \<noteq> x"
  shows "names_uniq (insert (x, d) D)"
  unfolding names_uniq_def
proof (intro allI impI)
  fix a b k l assume *: "(a, k) \<in> insert (x, d) D" "(b, l) \<in> insert (x, d) D" "(d_dir k = d_dir l \<and> d_name k = d_name l) \<or> a = b"
  show "a = b \<and> k = l"
  proof (cases "(a, k) \<in> D")
    case True
    then show ?thesis using * names_uniqD [OF assms(1) True, of b l] assms(2) [OF True] by auto
  next
    case False
    then show ?thesis using * assms(2) [of b l] by auto
  qed
qed

lemma fs_refs_uniq: "fs_refs F D C \<Longrightarrow> names_uniq D"
  unfolding fs_refs_def names_uniq_def by blast

lemma fs_refs_add:
  assumes "fs_refs F D C" and new: "\<And>b g. (b, g) \<in> F \<Longrightarrow> fa_id g \<noteq> fa_id f" "\<And>g. (a, g) \<notin> F"
    and E: "\<And>y e. (y, e) \<in> E \<Longrightarrow> (\<exists>b g. (b, g) \<in> insert (a, f) F \<and> fa_id g = d_dir e \<and> fa_type g = KFS_DIR) \<and>
        (\<exists>b g. (b, g) \<in> insert (a, f) F \<and> fa_id g = d_fid e \<and> (d_fattr e = 0 \<or> d_fattr e = b))"
    and uniq: "names_uniq (D \<union> E)"
  shows "fs_refs (insert (a, f) F) (D \<union> E) C"
  unfolding fs_refs_def
proof (intro conjI allI impI)
  fix b c g h assume "(b, g) \<in> insert (a, f) F" "(c, h) \<in> insert (a, f) F" "fa_id g = fa_id h \<or> b = c"
  then have "b = c \<and> g = h"
    using fs_ids [OF assms(1), of b g c h] new(1) [of b g] new(1) [of c h] new(2) [of g] new(2) [of h] by auto
  then show "b = c" "g = h" by simp_all
next
  fix y z d e assume "(y, d) \<in> D \<union> E" "(z, e) \<in> D \<union> E" "(d_dir d = d_dir e \<and> d_name d = d_name e) \<or> y = z"
  from names_uniqD [OF uniq this] show "y = z" "d = e" by simp_all
next
  fix y d assume "(y, d) \<in> D \<union> E"
  then consider "(y, d) \<in> D" | "(y, d) \<in> E" by blast
  then show "\<exists>b g. (b, g) \<in> insert (a, f) F \<and> fa_id g = d_dir d \<and> fa_type g = KFS_DIR"
  proof cases
    case 1
    from fs_dir [OF assms(1) this] show ?thesis by blast
  next
    case 2
    from E [OF this] show ?thesis by blast
  qed
next
  fix y d assume "(y, d) \<in> D \<union> E"
  then consider "(y, d) \<in> D" | "(y, d) \<in> E" by blast
  then show "\<exists>b g. (b, g) \<in> insert (a, f) F \<and> fa_id g = d_fid d \<and> (d_fattr d = 0 \<or> d_fattr d = b)"
  proof cases
    case 1
    from fs_target [OF assms(1) this] show ?thesis by blast
  next
    case 2
    from E [OF this] show ?thesis by blast
  qed
next
  fix y c assume "(y, c) \<in> C"
  then show "\<exists>g. (c_fattr c, g) \<in> insert (a, f) F \<and> fa_type g = KFS_FILE" using fs_chunk [OF assms(1)] by blast
qed

lemma fs_dots_add_dir:
  assumes "fs_refs F D C" "fs_dots F D" and new: "\<And>b g. (b, g) \<in> F \<Longrightarrow> fa_id g \<noteq> fa_id f"
    and d: "proper d" and P: "(parent f, P) \<in> F" "fa_id f \<noteq> ROOTFID"
    and e: "d_name e = kThisDir" "d_dir e = fa_id f" "d_fid e = fa_id f"
    and g: "d_name g = kParentDir" "d_dir g = fa_id f" "d_fid g = fa_id P"
  shows "fs_dots (insert (a, f) F) (D \<union> {(x, d), (y, e), (z, g)})" (is "fs_dots ?F ?D")
proof -
  have nd: "d_name d \<noteq> kThisDir" "d_name d \<noteq> kParentDir" "d_name d \<noteq> ''/''" using d by (auto simp: proper_def)
  show ?thesis
    unfolding fs_dots_def
  proof (intro conjI allI impI)
    fix b h assume h: "(b, h) \<in> ?F" "fa_type h = KFS_DIR"
    show "\<exists>u k. (u, k) \<in> ?D \<and> d_dir k = fa_id h \<and> d_name k = kThisDir"
      using h fs_dots_in [OF assms(2), of b h] e by (cases "(b, h) \<in> F") auto
    show "\<exists>u k. (u, k) \<in> ?D \<and> d_dir k = fa_id h \<and> d_name k = kParentDir"
      using h fs_dots_in [OF assms(2), of b h] g by (cases "(b, h) \<in> F") auto
  next
    fix u k assume "(u, k) \<in> ?D" "d_name k = kThisDir"
    then show "d_fid k = d_dir k" using nd(1) e g(1) fs_dot [OF assms(2), of u k] by auto
  next
    fix u k b h assume *: "(u, k) \<in> ?D" "d_name k = kParentDir" "(b, h) \<in> ?F" "fa_id h = d_dir k"
    show "if fa_id h = ROOTFID then d_fid k = ROOTFID else \<exists>q. (parent h, q) \<in> ?F \<and> fa_id q = d_fid k"
    proof (cases "(u, k) \<in> D")
      case True
      then have h: "(b, h) \<in> F" using fs_dir [OF assms(1) True] *(3,4) new by force
      show ?thesis using fs_dotdot [OF assms(2) True *(2) h *(4)] by (cases "fa_id h = ROOTFID") auto
    next
      case False
      then have "k = g" using *(1,2) nd(2) e(1) by auto
      then have "h = f" using *(3,4) g(2) new by auto
      then show ?thesis using \<open>k = g\<close> P g(3) by auto
    qed
  next
    fix u k assume "(u, k) \<in> ?D" "d_name k = ''/''"
    then have "(u, k) \<in> D" using nd e(1) g(1) by auto
    from fs_slash [OF assms(2) this \<open>d_name k = ''/''\<close>] show "d_dir k = ROOTFID" "d_fid k = ROOTFID" by simp_all
  qed
qed

lemma fs_ref_intro:
  "(b, h) \<in> F \<Longrightarrow> fa_id h = d_dir k \<Longrightarrow> fa_type h = KFS_DIR \<Longrightarrow> (c, i) \<in> F \<Longrightarrow> fa_id i = d_fid k \<Longrightarrow>
    d_fattr k = 0 \<or> d_fattr k = c \<Longrightarrow>
    (\<exists>b h. (b, h) \<in> F \<and> fa_id h = d_dir k \<and> fa_type h = KFS_DIR) \<and>
    (\<exists>b h. (b, h) \<in> F \<and> fa_id h = d_fid k \<and> (d_fattr k = 0 \<or> d_fattr k = b))"
  by blast

lemma fs_ok_add_file:
  assumes ok: "fs_ok F D C" and new: "\<And>b g. (b, g) \<in> F \<Longrightarrow> fa_id g \<noteq> fa_id f" "\<And>g. (a, g) \<notin> F" "\<And>e. (x, e) \<notin> D"
    and f: "fa_type f \<noteq> KFS_DIR" "(parent f, P) \<in> F" "fa_type P = KFS_DIR" "parent f \<noteq> 0"
    and d: "proper d" "d_fid d = fa_id f" "d_dir d = fa_id P" "d_fattr d = a"
    and free: "\<And>y e. (y, e) \<in> D \<Longrightarrow> \<not> (d_dir e = d_dir d \<and> d_name e = d_name d)"
  shows "fs_ok (insert (a, f) F) (insert (x, d) D) C"
proof -
  have o: "fs_refs F D C" "fs_tree F" "fs_links F D" "fs_dots F D" using ok by (simp_all add: fs_ok_def)
  have nr: "fa_id f \<noteq> ROOTFID" using fs_root [OF o(2)] new(1) by force
  have "fs_refs (insert (a, f) F) (D \<union> {(x, d)}) C"
  proof (rule fs_refs_add [OF o(1) new(1,2)])
    show "names_uniq (D \<union> {(x, d)})"
      using names_uniq_insert [OF fs_refs_uniq [OF o(1)], of d x] free new(3) by fastforce
  next
    fix y e assume "(y, e) \<in> {(x, d)}"
    then show "(\<exists>b g. (b, g) \<in> insert (a, f) F \<and> fa_id g = d_dir e \<and> fa_type g = KFS_DIR) \<and>
        (\<exists>b g. (b, g) \<in> insert (a, f) F \<and> fa_id g = d_fid e \<and> (d_fattr e = 0 \<or> d_fattr e = b))"
      using fs_ref_intro [of "parent f" P "insert (a, f) F" d a f] f d by simp
  qed
  moreover have "fs_links (insert (a, f) F) (insert (x, d) D \<union> {})"
    by (rule fs_links_add [OF o(1,3) new(1) d(1,2) f(2) d(3) [symmetric] nr]) auto
  ultimately show ?thesis
    using fs_tree_add [OF o(2) nr f(4,2,3)] fs_dots_add_file [OF o(1,4) f(1) new(1) d(1)] by (simp add: fs_ok_def)
qed

lemma fs_ok_add_dir:
  assumes ok: "fs_ok F D C" and new: "\<And>b g. (b, g) \<in> F \<Longrightarrow> fa_id g \<noteq> fa_id f" "\<And>g. (a, g) \<notin> F"
    and xyz: "\<And>k. (x, k) \<notin> D" "\<And>k. (y, k) \<notin> D" "\<And>k. (z, k) \<notin> D" "x \<noteq> y" "x \<noteq> z" "y \<noteq> z"
    and f: "fa_type f = KFS_DIR" "(parent f, P) \<in> F" "fa_type P = KFS_DIR" "parent f \<noteq> 0"
    and d: "proper d" "d_fid d = fa_id f" "d_dir d = fa_id P" "d_fattr d = a"
    and e: "d_name e = kThisDir" "d_dir e = fa_id f" "d_fid e = fa_id f" "d_fattr e = a"
    and g: "d_name g = kParentDir" "d_dir g = fa_id f" "d_fid g = fa_id P" "d_fattr g = parent f"
    and free: "\<And>u k. (u, k) \<in> D \<Longrightarrow> \<not> (d_dir k = d_dir d \<and> d_name k = d_name d)"
  shows "fs_ok (insert (a, f) F) (D \<union> {(x, d), (y, e), (z, g)}) C"
proof -
  have o: "fs_refs F D C" "fs_tree F" "fs_links F D" "fs_dots F D" using ok by (simp_all add: fs_ok_def)
  have nr: "fa_id f \<noteq> ROOTFID" using fs_root [OF o(2)] new(1) by force
  have nd: "d_name d \<noteq> kThisDir" "d_name d \<noteq> kParentDir" using d by (auto simp: proper_def)
  have nf: "d_dir k \<noteq> fa_id f" if "(u, k) \<in> D" for u k using fs_dir [OF o(1) that] new(1) by force
  have "fs_refs (insert (a, f) F) (D \<union> {(x, d), (y, e), (z, g)}) C"
  proof (rule fs_refs_add [OF o(1) new(1,2)])
    have "names_uniq (insert (x, d) D)" using names_uniq_insert [OF fs_refs_uniq [OF o(1)], of d x] free xyz(1) by fastforce
    then have "names_uniq (insert (y, e) (insert (x, d) D))"
      by (rule names_uniq_insert) (use xyz(2,4) nf nd(1) e(1,2) in \<open>elim insertE; auto\<close>)
    then have "names_uniq (insert (z, g) (insert (y, e) (insert (x, d) D)))"
      by (rule names_uniq_insert) (use xyz(3,5,6) nf nd(2) e(1) g(1,2) in \<open>elim insertE; auto\<close>)
    moreover have "insert (z, g) (insert (y, e) (insert (x, d) D)) = D \<union> {(x, d), (y, e), (z, g)}" by auto
    ultimately show "names_uniq (D \<union> {(x, d), (y, e), (z, g)})" by simp
  next
    fix u k assume "(u, k) \<in> {(x, d), (y, e), (z, g)}"
    then have k: "k = d \<or> k = e \<or> k = g" by auto
    show "(\<exists>b h. (b, h) \<in> insert (a, f) F \<and> fa_id h = d_dir k \<and> fa_type h = KFS_DIR) \<and>
        (\<exists>b h. (b, h) \<in> insert (a, f) F \<and> fa_id h = d_fid k \<and> (d_fattr k = 0 \<or> d_fattr k = b))"
      using k
    proof (elim disjE)
      assume "k = d"
      then show ?thesis using f d by (intro fs_ref_intro [of "parent f" P _ k a f]) auto
    next
      assume "k = e"
      then show ?thesis using f(1) e by (intro fs_ref_intro [of a f _ k a f]) auto
    next
      assume "k = g"
      then show ?thesis using f(1,2) g by (intro fs_ref_intro [of a f _ k "parent f" P]) auto
    qed
  qed
  moreover have "fs_links (insert (a, f) F) (insert (x, d) D \<union> {(y, e), (z, g)})"
    by (rule fs_links_add [OF o(1,3) new(1) d(1,2) f(2) d(3) [symmetric] nr]) (use e(1) g(1) in \<open>auto simp: proper_def\<close>)
  moreover have "insert (x, d) D \<union> {(y, e), (z, g)} = D \<union> {(x, d), (y, e), (z, g)}" by auto
  moreover have "fs_tree (insert (a, f) F)" by (rule fs_tree_add [OF o(2) nr f(4,2,3)])
  moreover have "fs_dots (insert (a, f) F) (D \<union> {(x, d), (y, e), (z, g)})"
    by (rule fs_dots_add_dir [OF o(1,4) new(1) d(1) f(2) nr e(1-3) g(1-3)])
  ultimately show ?thesis by (simp only: fs_ok_def)
qed

subsection \<open>Removing from the tree\<close>

text \<open>The entries of a directory and the entries that lead to an object.\<close>

definition about :: "fid_t \<Rightarrow> (addr \<times> MetaDentry) set \<Rightarrow> (addr \<times> MetaDentry) set" where
  "about i D = {(x, k) \<in> D. d_dir k = i \<or> d_fid k = i}"

lemma up_remove:
  assumes "up F b" "b \<noteq> a" "\<And>b h. (b, h) \<in> F \<Longrightarrow> fa_id h \<noteq> ROOTFID \<Longrightarrow> parent h \<noteq> a"
  shows "up (F - {(a, f)}) b"
  using assms(1,2)
proof (induction rule: up.induct)
  case (root b g)
  then show ?case by (intro up.root [of b g]) auto
next
  case (step b g)
  then show ?case using assms(3) [OF step.hyps(1,2)] by (intro up.step [of b g]) auto
qed

lemma about_diff: "(x, k) \<in> D - about i D \<longleftrightarrow> (x, k) \<in> D \<and> d_dir k \<noteq> i \<and> d_fid k \<noteq> i"
  by (auto simp: about_def)

lemma fs_diff: "fs_refs F D C \<Longrightarrow> (a, f) \<in> F \<Longrightarrow> (b, h) \<in> F - {(a, f)} \<longleftrightarrow> (b, h) \<in> F \<and> b \<noteq> a"
  using fs_ids [of F D C a f b h] by auto

lemma fs_id_iff: "fs_refs F D C \<Longrightarrow> (a, f) \<in> F \<Longrightarrow> (b, h) \<in> F \<Longrightarrow> fa_id h = fa_id f \<longleftrightarrow> b = a"
  using fs_ids [of F D C a f b h] by auto

lemma fs_refs_remove:
  assumes r: "fs_refs F D C" and f: "(a, f) \<in> F" and ch: "\<And>x c. (x, c) \<in> C \<Longrightarrow> c_fattr c \<noteq> a"
  shows "fs_refs (F - {(a, f)}) (D - about (fa_id f) D) C" (is "fs_refs ?F ?D C")
  unfolding fs_refs_def
proof (intro conjI allI impI)
  fix b c g h assume "(b, g) \<in> ?F" "(c, h) \<in> ?F" "fa_id g = fa_id h \<or> b = c"
  then show "b = c" "g = h" using fs_ids [OF r, of b g c h] by auto
next
  fix x y k l assume "(x, k) \<in> ?D" "(y, l) \<in> ?D" "(d_dir k = d_dir l \<and> d_name k = d_name l) \<or> x = y"
  then show "x = y" "k = l" using fs_names [OF r, of x k y l] by auto
next
  fix x k assume "(x, k) \<in> ?D"
  then have k: "(x, k) \<in> D" "d_dir k \<noteq> fa_id f" "d_fid k \<noteq> fa_id f" using about_diff by auto
  obtain b g where "(b, g) \<in> F" "fa_id g = d_dir k" "fa_type g = KFS_DIR" using fs_dir [OF r k(1)] by blast
  then show "\<exists>b g. (b, g) \<in> ?F \<and> fa_id g = d_dir k \<and> fa_type g = KFS_DIR"
    using k(2) by (intro exI [of _ b] exI [of _ g]) auto
  obtain b g where "(b, g) \<in> F" "fa_id g = d_fid k" "d_fattr k = 0 \<or> d_fattr k = b" using fs_target [OF r k(1)] by blast
  then show "\<exists>b g. (b, g) \<in> ?F \<and> fa_id g = d_fid k \<and> (d_fattr k = 0 \<or> d_fattr k = b)"
    using k(3) by (intro exI [of _ b] exI [of _ g]) auto
next
  fix x c assume c: "(x, c) \<in> C"
  then obtain g where "(c_fattr c, g) \<in> F" "fa_type g = KFS_FILE" using fs_chunk [OF r] by blast
  then show "\<exists>g. (c_fattr c, g) \<in> ?F \<and> fa_type g = KFS_FILE" using ch [OF c] by auto
qed

lemma fs_tree_remove:
  assumes t: "fs_refs F D C" "fs_tree F" and f: "(a, f) \<in> F" "fa_id f \<noteq> ROOTFID"
    and child: "\<And>b h. (b, h) \<in> F \<Longrightarrow> fa_id h \<noteq> ROOTFID \<Longrightarrow> parent h \<noteq> a"
  shows "fs_tree (F - {(a, f)})" (is "fs_tree ?F")
  unfolding fs_tree_def
proof (intro conjI allI impI)
  obtain b g where "(b, g) \<in> F" "fa_id g = ROOTFID" "fa_type g = KFS_DIR" "parent g = 0" using fs_root [OF t(2)] by blast
  then show "\<exists>b g. (b, g) \<in> ?F \<and> fa_id g = ROOTFID \<and> fa_type g = KFS_DIR \<and> parent g = 0"
    using f(2) by (intro exI [of _ b] exI [of _ g]) auto
next
  fix b h assume "(b, h) \<in> ?F" and r: "fa_id h \<noteq> ROOTFID"
  then have h: "(b, h) \<in> F" by simp
  show "parent h \<noteq> 0" using fs_parent [OF t(2) h r] by simp
  obtain q where "(parent h, q) \<in> F" "fa_type q = KFS_DIR" using fs_parent [OF t(2) h r] by blast
  then show "\<exists>q. (parent h, q) \<in> ?F \<and> fa_type q = KFS_DIR" using child [OF h r] by (intro exI [of _ q]) simp
next
  fix b h assume "(b, h) \<in> ?F"
  then have h: "(b, h) \<in> F" "b \<noteq> a" using fs_diff [OF t(1) f(1)] by auto
  show "up ?F b" by (rule up_remove [OF fs_up [OF t(2) h(1)] h(2) child])
qed

lemma fs_links_remove:
  assumes l: "fs_refs F D C" "fs_links F D" and f: "(a, f) \<in> F"
    and child: "\<And>b h. (b, h) \<in> F \<Longrightarrow> fa_id h \<noteq> ROOTFID \<Longrightarrow> parent h \<noteq> a"
  shows "fs_links (F - {(a, f)}) (D - about (fa_id f) D)" (is "fs_links ?F ?D")
  unfolding fs_links_def
proof (intro conjI allI impI)
  fix x k b g assume *: "(x, k) \<in> ?D" "proper k" "(b, g) \<in> ?F" "fa_id g = d_fid k"
  then have m: "(x, k) \<in> D" "(b, g) \<in> F" by auto
  from fs_link_parent [OF l(2) m(1) *(2) m(2) *(4)] show "fa_id g \<noteq> ROOTFID" "\<exists>h. (parent g, h) \<in> ?F \<and> fa_id h = d_dir k"
    using child [OF m(2)] by auto
next
  fix x y k m assume "(x, k) \<in> ?D" "(y, m) \<in> ?D" "proper k" "proper m" "d_fid k = d_fid m"
  then show "x = y" using fs_link_one [OF l(2), of x k y m] by blast
next
  fix b g assume "(b, g) \<in> ?F" "fa_id g \<noteq> ROOTFID"
  then have g: "(b, g) \<in> F" "b \<noteq> a" "fa_id g \<noteq> ROOTFID" using fs_diff [OF l(1) f] by auto
  then obtain x k where k: "(x, k) \<in> D" "proper k" "d_fid k = fa_id g" using fs_link_some [OF l(2)] by blast
  obtain h where h: "(parent g, h) \<in> F" "fa_id h = d_dir k" using fs_link_parent [OF l(2) k(1,2) g(1)] k(3) by auto
  have "d_dir k \<noteq> fa_id f" using fs_id_iff [OF l(1) f h(1)] child [OF g(1,3)] h(2) by simp
  moreover have "d_fid k \<noteq> fa_id f" using fs_id_iff [OF l(1) f g(1)] g(2) k(3) by simp
  ultimately show "\<exists>x k. (x, k) \<in> ?D \<and> proper k \<and> d_fid k = fa_id g" using k about_diff by blast
qed

lemma fs_dots_remove:
  assumes l: "fs_refs F D C" "fs_dots F D" and f: "(a, f) \<in> F" "fa_id f \<noteq> ROOTFID"
    and child: "\<And>b h. (b, h) \<in> F \<Longrightarrow> fa_id h \<noteq> ROOTFID \<Longrightarrow> parent h \<noteq> a"
  shows "fs_dots (F - {(a, f)}) (D - about (fa_id f) D)" (is "fs_dots ?F ?D")
  unfolding fs_dots_def
proof (intro conjI allI impI)
  fix b g assume "(b, g) \<in> ?F" "fa_type g = KFS_DIR"
  then have g: "(b, g) \<in> F" "fa_id g \<noteq> fa_id f" "fa_type g = KFS_DIR"
    using fs_diff [OF l(1) f(1)] fs_id_iff [OF l(1) f(1), of b g] by auto
  from fs_dots_in [OF l(2) g(1,3)] obtain x k y m where
    k: "(x, k) \<in> D" "d_dir k = fa_id g" "d_name k = kThisDir" and m: "(y, m) \<in> D" "d_dir m = fa_id g" "d_name m = kParentDir" by blast
  have "d_fid k = d_dir k" by (rule fs_dot [OF l(2) k(1,3)])
  then show "\<exists>x k. (x, k) \<in> ?D \<and> d_dir k = fa_id g \<and> d_name k = kThisDir"
    using k g(2) by (intro exI [of _ x] exI [of _ k]) (simp add: about_def)
  have "d_fid m \<noteq> fa_id f"
  proof (cases "fa_id g = ROOTFID")
    case False
    then obtain h where "(parent g, h) \<in> F" "fa_id h = d_fid m" using fs_dotdot [OF l(2) m(1,3) g(1) m(2) [symmetric]] by auto
    then show ?thesis using fs_id_iff [OF l(1) f(1)] child [OF g(1) False] by metis
  qed (use fs_dotdot [OF l(2) m(1,3) g(1) m(2) [symmetric]] f(2) in simp)
  then show "\<exists>x k. (x, k) \<in> ?D \<and> d_dir k = fa_id g \<and> d_name k = kParentDir"
    using m g(2) by (intro exI [of _ y] exI [of _ m]) (simp add: about_def)
next
  fix x k assume "(x, k) \<in> ?D" "d_name k = kThisDir"
  then show "d_fid k = d_dir k" using fs_dot [OF l(2), of x k] by simp
next
  fix x k b g assume *: "(x, k) \<in> ?D" "d_name k = kParentDir" "(b, g) \<in> ?F" "fa_id g = d_dir k"
  then have "(x, k) \<in> D" "(b, g) \<in> F" by auto
  from fs_dotdot [OF l(2) this(1) *(2) this(2) *(4)] child [OF this(2)]
  show "if fa_id g = ROOTFID then d_fid k = ROOTFID else \<exists>h. (parent g, h) \<in> ?F \<and> fa_id h = d_fid k"
    by (cases "fa_id g = ROOTFID") auto
next
  fix x k assume "(x, k) \<in> ?D" "d_name k = ''/''"
  then show "d_dir k = ROOTFID" "d_fid k = ROOTFID" using fs_slash [OF l(2), of x k] by simp_all
qed

lemma fs_ok_remove:
  assumes ok: "fs_ok F D C" and f: "(a, f) \<in> F" "fa_id f \<noteq> ROOTFID"
    and child: "\<And>b h. (b, h) \<in> F \<Longrightarrow> fa_id h \<noteq> ROOTFID \<Longrightarrow> parent h \<noteq> a"
    and ch: "\<And>x c. (x, c) \<in> C \<Longrightarrow> c_fattr c \<noteq> a"
  shows "fs_ok (F - {(a, f)}) (D - about (fa_id f) D) C"
  using ok unfolding fs_ok_def
  by (intro conjI fs_refs_remove fs_tree_remove [of F D C] fs_links_remove [of F D C] fs_dots_remove [of F D C]) (use f child ch in blast)+

text \<open>Nothing but its own entry leads to a file.\<close>

lemma about_file:
  assumes ok: "fs_ok F D C" and f: "(a, f) \<in> F" "fa_type f \<noteq> KFS_DIR" and d: "(x, d) \<in> D" "proper d" "d_fid d = fa_id f"
  shows "about (fa_id f) D = {(x, d)}" "\<And>b h. (b, h) \<in> F \<Longrightarrow> fa_id h \<noteq> ROOTFID \<Longrightarrow> parent h \<noteq> a"
proof -
  have o: "fs_refs F D C" "fs_tree F" "fs_links F D" "fs_dots F D" using ok by (simp_all add: fs_ok_def)
  have dir: "fa_id g \<noteq> fa_id f" if "(b, g) \<in> F" "fa_type g = KFS_DIR" for b g using fs_ids [OF o(1) f(1) that(1)] f(2) that(2) by auto
  have nr: "fa_id f \<noteq> ROOTFID" using fs_link_parent [OF o(3) d(1,2) f(1) d(3) [symmetric]] by simp
  have "(y, k) = (x, d)" if "(y, k) \<in> about (fa_id f) D" for y k
  proof -
    have k: "(y, k) \<in> D" "d_fid k = fa_id f" using that fs_dir [OF o(1), of y k] dir by (auto simp: about_def)
    obtain b g where g: "(b, g) \<in> F" "fa_id g = d_dir k" "fa_type g = KFS_DIR" using fs_dir [OF o(1) k(1)] by blast
    have "proper k"
    proof (rule ccontr)
      assume "\<not> proper k"
      then consider "d_name k = kThisDir" | "d_name k = kParentDir" | "d_name k = ''/''" by (auto simp: proper_def)
      then show False
      proof cases
        case 1
        then show ?thesis using fs_dot [OF o(4) k(1)] k(2) dir [OF g(1,3)] g(2) by simp
      next
        case 2
        with fs_dotdot [OF o(4) k(1) 2 g(1,2)] k(2) nr obtain h where h: "fa_id g \<noteq> ROOTFID" "(parent g, h) \<in> F" "fa_id h = fa_id f"
          by (cases "fa_id g = ROOTFID") auto
        obtain q where q: "(parent g, q) \<in> F" "fa_type q = KFS_DIR" using fs_parent [OF o(2) g(1) h(1)] by blast
        then show ?thesis using dir [OF q] h(3) fs_ids [OF o(1) h(2) q(1)] by simp
      next
        case 3
        then show ?thesis using fs_slash [OF o(4) k(1)] k(2) nr by simp
      qed
    qed
    then have "y = x" using fs_link_one [OF o(3) k(1) d(1)] d k(2) by simp
    then show ?thesis using fs_names [OF o(1) k(1) d(1)] by simp
  qed
  then show "about (fa_id f) D = {(x, d)}" using d by (auto simp: about_def)
  show "parent h \<noteq> a" if "(b, h) \<in> F" "fa_id h \<noteq> ROOTFID" for b h
    using fs_parent [OF o(2) that] fs_ids [OF o(1) f(1)] f(2) by auto
qed

lemma about_dir:
  assumes ok: "fs_ok F D C" and f: "(a, f) \<in> F" and d: "(x, d) \<in> D" "proper d" "d_fid d = fa_id f"
    and e: "(y, e) \<in> D" "d_dir e = fa_id f" "d_name e = kThisDir" and g: "(z, g) \<in> D" "d_dir g = fa_id f" "d_name g = kParentDir"
    and empty: "\<And>u k. (u, k) \<in> D \<Longrightarrow> d_dir k = fa_id f \<Longrightarrow> u = y \<or> u = z"
  shows "about (fa_id f) D = {(x, d), (y, e), (z, g)}" "\<And>b h. (b, h) \<in> F \<Longrightarrow> fa_id h \<noteq> ROOTFID \<Longrightarrow> parent h \<noteq> a"
proof -
  have o: "fs_refs F D C" "fs_tree F" "fs_links F D" "fs_dots F D" using ok by (simp_all add: fs_ok_def)
  have nr: "fa_id f \<noteq> ROOTFID" using fs_link_parent [OF o(3) d(1,2) f d(3) [symmetric]] by simp
  have inside: "(u, k) = (y, e) \<or> (u, k) = (z, g)" if "(u, k) \<in> D" "d_dir k = fa_id f" for u k
    using empty [OF that] fs_names [OF o(1) that(1) e(1)] fs_names [OF o(1) that(1) g(1)] by auto
  show child: "parent h \<noteq> a" if h: "(b, h) \<in> F" "fa_id h \<noteq> ROOTFID" for b h
  proof
    assume p: "parent h = a"
    obtain u k where k: "(u, k) \<in> D" "proper k" "d_fid k = fa_id h" using fs_link_some [OF o(3) h] by blast
    obtain q where q: "(parent h, q) \<in> F" "fa_id q = d_dir k" using fs_link_parent [OF o(3) k(1,2) h(1)] k(3) by auto
    have "d_dir k = fa_id f" using fs_ids [OF o(1) q(1) f] p q(2) by simp
    then show False using inside [OF k(1)] k(2) e(3) g(3) by (auto simp: proper_def)
  qed
  have "(u, k) \<in> {(x, d), (y, e), (z, g)}" if uk: "(u, k) \<in> about (fa_id f) D" for u k
  proof (cases "d_dir k = fa_id f")
    case False
    then have k: "(u, k) \<in> D" "d_fid k = fa_id f" using uk by (auto simp: about_def)
    obtain b h where h: "(b, h) \<in> F" "fa_id h = d_dir k" using fs_dir [OF o(1) k(1)] by blast
    have "d_name k \<noteq> kThisDir" using fs_dot [OF o(4) k(1)] k(2) False by auto
    moreover have "d_name k \<noteq> ''/''" using fs_slash [OF o(4) k(1)] k(2) nr by auto
    moreover have "d_name k \<noteq> kParentDir"
    proof
      assume n: "d_name k = kParentDir"
      obtain q where q: "fa_id h \<noteq> ROOTFID" "(parent h, q) \<in> F" "fa_id q = fa_id f"
        using fs_dotdot [OF o(4) k(1) n h] k(2) nr by (cases "fa_id h = ROOTFID") auto
      show False using fs_ids [OF o(1) q(2) f] q(3) child [OF h(1) q(1)] by simp
    qed
    ultimately have p: "proper k" by (simp add: proper_def)
    have "u = x" using fs_link_one [OF o(3) k(1) d(1) p d(2)] k(2) d(3) by simp
    then show ?thesis using fs_names [OF o(1) k(1) d(1)] by simp
  qed (use uk inside [of u k] in \<open>auto simp: about_def\<close>)
  then show "about (fa_id f) D = {(x, d), (y, e), (z, g)}" using d e g by (auto simp: about_def)
qed

subsection \<open>Renaming and moving\<close>

text \<open>\<open>b\<close> is \<open>a\<close> or below it.\<close>

inductive below :: "(addr \<times> MetaFattr) set \<Rightarrow> addr \<Rightarrow> addr \<Rightarrow> bool" for F a where
  self: "below F a a"
| step: "(b, g) \<in> F \<Longrightarrow> fa_id g \<noteq> ROOTFID \<Longrightarrow> below F a (parent g) \<Longrightarrow> below F a b"

text \<open>The attributes at \<open>a\<close> get a new parent.\<close>

definition mv :: "addr \<Rightarrow> addr \<Rightarrow> (addr \<times> MetaFattr) set \<Rightarrow> (addr \<times> MetaFattr) set" where
  "mv a q F = (\<lambda>(b, g). (b, if b = a then g\<lparr>parent := q\<rparr> else g)) ` F"

lemma in_mvI: "(b, g) \<in> F \<Longrightarrow> (b, if b = a then g\<lparr>parent := q\<rparr> else g) \<in> mv a q F"
  by (force simp: mv_def)

lemma in_mvE:
  assumes "(b, g) \<in> mv a q F"
  obtains h where "(b, h) \<in> F" "g = (if b = a then h\<lparr>parent := q\<rparr> else h)"
  using assms by (auto simp: mv_def)

lemma mv_keeps: "(b, g) \<in> mv a q F \<Longrightarrow> \<exists>h. (b, h) \<in> F \<and> fa_id h = fa_id g \<and> fa_type h = fa_type g \<and> (b \<noteq> a \<longrightarrow> h = g) \<and> (b = a \<longrightarrow> parent g = q)"
  by (erule in_mvE) auto

lemma mv_back: "(b, g) \<in> F \<Longrightarrow> \<exists>h. (b, h) \<in> mv a q F \<and> fa_id h = fa_id g \<and> fa_type h = fa_type g"
  using in_mvI [of b g F a q] by (cases "b = a") (auto intro: exI [of _ "g\<lparr>parent := q\<rparr>"])

lemma mv_same: "(\<And>f. (a, f) \<in> F \<Longrightarrow> parent f = q) \<Longrightarrow> mv a q F = F"
  by (force simp: mv_def image_iff)

lemma up_move:
  assumes up: "up F b" and f: "(a, f) \<in> F" "fa_id f \<noteq> ROOTFID" and q: "up F q" "\<not> below F a q"
  shows "up (mv a q F) b"
proof -
  have other: "up (mv a q F) c" if "up F c" "\<not> below F a c" for c
    using that
  proof (induction rule: up.induct)
    case (root c g)
    then have "c \<noteq> a" using below.self by blast
    then show ?case using in_mvI [OF root(1), of a q] root by (intro up.root [of c g]) auto
  next
    case (step c g)
    have "c \<noteq> a" using step.prems below.self by blast
    moreover have "\<not> below F a (parent g)" using step.prems below.step [OF step.hyps(1,2)] by blast
    ultimately show ?case using step in_mvI [OF step.hyps(1), of a q] by (intro up.step [of c g]) auto
  qed
  have a: "up (mv a q F) a" using other [OF q] f in_mvI [OF f(1), of a q] by (intro up.step [of a "f\<lparr>parent := q\<rparr>"]) auto
  show ?thesis
    using up
  proof (induction rule: up.induct)
    case (root c g)
    then show ?case using a in_mvI [OF root(1), of a q] by (cases "c = a") (auto intro: up.root [of c g])
  next
    case (step c g)
    then show ?case using a in_mvI [OF step.hyps(1), of a q] by (cases "c = a") (auto intro: up.step [of c g])
  qed
qed

lemma fs_tree_move:
  assumes t: "fs_refs F D C" "fs_tree F" and f: "(a, f) \<in> F" "fa_id f \<noteq> ROOTFID" and Q: "(q, Q) \<in> F" "fa_type Q = KFS_DIR" "q \<noteq> 0" "\<not> below F a q"
  shows "fs_tree (mv a q F)"
  unfolding fs_tree_def
proof (intro conjI allI impI)
  obtain b g where g: "(b, g) \<in> F" "fa_id g = ROOTFID" "fa_type g = KFS_DIR" "parent g = 0" using fs_root [OF t(2)] by blast
  moreover have "b \<noteq> a" using fs_ids [OF t(1) g(1) f(1)] g(2) f(2) by auto
  ultimately show "\<exists>b g. (b, g) \<in> mv a q F \<and> fa_id g = ROOTFID \<and> fa_type g = KFS_DIR \<and> parent g = 0"
    using in_mvI [OF g(1), of a q] by (intro exI [of _ b] exI [of _ g]) simp
next
  fix b h assume h: "(b, h) \<in> mv a q F" "fa_id h \<noteq> ROOTFID"
  obtain h0 where h0: "(b, h0) \<in> F" "fa_id h0 = fa_id h" "b \<noteq> a \<longrightarrow> h0 = h" "b = a \<longrightarrow> parent h = q" using mv_keeps [OF h(1)] by blast
  have p: "parent h \<noteq> 0 \<and> (\<exists>g. (parent h, g) \<in> F \<and> fa_type g = KFS_DIR)"
    using fs_parent [OF t(2) h0(1)] h(2) h0 Q by (cases "b = a") auto
  then show "parent h \<noteq> 0" by simp
  show "\<exists>g. (parent h, g) \<in> mv a q F \<and> fa_type g = KFS_DIR" using p mv_back [of "parent h" _ F a q] by metis
next
  fix b h assume "(b, h) \<in> mv a q F"
  then obtain h0 where "(b, h0) \<in> F" using mv_keeps by blast
  then show "up (mv a q F) b" by (intro up_move [OF fs_up [OF t(2)] f fs_up [OF t(2) Q(1)] Q(4)])
qed

text \<open>An entry leads from a directory to an object.\<close>

definition leads :: "(addr \<times> MetaFattr) set \<Rightarrow> MetaDentry \<Rightarrow> bool" where
  "leads F k \<longleftrightarrow> (\<exists>b g. (b, g) \<in> F \<and> fa_id g = d_dir k \<and> fa_type g = KFS_DIR) \<and>
     (\<exists>b g. (b, g) \<in> F \<and> fa_id g = d_fid k \<and> (d_fattr k = 0 \<or> d_fattr k = b))"

lemma leads_mv: "leads F k \<Longrightarrow> leads (mv a q F) k"
  unfolding leads_def using mv_back [of _ _ F a q] by metis

lemma fs_leads: "fs_refs F D C \<Longrightarrow> (u, k) \<in> D \<Longrightarrow> leads F k"
  unfolding fs_refs_def leads_def by blast

lemma fs_refs_move:
  assumes r: "fs_refs F D C" and E: "names_uniq E" "\<And>u k. (u, k) \<in> E \<Longrightarrow> leads F k"
  shows "fs_refs (mv a q F) E C"
  unfolding fs_refs_def
proof (intro conjI allI impI)
  fix b c g h assume *: "(b, g) \<in> mv a q F" "(c, h) \<in> mv a q F" "fa_id g = fa_id h \<or> b = c"
  obtain g0 h0 where 0: "(b, g0) \<in> F" "g = (if b = a then g0\<lparr>parent := q\<rparr> else g0)" "(c, h0) \<in> F" "h = (if c = a then h0\<lparr>parent := q\<rparr> else h0)"
    using *(1,2) by (auto elim!: in_mvE)
  then have "b = c \<and> g0 = h0" using *(3) by (intro fs_ids [OF r 0(1,3)]) (auto split: if_splits)
  then show "b = c" "g = h" using 0 by simp_all
next
  fix u v k l assume "(u, k) \<in> E" "(v, l) \<in> E" "(d_dir k = d_dir l \<and> d_name k = d_name l) \<or> u = v"
  from names_uniqD [OF E(1) this] show "u = v" "k = l" by simp_all
next
  fix u k assume "(u, k) \<in> E"
  from leads_mv [OF E(2) [OF this], of a q]
  show "\<exists>b g. (b, g) \<in> mv a q F \<and> fa_id g = d_dir k \<and> fa_type g = KFS_DIR"
    "\<exists>b g. (b, g) \<in> mv a q F \<and> fa_id g = d_fid k \<and> (d_fattr k = 0 \<or> d_fattr k = b)" by (simp_all add: leads_def)
next
  fix x c assume "(x, c) \<in> C"
  then obtain g where "(c_fattr c, g) \<in> F" "fa_type g = KFS_FILE" using fs_chunk [OF r] by blast
  then show "\<exists>g. (c_fattr c, g) \<in> mv a q F \<and> fa_type g = KFS_FILE" using mv_back [of "c_fattr c" g F a q] by auto
qed

text \<open>Only the entries that are not the directories' own count for the links.\<close>

lemma fs_links_move:
  assumes l: "fs_refs F D C" "fs_links F D" and f: "(a, f) \<in> F" and d: "(x, d) \<in> D" "proper d" "d_fid d = fa_id f"
    and e: "proper e" "d_fid e = fa_id f" and Q: "(q, Q) \<in> F" "d_dir e = fa_id Q"
    and E: "\<And>u k. proper k \<Longrightarrow> (u, k) \<in> E \<longleftrightarrow> (u, k) = (y, e) \<or> ((u, k) \<in> D \<and> (u, k) \<noteq> (x, d))"
  shows "fs_links (mv a q F) E"
proof -
  have nr: "fa_id f \<noteq> ROOTFID" using fs_link_parent [OF l(2) d(1,2) f d(3) [symmetric]] by simp
  have one: "(u, k) = (x, d)" if "(u, k) \<in> D" "proper k" "d_fid k = fa_id f" for u k
    using fs_link_one [OF l(2) that(1) d(1) that(2) d(2)] that(3) d(3) fs_names [OF l(1) that(1) d(1)] by simp
  show ?thesis
    unfolding fs_links_def
  proof (intro conjI allI impI)
    fix u k b g assume *: "(u, k) \<in> E" "proper k" "(b, g) \<in> mv a q F" "fa_id g = d_fid k"
    obtain h where h: "(b, h) \<in> F" "fa_id h = fa_id g" "b \<noteq> a \<longrightarrow> h = g" "b = a \<longrightarrow> parent g = q" using mv_keeps [OF *(3)] by blast
    have "fa_id g \<noteq> ROOTFID \<and> (\<exists>p. (parent g, p) \<in> F \<and> fa_id p = d_dir k)"
    proof (cases "b = a")
      case True
      then have "d_fid k = fa_id f" using fs_ids [OF l(1) h(1) f] h(2) *(4) by simp
      then have "k = e" using E [OF *(2)] *(1,2) one [of u k] by auto
      then show ?thesis using True h(4) Q \<open>d_fid k = fa_id f\<close> *(4) nr by auto
    next
      case False
      then have "d_fid k \<noteq> fa_id f" using fs_ids [OF l(1) h(1) f] h(2) *(4) by auto
      then have "(u, k) \<in> D" using E [OF *(2)] *(1) e(2) by auto
      from fs_link_parent [OF l(2) this *(2) h(1)] h(2,3) *(4) False show ?thesis by simp
    qed
    then show "fa_id g \<noteq> ROOTFID" "\<exists>p. (parent g, p) \<in> mv a q F \<and> fa_id p = d_dir k" using mv_back [of "parent g" _ F a q] by metis+
  next
    fix u v k m assume *: "(u, k) \<in> E" "(v, m) \<in> E" "proper k" "proper m" "d_fid k = d_fid m"
    then show "u = v" using fs_link_one [OF l(2), of u k v m] one [of u k] one [of v m] E [of k u] E [of m v] e(2) by auto
  next
    fix b g assume g: "(b, g) \<in> mv a q F" "fa_id g \<noteq> ROOTFID"
    obtain h where h: "(b, h) \<in> F" "fa_id h = fa_id g" using mv_keeps [OF g(1)] by blast
    obtain u k where k: "(u, k) \<in> D" "proper k" "d_fid k = fa_id h" using fs_link_some [OF l(2) h(1)] h(2) g(2) by auto
    then show "\<exists>u k. (u, k) \<in> E \<and> proper k \<and> d_fid k = fa_id g"
      using E [OF k(2)] E [OF e(1)] d(3) e h(2) by (cases "(u, k) = (x, d)") (metis prod.inject)+
  qed
qed

lemma mv_back_parent: "(b, g) \<in> F \<Longrightarrow> fa_id g = i \<Longrightarrow> \<exists>h. (b, h) \<in> mv a q F \<and> fa_id h = i"
  using mv_back [of b g F a q] by auto

lemma fs_dots_keep:
  assumes l: "fs_refs F D C" "fs_dots F D" and f: "(a, f) \<in> F" "fa_type f \<noteq> KFS_DIR \<or> parent f = q"
    and E: "\<And>u k. \<not> proper k \<Longrightarrow> (u, k) \<in> E \<longleftrightarrow> (u, k) \<in> D"
  shows "fs_dots (mv a q F) E"
  unfolding fs_dots_def
proof (intro conjI allI impI)
  fix b g assume "(b, g) \<in> mv a q F" "fa_type g = KFS_DIR"
  then obtain h where h: "(b, h) \<in> F" "fa_id h = fa_id g" "fa_type h = KFS_DIR" using mv_keeps by metis
  from fs_dots_in [OF l(2) h(1,3)]
  show "\<exists>u k. (u, k) \<in> E \<and> d_dir k = fa_id g \<and> d_name k = kThisDir" "\<exists>u k. (u, k) \<in> E \<and> d_dir k = fa_id g \<and> d_name k = kParentDir"
    using E h(2) by (metis (no_types) insertCI proper_def)+
next
  fix u k assume "(u, k) \<in> E" "d_name k = kThisDir"
  then show "d_fid k = d_dir k" using fs_dot [OF l(2), of u k] E [of k u] by (simp add: proper_def)
next
  fix u k b g assume *: "(u, k) \<in> E" "d_name k = kParentDir" "(b, g) \<in> mv a q F" "fa_id g = d_dir k"
  have k: "(u, k) \<in> D" using * E [of k u] by (simp add: proper_def)
  obtain h where h: "(b, h) \<in> F" "g = (if b = a then h\<lparr>parent := q\<rparr> else h)" using *(3) by (rule in_mvE)
  have id: "fa_id h = d_dir k" using h(2) *(4) by (auto split: if_splits)
  have "parent g = parent h"
  proof (cases "b = a")
    case True
    then have "h = f" using fs_ids [OF l(1) h(1) f(1)] by simp
    moreover have "fa_type h = KFS_DIR" using fs_dir [OF l(1) k] fs_ids [OF l(1) h(1)] id by auto
    ultimately show ?thesis using f(2) h(2) by auto
  qed (use h(2) in simp)
  moreover have "fa_id h = fa_id g" using id *(4) by simp
  ultimately show "if fa_id g = ROOTFID then d_fid k = ROOTFID else \<exists>p. (parent g, p) \<in> mv a q F \<and> fa_id p = d_fid k"
    using fs_dotdot [OF l(2) k *(2) h(1) id] mv_back_parent [of "parent g" _ F "d_fid k" a q] by auto
next
  fix u k assume "(u, k) \<in> E" "d_name k = ''/''"
  then show "d_dir k = ROOTFID" "d_fid k = ROOTFID" using fs_slash [OF l(2), of u k] E [of k u] by (simp_all add: proper_def)
qed

lemma fs_dots_move:
  assumes l: "fs_refs F D C" "fs_dots F D" and f: "(a, f) \<in> F" "fa_id f \<noteq> ROOTFID" and Q: "(q, Q) \<in> F"
    and g: "(z, g) \<in> D" "d_dir g = fa_id f" "d_name g = kParentDir"
    and e: "d_dir e = fa_id f" "d_name e = kParentDir" "d_fid e = fa_id Q"
    and E: "\<And>u k. \<not> proper k \<Longrightarrow> (u, k) \<in> E \<longleftrightarrow> (u, k) = (w, e) \<or> ((u, k) \<in> D \<and> (u, k) \<noteq> (z, g))"
  shows "fs_dots (mv a q F) E"
  unfolding fs_dots_def
proof (intro conjI allI impI)
  fix b p assume "(b, p) \<in> mv a q F" "fa_type p = KFS_DIR"
  then obtain h where h: "(b, h) \<in> F" "fa_id h = fa_id p" "fa_type h = KFS_DIR" using mv_keeps by metis
  obtain u k v m where k: "(u, k) \<in> D" "d_dir k = fa_id h" "d_name k = kThisDir" and m: "(v, m) \<in> D" "d_dir m = fa_id h" "d_name m = kParentDir"
    using fs_dots_in [OF l(2) h(1,3)] by blast
  show "\<exists>u k. (u, k) \<in> E \<and> d_dir k = fa_id p \<and> d_name k = kThisDir"
    using E [of k u] k g(3) h(2) by (intro exI [of _ u] exI [of _ k]) (auto simp: proper_def)
  show "\<exists>u k. (u, k) \<in> E \<and> d_dir k = fa_id p \<and> d_name k = kParentDir"
  proof (cases "(v, m) = (z, g)")
    case True
    then show ?thesis using E [of e w] e g m(2) h(2) by (intro exI [of _ w] exI [of _ e]) (auto simp: proper_def)
  next
    case False
    then show ?thesis using E [of m v] m h(2) by (intro exI [of _ v] exI [of _ m]) (auto simp: proper_def)
  qed
next
  fix u k assume "(u, k) \<in> E" "d_name k = kThisDir"
  then show "d_fid k = d_dir k" using fs_dot [OF l(2), of u k] E [of k u] e(2) by (auto simp: proper_def)
next
  fix u k b p assume *: "(u, k) \<in> E" "d_name k = kParentDir" "(b, p) \<in> mv a q F" "fa_id p = d_dir k"
  obtain h where h: "(b, h) \<in> F" "p = (if b = a then h\<lparr>parent := q\<rparr> else h)" using *(3) by (rule in_mvE)
  have id: "fa_id h = d_dir k" using h(2) *(4) by (auto split: if_splits)
  show "if fa_id p = ROOTFID then d_fid k = ROOTFID else \<exists>r. (parent p, r) \<in> mv a q F \<and> fa_id r = d_fid k"
  proof (cases "b = a")
    case True
    then have "d_dir k = fa_id f" using fs_ids [OF l(1) h(1) f(1)] id by simp
    then have "k = e" using E [of k u] *(1,2) fs_names [OF l(1) _ g(1), of u k] g by (auto simp: proper_def)
    moreover have "parent p = q" "fa_id p \<noteq> ROOTFID" using True h(2) fs_ids [OF l(1) h(1) f(1)] f(2) by auto
    ultimately show ?thesis using mv_back_parent [OF Q, of "fa_id Q" a q] e(3) by simp
  next
    case False
    then have "d_dir k \<noteq> fa_id f" using fs_ids [OF l(1) h(1) f(1)] id by auto
    then have "(u, k) \<in> D" using E [of k u] *(1,2) e(1) by (auto simp: proper_def)
    from fs_dotdot [OF l(2) this *(2) h(1) id] show ?thesis
      using h(2) False mv_back_parent [of "parent p" _ F "d_fid k" a q] by auto
  qed
next
  fix u k assume "(u, k) \<in> E" "d_name k = ''/''"
  then have "(u, k) \<in> D" "d_name k = ''/''" using E [of k u] e(2) by (auto simp: proper_def)
  from fs_slash [OF l(2) this] show "d_dir k = ROOTFID" "d_fid k = ROOTFID" by simp_all
qed

text \<open>The four ways to rename: in its directory or to another one, a file or a directory.\<close>

lemma fs_ok_relink:
  assumes ok: "fs_ok F D C" and f: "(a, f) \<in> F" and d: "(x, d) \<in> D" "proper d" "d_fid d = fa_id f"
    and e: "proper e" "d_fid e = fa_id f" "d_fattr e = a" and Q: "(q, Q) \<in> F" "fa_type Q = KFS_DIR" "q \<noteq> 0" "\<not> below F a q" "d_dir e = fa_id Q"
    and y: "\<And>k. (y, k) \<notin> D" and free: "\<And>u k. (u, k) \<in> D \<Longrightarrow> \<not> (d_dir k = d_dir e \<and> d_name k = d_name e)"
    and keep: "fa_type f \<noteq> KFS_DIR \<or> parent f = q"
  shows "fs_ok (mv a q F) (insert (y, e) (D - {(x, d)})) C"
proof -
  have o: "fs_refs F D C" "fs_tree F" "fs_links F D" "fs_dots F D" using ok by (simp_all add: fs_ok_def)
  have nr: "fa_id f \<noteq> ROOTFID" using fs_link_parent [OF o(3) d(1,2) f d(3) [symmetric]] by simp
  have "names_uniq (insert (y, e) (D - {(x, d)}))"
    using fs_refs_uniq [OF o(1)] free y by (intro names_uniq_insert) (auto simp: names_uniq_def)
  moreover have "leads F k" if "(u, k) \<in> insert (y, e) (D - {(x, d)})" for u k
    using that
  proof (cases "(u, k) = (y, e)")
    case True
    then show ?thesis using fs_ref_intro [OF Q(1) Q(5) [symmetric] Q(2) f e(2) [symmetric]] e(3) by (simp add: leads_def)
  qed (use fs_leads [OF o(1), of u k] in auto)
  ultimately have "fs_refs (mv a q F) (insert (y, e) (D - {(x, d)})) C" by (rule fs_refs_move [OF o(1)])
  moreover have "fs_links (mv a q F) (insert (y, e) (D - {(x, d)}))"
    by (rule fs_links_move [OF o(1,3) f d e(1,2) Q(1,5)]) auto
  moreover have "fs_dots (mv a q F) (insert (y, e) (D - {(x, d)}))"
    by (rule fs_dots_keep [OF o(1,4) f keep]) (use e(1) d(2) in auto)
  ultimately show ?thesis using fs_tree_move [OF o(1,2) f nr Q(1-4)] by (simp only: fs_ok_def)
qed

lemma fs_ok_move_dir:
  assumes ok: "fs_ok F D C" and f: "(a, f) \<in> F" "fa_type f = KFS_DIR" and d: "(x, d) \<in> D" "proper d" "d_fid d = fa_id f"
    and e: "proper e" "d_fid e = fa_id f" "d_fattr e = a" and Q: "(q, Q) \<in> F" "fa_type Q = KFS_DIR" "q \<noteq> 0" "\<not> below F a q" "d_dir e = fa_id Q"
    and y: "\<And>k. (y, k) \<notin> D" "\<And>k. (w, k) \<notin> D" "w \<noteq> y" and free: "\<And>u k. (u, k) \<in> D \<Longrightarrow> \<not> (d_dir k = d_dir e \<and> d_name k = d_name e)"
    and g: "(z, g) \<in> D" "d_dir g = fa_id f" "d_name g = kParentDir"
    and h: "d_dir h = fa_id f" "d_name h = kParentDir" "d_fid h = fa_id Q" "d_fattr h = q"
  shows "fs_ok (mv a q F) (insert (w, h) (insert (y, e) (D - {(z, g)} - {(x, d)}))) C" (is "fs_ok _ ?D _")
proof -
  have o: "fs_refs F D C" "fs_tree F" "fs_links F D" "fs_dots F D" using ok by (simp_all add: fs_ok_def)
  have nr: "fa_id f \<noteq> ROOTFID" using fs_link_parent [OF o(3) d(1,2) f(1) d(3) [symmetric]] by simp
  have np: "d_name e \<noteq> kParentDir" "\<not> proper h" "\<not> proper g" using e(1) h(2) g(3) by (auto simp: proper_def)
  have "names_uniq (D - {(z, g)} - {(x, d)})" using fs_refs_uniq [OF o(1)] by (auto simp: names_uniq_def)
  then have "names_uniq (insert (y, e) (D - {(z, g)} - {(x, d)}))"
    using free y(1) by (intro names_uniq_insert) auto
  moreover have "\<not> (d_dir k = d_dir h \<and> d_name k = d_name h) \<and> u \<noteq> w" if "(u, k) \<in> insert (y, e) (D - {(z, g)} - {(x, d)})" for u k
  proof (cases "(u, k) = (y, e)")
    case False
    then have k: "(u, k) \<in> D" "(u, k) \<noteq> (z, g)" using that by auto
    then show ?thesis using y(2) [of k] fs_names [OF o(1) k(1) g(1)] g(2,3) h(1,2) by auto
  qed (use np(1) h(2) y(3) in auto)
  ultimately have "names_uniq ?D" by (rule names_uniq_insert)
  moreover have "leads F k" if k: "(u, k) \<in> ?D" for u k
  proof -
    consider "k = e" | "k = h" | "(u, k) \<in> D" using k by auto
    then show ?thesis
    proof cases
      case 1
      then show ?thesis using fs_ref_intro [OF Q(1) Q(5) [symmetric] Q(2) f(1) e(2) [symmetric]] e(3) by (simp add: leads_def)
    next
      case 2
      then show ?thesis using fs_ref_intro [OF f(1) h(1) [symmetric] f(2) Q(1) h(3) [symmetric]] h(4) by (simp add: leads_def)
    qed (rule fs_leads [OF o(1)])
  qed
  ultimately have "fs_refs (mv a q F) ?D C" by (rule fs_refs_move [OF o(1)])
  moreover have "fs_links (mv a q F) ?D"
    by (rule fs_links_move [OF o(1,3) f(1) d e(1,2) Q(1,5)]) (use np in auto)
  moreover have "fs_dots (mv a q F) ?D"
    by (rule fs_dots_move [OF o(1,4) f(1) nr Q(1) g h(1-3)]) (use e(1) d(2) in auto)
  ultimately show ?thesis using fs_tree_move [OF o(1,2) f(1) nr Q(1-4)] by (simp only: fs_ok_def)
qed

text \<open>A parent is not below its children.\<close>

lemma below_trans: "below F b c \<Longrightarrow> below F a b \<Longrightarrow> below F a c"
  by (induction rule: below.induct) (auto intro: below.step)

lemma below_parent:
  assumes up: "up F a" and r: "fs_refs F D C" and f: "(a, f) \<in> F" "fa_id f \<noteq> ROOTFID"
  shows "\<not> below F a (parent f)"
  using up f
proof (induction arbitrary: f rule: up.induct)
  case (root a f0)
  then show ?case using fs_ids [OF r root(1) root.prems(1)] by simp
next
  case (step a f0)
  have f: "f0 = f" using fs_ids [OF r step.hyps(1) step.prems(1)] by simp
  show ?case
  proof
    assume b: "below F a (parent f)"
    then show False
    proof (cases rule: below.cases)
      case self
      then show ?thesis using step.IH [of f] step.prems b f by simp
    next
      case (step g)
      note IH = \<open>\<And>fa. (parent f0, fa) \<in> F \<Longrightarrow> fa_id fa \<noteq> ROOTFID \<Longrightarrow> \<not> below F (parent f0) (parent fa)\<close>
      have "below F (parent f) a" using \<open>(a, f) \<in> F\<close> \<open>fa_id f \<noteq> ROOTFID\<close> by (rule below.step [OF _ _ below.self])
      with step(3) have "below F (parent f) (parent g)" by (rule below_trans)
      then show ?thesis using IH [of g] step(1,2) f by simp
    qed
  qed
qed

end
