(* ===== verification/NsSpec.thy ===== *)
theory NsSpec
  imports NsTree
begin

text \<open>
  The invariant of the name space, what a state stands for (the object each name denotes and
  the type of each object), and how insertions, deletions and accounting change it.
\<close>

subsection \<open>How the views change\<close>

lemma in_FS: "(a, f) \<in> FS s \<longleftrightarrow> (\<exists>g. fattr_in s a g \<and> strip g = f)"
  by (auto simp: FS_def)

lemma in_DS: "(a, d) \<in> DS s \<longleftrightarrow> dentry_in s a d"
  by (simp add: DS_def)

lemma in_CS: "(a, c) \<in> CS s \<longleftrightarrow> chunk_in s a c"
  by (simp add: CS_def)

lemma added_views:
  assumes "added s a s'" "objs s a = Some m"
  shows "FS s' = (case m of MFattr f \<Rightarrow> insert (a, strip f) (FS s) | _ \<Rightarrow> FS s)"
    "DS s' = (case m of MDentry d \<Rightarrow> insert (a, d) (DS s) | _ \<Rightarrow> DS s)"
    "CS s' = (case m of MChunk c \<Rightarrow> insert (a, c) (CS s) | _ \<Rightarrow> CS s)"
    "objs s' = objs s" "store_inv s'"
proof -
  have l: "live s' b \<longleftrightarrow> live s b \<or> b = a" for b using assms(1) by (simp add: added_def)
  show o: "objs s' = objs s" "store_inv s'" using assms(1) by (auto simp: added_def)
  show "FS s' = (case m of MFattr f \<Rightarrow> insert (a, strip f) (FS s) | _ \<Rightarrow> FS s)"
    using assms(2) by (cases m) (auto simp: FS_def in_defs l o)
  show "DS s' = (case m of MDentry d \<Rightarrow> insert (a, d) (DS s) | _ \<Rightarrow> DS s)"
    using assms(2) by (cases m) (auto simp: DS_def in_defs l o)
  show "CS s' = (case m of MChunk c \<Rightarrow> insert (a, c) (CS s) | _ \<Rightarrow> CS s)"
    using assms(2) by (cases m) (auto simp: CS_def in_defs l o)
qed

lemma alloc_views:
  assumes "store_inv s" "alloc m s = (a, s')"
  shows "FS s' = FS s" "DS s' = DS s" "CS s' = CS s"
proof -
  have "objs s' b = Some x \<and> live s' b \<longleftrightarrow> objs s b = Some x \<and> live s b" for b x
    using alloc_inv [OF assms] by (cases "b = a") auto
  then show "FS s' = FS s" "DS s' = DS s" "CS s' = CS s" unfolding FS_def DS_def CS_def in_defs by blast+
qed

lemma removed_views:
  assumes "removed s a s'"
  shows "FS s' = {(b, f) \<in> FS s. b \<noteq> a}" "DS s' = {(b, d) \<in> DS s. b \<noteq> a}" "CS s' = {(b, c) \<in> CS s. b \<noteq> a}"
    "store_inv s'" "hgt (tree s') \<le> 16" "objs s' = (objs s)(a := None)"
proof -
  have l: "live s' b \<longleftrightarrow> live s b \<and> b \<noteq> a" for b using assms by (simp add: removed_def)
  show o: "store_inv s'" "hgt (tree s') \<le> 16" using assms by (simp_all add: removed_def)
  obtain t where "s' = s\<lparr>tree := t, objs := (objs s)(a := None)\<rparr>" using assms unfolding removed_def by blast
  then show o3: "objs s' = (objs s)(a := None)" by simp
  have f: "fattr_in s' b f \<longleftrightarrow> fattr_in s b f \<and> b \<noteq> a" for b f using l o3 by (auto simp: in_defs)
  have d: "dentry_in s' b f \<longleftrightarrow> dentry_in s b f \<and> b \<noteq> a" for b f using l o3 by (auto simp: in_defs)
  have c: "chunk_in s' b f \<longleftrightarrow> chunk_in s b f \<and> b \<noteq> a" for b f using l o3 by (auto simp: in_defs)
  show "FS s' = {(b, f) \<in> FS s. b \<noteq> a}" "DS s' = {(b, d) \<in> DS s. b \<noteq> a}" "CS s' = {(b, c) \<in> CS s. b \<noteq> a}"
    by (auto simp: in_FS in_DS in_CS f d c)
qed

text \<open>A state of the store with these attributes, entries and chunks.\<close>

definition stage :: "NS \<Rightarrow> (addr \<times> MetaFattr) set \<Rightarrow> (addr \<times> MetaDentry) set \<Rightarrow> (addr \<times> MetaChunkInfo) set \<Rightarrow> bool" where
  "stage s F D C \<longleftrightarrow> store_inv s \<and> FS s = F \<and> DS s = D \<and> CS s = C"

lemma stage_in:
  assumes "stage s F D C"
  shows "fattr_in s a f \<Longrightarrow> (a, strip f) \<in> F" "dentry_in s a d \<longleftrightarrow> (a, d) \<in> D" "chunk_in s a c \<longleftrightarrow> (a, c) \<in> C" "store_inv s"
  using assms by (auto simp: stage_def FS_def DS_def CS_def)

lemma stage_live:
  assumes st: "stage s F D C"
  shows "live s a \<longleftrightarrow> a \<in> fst ` F \<union> fst ` D \<union> fst ` C"
proof
  assume l: "live s a"
  then obtain m where m: "objs s a = Some m" using live_ent [OF l] ent_key [OF stage_in(4) [OF st]] by blast
  show "a \<in> fst ` F \<union> fst ` D \<union> fst ` C"
  proof (cases m)
    case (MFattr f)
    then have "(a, strip f) \<in> F" using stage_in(1) [OF st] l m by (simp add: in_defs)
    then show ?thesis by force
  next
    case (MDentry d)
    then have "(a, d) \<in> D" using stage_in(2) [OF st, of a d] l m by (simp add: in_defs)
    then show ?thesis by force
  next
    case (MChunk c)
    then have "(a, c) \<in> C" using stage_in(3) [OF st, of a c] l m by (simp add: in_defs)
    then show ?thesis by force
  qed
next
  assume "a \<in> fst ` F \<union> fst ` D \<union> fst ` C"
  then show "live s a" using st by (auto simp: stage_def in_FS in_DS in_CS in_defs)
qed

lemma stage_below:
  assumes "stage s F D C"
  shows "(a, f) \<in> F \<Longrightarrow> 0 < a \<and> a < nextAddr s" "(a, d) \<in> D \<Longrightarrow> 0 < a \<and> a < nextAddr s" "(a, c) \<in> C \<Longrightarrow> 0 < a \<and> a < nextAddr s"
  using assms live_addr [of s a] by (auto simp: stage_def FS_def DS_def CS_def in_defs)

lemma stage_same: "stage s F D C \<Longrightarrow> same_store s s' \<Longrightarrow> stage s' F D C"
  using same_store_in [of s s'] same_store_inv [of s s'] by (auto simp: stage_def FS_def DS_def CS_def)

lemma stage_similar: "stage s F D C \<Longrightarrow> similar s s' \<Longrightarrow> stage s' F D C"
  using similar_views [of s s'] similar_store_inv [of s s'] by (simp add: stage_def)

lemma stage_alloc: "stage s F D C \<Longrightarrow> stage (s\<lparr>objs := (objs s)(nextAddr s \<mapsto> m), nextAddr := Suc (nextAddr s)\<rparr>) F D C"
  using alloc_inv(1) [of s m "nextAddr s"] alloc_views [of s m "nextAddr s"] by (simp add: stage_def alloc_def Let_def)

lemma stage_fattr: "stage s F D C \<Longrightarrow> (a, f) \<in> F \<longleftrightarrow> (\<exists>g. fattr_at s a = Some g \<and> strip g = f \<and> live s a)"
  by (auto simp: stage_def FS_def in_defs fattr_at_def split: option.splits Meta.splits)

lemma stage_dentry: "stage s F D C \<Longrightarrow> (a, d) \<in> D \<longleftrightarrow> dentry_at s a = Some d \<and> live s a"
  by (auto simp: stage_def DS_def in_defs dentry_at_def split: option.splits Meta.splits)

lemma stage_chunk_fid: "stage s F D C \<Longrightarrow> (c_fattr c, f) \<in> F \<Longrightarrow> chunk_fid s c = Some (fa_id f)"
  by (auto simp: stage_fattr chunk_fid_def)

text \<open>A new attribute or entry with a fresh identifier or name can be inserted.\<close>

lemma stage_insert_fattr:
  assumes st: "stage s F D C" and o: "objs s a = Some (MFattr f)" "a \<notin> fst ` F \<union> fst ` D \<union> fst ` C"
    and new: "\<And>b g. (b, g) \<in> F \<Longrightarrow> fa_id g \<noteq> fa_id f"
  shows "\<exists>t. insert_meta a s = Some (s\<lparr>tree := t\<rparr>) \<and> stage (s\<lparr>tree := t\<rparr>) (insert (a, strip f) F) D C"
proof -
  have "fa_id g \<noteq> fa_id f" if "fattr_in s b g" for b g using new [OF stage_in(1) [OF st that]] by simp
  then have "new_ok s (MFattr f)" by (auto simp: new_ok_def meta_ok_def)
  moreover have "\<not> live s a" using o(2) stage_live [OF st] by simp
  ultimately obtain s' where s': "insert_meta a s = Some s'" "added s a s'"
    using insert_meta_added [of s, OF _ o(1)] st by (auto simp: stage_def)
  then obtain t where "s' = s\<lparr>tree := t\<rparr>" by (auto simp: added_def)
  then show ?thesis using s' added_views [OF s'(2) o(1)] st by (auto simp: stage_def)
qed

lemma stage_insert_dentry:
  assumes st: "stage s F D C" and o: "objs s a = Some (MDentry d)" "a \<notin> fst ` F \<union> fst ` D \<union> fst ` C" "d_hash d = nameHash (d_name d)"
    and new: "\<And>b e. (b, e) \<in> D \<Longrightarrow> \<not> (d_dir e = d_dir d \<and> d_name e = d_name d)"
    and ch: "\<And>b c. (b, c) \<in> C \<Longrightarrow> \<exists>f. (c_fattr c, f) \<in> F \<and> fa_id f \<noteq> d_dir d"
  shows "\<exists>t. insert_meta a s = Some (s\<lparr>tree := t\<rparr>) \<and> stage (s\<lparr>tree := t\<rparr>) F (insert (a, d) D) C"
proof -
  have "chunk_fid s c \<noteq> Some (d_dir d)" if "chunk_in s b c" for b c
    using ch [of b c] that stage_in(3) [OF st, of b c] stage_chunk_fid [OF st, of c] by auto
  moreover have "\<not> (d_dir e = d_dir d \<and> d_name e = d_name d)" if "dentry_in s b e" for b e
    using new that stage_in(2) [OF st] by blast
  ultimately have "new_ok s (MDentry d)" using o(3) by (simp add: new_ok_def meta_ok_def)
  moreover have "\<not> live s a" using o(2) stage_live [OF st] by simp
  ultimately obtain s' where s': "insert_meta a s = Some s'" "added s a s'"
    using insert_meta_added [of s, OF _ o(1)] st by (auto simp: stage_def)
  then obtain t where "s' = s\<lparr>tree := t\<rparr>" by (auto simp: added_def)
  then show ?thesis using s' added_views [OF s'(2) o(1)] st by (auto simp: stage_def)
qed

text \<open>Deletion.\<close>

lemma stage_del_dentry:
  assumes st: "stage s F D C" "hgt (tree s) \<le> 16" and d: "(a, d) \<in> D"
    and e: "d_dir e = d_dir d" "d_name e = d_name d" "d_hash e = nameHash (d_name e)"
  shows "\<exists>t. let s' = s\<lparr>tree := t, objs := (objs s)(a := None)\<rparr> in
    del_meta (MDentry e) s = Some (0, s') \<and> hgt t \<le> 16 \<and> stage s' F (D - {(a, d)}) C"
proof -
  have d': "dentry_in s a d" and inv: "store_inv s" using d st(1) by (auto simp: stage_def in_DS)
  obtain s' where s': "del_meta (MDentry e) s = Some (0, s')" "removed s a s'"
    using del_dentry_removed [OF inv st(2) d' e] by blast
  obtain t where t: "s' = s\<lparr>tree := t, objs := (objs s)(a := None)\<rparr>" using s'(2) by (auto simp: removed_def)
  have "F = {(b, f) \<in> F. b \<noteq> a}" "C = {(b, f) \<in> C. b \<noteq> a}" "D - {(a, d)} = {(b, f) \<in> D. b \<noteq> a}"
    using st(1) d' by (auto simp: stage_def FS_def CS_def DS_def in_defs)
  then have "stage s' F (D - {(a, d)}) C" using removed_views [OF s'(2)] st(1) by (simp add: stage_def)
  then show ?thesis using s'(1) t removed_views(5) [OF s'(2)] by (intro exI [of _ t]) (simp add: Let_def)
qed

lemma stage_del_fattr:
  assumes st: "stage s F D C" "hgt (tree s) \<le> 16" and f: "(a, strip f) \<in> F" "fattr_at s a = Some f" and ch: "\<And>b c. (b, c) \<in> C \<Longrightarrow> c_fattr c \<noteq> a"
  shows "\<exists>t. let s' = s\<lparr>tree := t, objs := (objs s)(a := None)\<rparr> in
    del_meta (MFattr f) s = Some (0, s') \<and> hgt t \<le> 16 \<and> stage s' (F - {(a, strip f)}) D C"
proof -
  have f': "fattr_in s a f" and inv: "store_inv s" using f st(1) fattr_at_in [of s a] by (auto simp: stage_def in_FS)
  have "\<And>b c. chunk_in s b c \<Longrightarrow> c_fattr c \<noteq> a" using ch stage_in(3) [OF st(1)] by blast
  then obtain s' where s': "del_meta (MFattr f) s = Some (0, s')" "removed s a s'"
    using del_fattr_removed [OF inv st(2) f'] by blast
  obtain t where t: "s' = s\<lparr>tree := t, objs := (objs s)(a := None)\<rparr>" using s'(2) by (auto simp: removed_def)
  have "D = {(b, f) \<in> D. b \<noteq> a}" "C = {(b, f) \<in> C. b \<noteq> a}" "F - {(a, strip f)} = {(b, f) \<in> F. b \<noteq> a}"
    using st(1) f' by (auto simp: stage_def FS_def CS_def DS_def in_defs)
  then have "stage s' (F - {(a, strip f)}) D C" using removed_views [OF s'(2)] st(1) by (simp add: stage_def)
  then show ?thesis using s'(1) t removed_views(5) [OF s'(2)] by (intro exI [of _ t]) (simp add: Let_def)
qed

subsection \<open>The invariant of the name space\<close>

definition nonneg :: "MetaFattr \<Rightarrow> bool" where
  "nonneg f \<longleftrightarrow> fa_type f = KFS_DIR \<longrightarrow> 0 \<le> filesize f \<and> 0 \<le> subcount1 f \<and> 0 \<le> subcount2 f"

definition all_nonneg :: "NS \<Rightarrow> bool" where
  "all_nonneg s \<longleftrightarrow> (\<forall>a f. fattr_at s a = Some f \<longrightarrow> nonneg f)"

text \<open>
  Besides the directory tree: names are legal, the root directory is entered, identifiers were
  generated, directories have non-negative counters.
\<close>

definition ns_sets :: "(addr \<times> MetaFattr) set \<Rightarrow> (addr \<times> MetaDentry) set \<Rightarrow> (addr \<times> MetaChunkInfo) set \<Rightarrow> u64 \<Rightarrow> bool" where
  "ns_sets F D C i \<longleftrightarrow> fs_ok F D C \<and> (\<forall>x d. (x, d) \<in> D \<longrightarrow> proper d \<longrightarrow> legalname (d_name d)) \<and>
     (\<exists>x d. (x, d) \<in> D \<and> d_dir d = ROOTFID \<and> d_name d = ''/'') \<and> (\<forall>a f. (a, f) \<in> F \<longrightarrow> fa_id f \<le> i)"

definition ns_inv :: "NS \<Rightarrow> bool" where
  "ns_inv s \<longleftrightarrow> store_inv s \<and> ns_sets (FS s) (DS s) (CS s) (fileID s) \<and> all_nonneg s"

lemma ns_inv_stage: "ns_inv s \<Longrightarrow> stage s (FS s) (DS s) (CS s)"
  by (simp add: ns_inv_def stage_def)

lemma ns_inv_fs: "ns_inv s \<Longrightarrow> fs_ok (FS s) (DS s) (CS s)"
  by (simp add: ns_inv_def ns_sets_def)

lemma ns_invI: "stage s F D C \<Longrightarrow> ns_sets F D C (fileID s) \<Longrightarrow> all_nonneg s \<Longrightarrow> ns_inv s"
  by (auto simp: ns_inv_def stage_def)

subsection \<open>What a name space stands for\<close>

text \<open>The object that a name in a directory denotes, and the type of an object.\<close>

definition names :: "NS \<Rightarrow> fid_t \<times> string \<Rightarrow> fid_t option" where
  "names s k = (case getDentry s (fst k) (snd k) of None \<Rightarrow> None | Some a \<Rightarrow> map_option d_fid (dentry_at s a))"

definition kind :: "NS \<Rightarrow> fid_t \<Rightarrow> FileType option" where
  "kind s i = map_option fa_type (fattr_at s (getFattr s i))"

lemma null_at: "store_inv s \<Longrightarrow> fattr_at s 0 = None \<and> dentry_at s 0 = None"
  using store_addr [of s 0] by (cases "objs s 0") (auto simp: fattr_at_def dentry_at_def)

lemma names_iff:
  assumes "stage s F D C"
  shows "names s k = Some i \<longleftrightarrow> (\<exists>x d. (x, d) \<in> D \<and> d_dir d = fst k \<and> d_name d = snd k \<and> d_fid d = i)"
proof
  assume n: "names s k = Some i"
  obtain r where r: "getDentry s (fst k) (snd k) = Some r"
    "r = 0 \<and> (\<forall>a d. dentry_in s a d \<longrightarrow> \<not> (d_dir d = fst k \<and> d_name d = snd k)) \<or>
     (\<exists>d. dentry_in s r d \<and> d_dir d = fst k \<and> d_name d = snd k)"
    using getDentry_spec [OF stage_in(4) [OF assms]] by metis
  have "r \<noteq> 0"
  proof
    assume "r = 0"
    then show False using n r(1) null_at [OF stage_in(4) [OF assms]] by (simp add: names_def)
  qed
  then obtain d where d: "dentry_in s r d" "d_dir d = fst k" "d_name d = snd k" using r(2) by blast
  moreover have "d_fid d = i" using n r(1) dentry_at_in [OF d(1)] by (simp add: names_def)
  ultimately show "\<exists>x d. (x, d) \<in> D \<and> d_dir d = fst k \<and> d_name d = snd k \<and> d_fid d = i" using stage_in(2) [OF assms] by blast
next
  assume "\<exists>x d. (x, d) \<in> D \<and> d_dir d = fst k \<and> d_name d = snd k \<and> d_fid d = i"
  then obtain x d where d: "dentry_in s x d" "d_dir d = fst k" "d_name d = snd k" "d_fid d = i" using stage_in(2) [OF assms] by blast
  then show "names s k = Some i" using getDentry_in [OF stage_in(4) [OF assms] d(1)] dentry_at_in [OF d(1)] by (simp add: names_def)
qed

lemma kind_iff:
  assumes "stage s F D C"
  shows "kind s i = Some t \<longleftrightarrow> (\<exists>a f. (a, f) \<in> F \<and> fa_id f = i \<and> fa_type f = t)"
proof
  assume k: "kind s i = Some t"
  have "getFattr s i \<noteq> 0"
  proof
    assume "getFattr s i = 0"
    then show False using k null_at [OF stage_in(4) [OF assms]] by (simp add: kind_def)
  qed
  then obtain f where f: "fattr_in s (getFattr s i) f" "fa_id f = i" using getFattr_iff [OF stage_in(4) [OF assms]] by blast
  then show "\<exists>a f. (a, f) \<in> F \<and> fa_id f = i \<and> fa_type f = t"
    using stage_in(1) [OF assms f(1)] k fattr_at_in [OF f(1)] by (intro exI [of _ "getFattr s i"] exI [of _ "strip f"]) (simp add: kind_def)
next
  assume "\<exists>a f. (a, f) \<in> F \<and> fa_id f = i \<and> fa_type f = t"
  then obtain a f where f: "fattr_in s a f" "fa_id f = i" "fa_type f = t" using assms by (auto simp: stage_def in_FS)
  then show "kind s i = Some t" using getFattr_in [OF stage_in(4) [OF assms] f(1)] fattr_at_in [OF f(1)] by (simp add: kind_def)
qed

lemma map_eqI: "(\<And>k v. m k = Some v \<longleftrightarrow> m' k = Some v) \<Longrightarrow> m = m'"
  by (metis ext option.collapse option.distinct(1))

lemma names_insert:
  assumes "stage s F D C" "stage s' F' (insert (x, d) D) C'"
  shows "names s' = (names s)((d_dir d, d_name d) \<mapsto> d_fid d)"
proof (rule map_eqI)
  fix k i
  have *: "names s' (d_dir d, d_name d) = Some (d_fid d)" using names_iff [OF assms(2)] by auto
  show "names s' k = Some i \<longleftrightarrow> ((names s)((d_dir d, d_name d) \<mapsto> d_fid d)) k = Some i"
  proof (cases "k = (d_dir d, d_name d)")
    case True
    then show ?thesis using * by simp
  next
    case False
    then show ?thesis using names_iff [OF assms(1), of k i] names_iff [OF assms(2), of k i] by (cases k) auto
  qed
qed

lemma names_delete:
  assumes "stage s F D C" "stage s' F' (D - {(x, d)}) C'" "(x, d) \<in> D" "names_uniq D"
  shows "names s' = (names s)((d_dir d, d_name d) := None)"
proof (rule map_eqI)
  fix k i
  show "names s' k = Some i \<longleftrightarrow> ((names s)((d_dir d, d_name d) := None)) k = Some i"
  proof (cases "k = (d_dir d, d_name d)")
    case True
    have "names s' k \<noteq> Some i"
    proof
      assume "names s' k = Some i"
      then obtain y e where e: "(y, e) \<in> D - {(x, d)}" "d_dir e = d_dir d" "d_name e = d_name d"
        using names_iff [OF assms(2), of k i] True by auto
      then show False using names_uniqD [OF assms(4,3), of y e] by auto
    qed
    then show ?thesis using True by simp
  next
    case False
    then show ?thesis using names_iff [OF assms(1), of k i] names_iff [OF assms(2), of k i] by (cases k) auto
  qed
qed

lemma names_same: "stage s F D C \<Longrightarrow> stage s' F' D C' \<Longrightarrow> names s' = names s"
  using names_iff [of s F D C] names_iff [of s' F' D C'] by (intro map_eqI) simp

lemma kind_insert:
  assumes "stage s F D C" "stage s' (insert (a, f) F) D' C'"
  shows "kind s' = (kind s)(fa_id f \<mapsto> fa_type f)"
proof (rule map_eqI)
  fix i t
  have *: "kind s' (fa_id f) = Some (fa_type f)" using kind_iff [OF assms(2)] by auto
  show "kind s' i = Some t \<longleftrightarrow> ((kind s)(fa_id f \<mapsto> fa_type f)) i = Some t"
    using * kind_iff [OF assms(1), of i t] kind_iff [OF assms(2), of i t] by (cases "i = fa_id f") auto
qed

lemma kind_delete:
  assumes "stage s F D C" "stage s' (F - {(a, f)}) D' C'" "(a, f) \<in> F" "fs_refs F D0 C0"
  shows "kind s' = (kind s)(fa_id f := None)"
proof (rule map_eqI)
  fix i t
  show "kind s' i = Some t \<longleftrightarrow> ((kind s)(fa_id f := None)) i = Some t"
  proof (cases "i = fa_id f")
    case True
    have "kind s' i \<noteq> Some t"
    proof
      assume "kind s' i = Some t"
      then obtain b g where g: "(b, g) \<in> F - {(a, f)}" "fa_id g = fa_id f" using kind_iff [OF assms(2), of i t] True by auto
      then show False using fs_ids [OF assms(4,3), of b g] by auto
    qed
    then show ?thesis using True by simp
  next
    case False
    then show ?thesis using kind_iff [OF assms(1), of i t] kind_iff [OF assms(2), of i t] by auto
  qed
qed

lemma kind_same: "stage s F D C \<Longrightarrow> stage s' F D' C' \<Longrightarrow> kind s' = kind s"
  using kind_iff [of s F D C] kind_iff [of s' F D' C'] by (intro map_eqI) simp

lemma kind_mv: "stage s F D C \<Longrightarrow> stage s' (mv a q F) D' C' \<Longrightarrow> kind s' = kind s"
proof (rule map_eqI)
  fix i t assume a: "stage s F D C" "stage s' (mv a q F) D' C'"
  show "kind s' i = Some t \<longleftrightarrow> kind s i = Some t"
    unfolding kind_iff [OF a(1)] kind_iff [OF a(2)] using mv_keeps [of _ _ a q F] mv_back [of _ _ F a q] by metis
qed

subsection \<open>Accounting\<close>

text \<open>Only counters of attributes differ, and changed directories have non-negative ones.\<close>

definition counted :: "NS \<Rightarrow> NS \<Rightarrow> bool" where
  "counted s s' \<longleftrightarrow> similar s s' \<and> (\<exists>m. s' = s\<lparr>objs := m\<rparr>) \<and>
     (\<forall>b f. fattr_at s' b = Some f \<longrightarrow> fattr_at s b = Some f \<or> nonneg f)"

lemma counted_refl [simp]: "counted s s"
  by (auto simp: counted_def intro: exI [of _ "objs s"])

lemma counted_trans:
  assumes "counted s s'" "counted s' s''"
  shows "counted s s''"
proof -
  obtain m m' where "s' = s\<lparr>objs := m\<rparr>" "s'' = s'\<lparr>objs := m'\<rparr>" using assms unfolding counted_def by blast
  then have "s'' = s\<lparr>objs := m'\<rparr>" by simp
  moreover have "similar s s''" using assms similar_trans unfolding counted_def by blast
  moreover have "\<forall>b f. fattr_at s'' b = Some f \<longrightarrow> fattr_at s b = Some f \<or> nonneg f" using assms unfolding counted_def by blast
  ultimately show ?thesis unfolding counted_def by blast
qed

lemma counted_upd:
  assumes "fattr_at s a = Some f" "strip g = strip f" "nonneg g"
  shows "counted s (s\<lparr>objs := (objs s)(a \<mapsto> MFattr g)\<rparr>)"
  using assms by (auto simp: counted_def similar_def fattr_at_def split: option.splits Meta.splits)

lemma updateCounts_loop_counted: "updateCounts_loop a n f d s = Some s' \<Longrightarrow> counted s s'"
proof (rule updateCounts_loop.raw_induct [where P = "\<lambda>a n f d s s'. counted s s'"])
  fix loop a n f d s s'
  assume IH: "\<And>a n f d s s'. loop a n f d s = Some s' \<Longrightarrow> counted s s'"
    and "fattr_at s a \<bind> (\<lambda>fa. if parent fa = 0 then if fa_id fa \<noteq> ROOTFID then None else Some s
      else fattr_at s (parent fa) \<bind> (\<lambda>p.
        let p' = p\<lparr>filesize := filesize p + n, subcount1 := subcount1 p + f, subcount2 := subcount2 p + d\<rparr>
        in if fa_type p \<noteq> KFS_DIR \<or> filesize p' < 0 \<or> subcount1 p' < 0 \<or> subcount2 p' < 0 then None
           else loop (parent fa) n f d (s\<lparr>objs := (objs s)(parent fa \<mapsto> MFattr p')\<rparr>))) = Some s'"
  then have "s' = s \<or> (\<exists>b p. fattr_at s b = Some p \<and> 0 \<le> filesize p + n \<and> 0 \<le> subcount1 p + f \<and> 0 \<le> subcount2 p + d \<and>
      loop b n f d (s\<lparr>objs := (objs s)(b \<mapsto> MFattr (bump n f d p))\<rparr>) = Some s')"
    unfolding bump_def by (force simp: Let_def not_less split: bind_splits if_splits)
  then show "counted s s'"
  proof (elim disjE exE conjE)
    fix b p assume p: "fattr_at s b = Some p" "0 \<le> filesize p + n" "0 \<le> subcount1 p + f" "0 \<le> subcount2 p + d"
      and l: "loop b n f d (s\<lparr>objs := (objs s)(b \<mapsto> MFattr (bump n f d p))\<rparr>) = Some s'"
    have "counted s (s\<lparr>objs := (objs s)(b \<mapsto> MFattr (bump n f d p))\<rparr>)"
      using p(2-4) by (intro counted_upd [OF p(1)]) (simp_all add: nonneg_def bump_def)
    then show ?thesis using IH [OF l] by (rule counted_trans)
  qed simp
qed simp

lemma updateCounts_counted: "updateCounts a n f d s = Some s' \<Longrightarrow> counted s s'"
  using updateCounts_loop_counted by (auto simp: updateCounts_def split: if_splits)

lemma setFileSize_counted:
  assumes "setFileSize a sz nf nd s = Some s'" "\<And>f. fattr_at s a = Some f \<Longrightarrow> nonneg f"
  shows "counted s s'"
proof -
  obtain fa s1 where s1: "fattr_at s a = Some fa" "updateCounts a (sz - getFileSize fa) nf nd s = Some s1"
    "upd_fattr a (filesize_update (\<lambda>_. sz)) s1 = Some s'" "0 \<le> sz"
    using assms(1) by (auto simp: setFileSize_def split: bind_splits if_splits)
  then have c: "counted s s1" using updateCounts_counted by blast
  obtain f1 where f1: "fattr_at s1 a = Some f1" "s' = s1\<lparr>objs := (objs s1)(a \<mapsto> MFattr (f1\<lparr>filesize := sz\<rparr>))\<rparr>"
    using s1(3) by (auto simp: upd_fattr_def split: bind_splits)
  have "nonneg f1" using c f1(1) assms(2) by (auto simp: counted_def)
  then have "counted s1 s'" unfolding f1(2) using s1(4) by (intro counted_upd [OF f1(1)]) (simp_all add: nonneg_def)
  then show ?thesis using c counted_trans by blast
qed

lemma upd_fattr_counted:
  assumes "upd_fattr a g s = Some s'" "\<And>f. fattr_at s a = Some f \<Longrightarrow> strip (g f) = strip f \<and> nonneg (g f)"
  shows "counted s s'"
  using assms counted_upd by (fastforce simp: upd_fattr_def split: bind_splits)

lemma counted_stage: "counted s s' \<Longrightarrow> stage s F D C \<Longrightarrow> stage s' F D C"
  using stage_similar by (simp add: counted_def)

lemma counted_nonneg: "counted s s' \<Longrightarrow> all_nonneg s \<Longrightarrow> all_nonneg s'"
  unfolding counted_def all_nonneg_def by blast

subsection \<open>Progress of the accounting\<close>

lemma fs_anc:
  assumes st: "stage s F D C" "fs_refs F D C" "fs_tree F" and a: "(a, f) \<in> F"
  shows "\<exists>ps. anc s a ps \<and> (\<forall>p\<in>set ps. \<exists>g. (p, g) \<in> F \<and> fa_type g = KFS_DIR)"
proof -
  have "up F a" by (rule fs_up [OF st(3) a])
  then show ?thesis
    using a
  proof (induction arbitrary: f rule: up.induct)
    case (root a f0)
    obtain b g where g: "(b, g) \<in> F" "fa_id g = ROOTFID" "parent g = 0" using fs_root [OF st(3)] by blast
    have "a = b" "f0 = g" using fs_ids [OF st(2) root(1) g(1)] root(2) g(2) by auto
    moreover obtain f' where "fattr_at s a = Some f'" "strip f' = f0" using stage_fattr [OF st(1)] root(1) by blast
    ultimately have "anc s a []" using g by auto
    then show ?case by (intro exI [of _ "[]"]) simp
  next
    case (step a f0)
    obtain g where g: "parent f0 \<noteq> 0" "(parent f0, g) \<in> F" "fa_type g = KFS_DIR" using fs_parent [OF st(3) step(1,2)] by blast
    obtain ps where ps: "anc s (parent f0) ps" "\<forall>p\<in>set ps. \<exists>g. (p, g) \<in> F \<and> fa_type g = KFS_DIR" using step.IH [OF g(2)] by blast
    obtain f' where "fattr_at s a = Some f'" "strip f' = f0" using stage_fattr [OF st(1)] step(1) by blast
    then have "anc s a (parent f0 # ps)" using g(1) ps(1) by auto
    then show ?case using ps(2) g by (intro exI [of _ "parent f0 # ps"]) auto
  qed
qed

lemma acct_ok_plus:
  assumes st: "stage s F D C" "fs_refs F D C" "fs_tree F" and a: "(a, f) \<in> F" and nn: "all_nonneg s"
    and "0 \<le> n" "0 \<le> nf" "0 \<le> nd"
  shows "acct_ok s a n nf nd"
proof -
  obtain ps where ps: "anc s a ps" "\<forall>p\<in>set ps. \<exists>g. (p, g) \<in> F \<and> fa_type g = KFS_DIR" using fs_anc [OF st a] by blast
  have "can_bump s n nf nd p" if p: "p \<in> set ps" for p
  proof -
    obtain g where "fattr_at s p = Some g" "fa_type g = KFS_DIR" using ps(2) p stage_fattr [OF st(1)] by fastforce
    then show ?thesis using nn assms(6-8) by (auto simp: can_bump_def nonneg_def all_nonneg_def)
  qed
  then show ?thesis using ps(1) stage_below(1) [OF st(1) a] by (auto simp: acct_ok_def)
qed

subsection \<open>Adding an entry or an object\<close>

definition free :: "(addr \<times> MetaDentry) set \<Rightarrow> fid_t \<Rightarrow> string \<Rightarrow> bool" where
  "free D dir n \<longleftrightarrow> (\<forall>x d. (x, d) \<in> D \<longrightarrow> \<not> (d_dir d = dir \<and> d_name d = n))"

definition no_chunks :: "(addr \<times> MetaFattr) set \<Rightarrow> (addr \<times> MetaChunkInfo) set \<Rightarrow> fid_t \<Rightarrow> bool" where
  "no_chunks F C i \<longleftrightarrow> (\<forall>x c. (x, c) \<in> C \<longrightarrow> (\<exists>f. (c_fattr c, f) \<in> F \<and> fa_id f \<noteq> i))"

lemma stage_alloc_dentry:
  assumes st: "stage s F D C" and new: "free D dir n" and ch: "no_chunks F C dir"
  shows "\<exists>t. let d = new_MetaDentry dir n i fa; s1 = s\<lparr>objs := (objs s)(nextAddr s \<mapsto> MDentry d), nextAddr := Suc (nextAddr s)\<rparr> in
    insert_meta (nextAddr s) s1 = Some (s1\<lparr>tree := t\<rparr>) \<and> stage (s1\<lparr>tree := t\<rparr>) F (insert (nextAddr s, d) D) C"
proof -
  let ?d = "new_MetaDentry dir n i fa"
  let ?s = "s\<lparr>objs := (objs s)(nextAddr s \<mapsto> MDentry ?d), nextAddr := Suc (nextAddr s)\<rparr>"
  have st1: "stage ?s F D C" by (rule stage_alloc [OF st])
  have fresh: "nextAddr s \<notin> fst ` F \<union> fst ` D \<union> fst ` C" using stage_below [OF st] by force
  show ?thesis
    using stage_insert_dentry [OF st1 _ fresh, of ?d] new ch by (simp add: new_MetaDentry_def Let_def free_def no_chunks_def)
qed

lemma legal_dots [simp]: "legalname kThisDir" "legalname kParentDir" "\<not> legalname ''/''" "\<not> legalname []"
  by (simp_all add: legalname_def kThisDir_def kParentDir_def MAX_FILE_NAME_LENGTH_def newline_def)

lemma link_dots:
  assumes st: "stage s F D C" and n: "n = kThisDir \<or> n = kParentDir" and new: "free D dir n" and ch: "no_chunks F C dir"
  shows "\<exists>t. let d = new_MetaDentry dir n i par; s1 = s\<lparr>objs := (objs s)(nextAddr s \<mapsto> MDentry d), nextAddr := Suc (nextAddr s), tree := t\<rparr> in
    link dir n ty i nrep sp u g m par s = Some (0, 0, s1) \<and> stage s1 F (insert (nextAddr s, d) D) C"
proof -
  have "link dir n ty i nrep sp u g m par s =
      (let (dentry, s) = alloc (MDentry (new_MetaDentry dir n i par)) s in do { s \<leftarrow> insert_meta dentry s; Some (0, 0, s) })"
    using n by (auto simp: link_def)
  then show ?thesis using stage_alloc_dentry [OF st new ch, of i par] by (auto simp: alloc_def Let_def)
qed

text \<open>The file attributes that are in use, by identifier.\<close>

lemma ns_fattr:
  assumes "ns_inv s" "kind s i = Some t"
  obtains f where "fattr_in s (getFattr s i) f" "fa_id f = i" "fa_type f = t" "getFattr s i \<noteq> 0" "nonneg f"
proof -
  have st: "stage s (FS s) (DS s) (CS s)" by (rule ns_inv_stage [OF assms(1)])
  have "getFattr s i \<noteq> 0"
  proof
    assume "getFattr s i = 0"
    then show False using assms(2) null_at [OF stage_in(4) [OF st]] by (simp add: kind_def)
  qed
  then obtain f where f: "fattr_in s (getFattr s i) f" "fa_id f = i" using getFattr_iff [OF stage_in(4) [OF st]] by blast
  moreover have "fa_type f = t" using assms(2) fattr_at_in [OF f(1)] by (simp add: kind_def)
  moreover have "nonneg f" using assms(1) fattr_at_in [OF f(1)] by (simp add: ns_inv_def all_nonneg_def)
  ultimately show thesis using that \<open>getFattr s i \<noteq> 0\<close> by blast
qed

lemma dir_no_chunks:
  assumes "fs_refs F D C" "(a, f) \<in> F" "fa_type f = KFS_DIR"
  shows "no_chunks F C (fa_id f)"
  unfolding no_chunks_def
proof (intro allI impI)
  fix x c assume "(x, c) \<in> C"
  then obtain g where g: "(c_fattr c, g) \<in> F" "fa_type g = KFS_FILE" using fs_chunk [OF assms(1)] by blast
  then have "g \<noteq> f" using assms(3) by auto
  then show "\<exists>f'. (c_fattr c, f') \<in> F \<and> fa_id f' \<noteq> fa_id f" using fs_ids [OF assms(1) g(1) assms(2)] g(1) by auto
qed

lemma names_none:
  assumes "stage s F D C"
  shows "names s (dir, n) = None \<longleftrightarrow> free D dir n" "free D dir n \<Longrightarrow> getDentry s dir n = Some 0"
proof -
  show "names s (dir, n) = None \<longleftrightarrow> free D dir n"
    using names_iff [OF assms, of "(dir, n)"] unfolding free_def by (cases "names s (dir, n)") fastforce+
  assume f: "free D dir n"
  show "getDentry s dir n = Some 0"
  proof (rule getDentry_out [OF stage_in(4) [OF assms]])
    show "\<not> (d_dir d = dir \<and> d_name d = n)" if "dentry_in s a d" for a d
      using f that stage_in(2) [OF assms, of a d] by (simp add: free_def)
  qed
qed

text \<open>In a directory the names \<open>.\<close> and \<open>..\<close> are taken; a legal free name is a proper one.\<close>

lemma free_proper:
  assumes "fs_dots F D" "(a, f) \<in> F" "fa_type f = KFS_DIR" and "legalname n" "free D (fa_id f) n"
  shows "n \<noteq> kThisDir" "n \<noteq> kParentDir" "n \<noteq> ''/''"
  using fs_dots_in [OF assms(1-3)] assms(4,5) by (auto simp: free_def)

lemma ns_sets_add:
  assumes "ns_sets F D C i" "fs_ok F' D' C'" "D \<subseteq> D'" "\<And>x d. (x, d) \<in> D' - D \<Longrightarrow> proper d \<Longrightarrow> legalname (d_name d)"
    "\<And>a f. (a, f) \<in> F' \<Longrightarrow> fa_id f \<le> j"
  shows "ns_sets F' D' C' j"
  using assms unfolding ns_sets_def by blast

end
