(* ===== verification/NsCreate.thy ===== *)
theory NsCreate
  imports NsSpec
begin

text \<open>
  Creating directories and files: both keep the invariant of the name space and enter exactly
  the new names.
\<close>

subsection \<open>Creating a directory\<close>

lemma genid_fresh:
  assumes "i \<noteq> (- 1 :: u64)"
  shows "i < i + 1" "i + 1 \<noteq> 0" "j \<le> i \<Longrightarrow> j \<le> i + 1" "j \<le> i \<Longrightarrow> j \<noteq> i + 1"
proof -
  have "1 + i \<noteq> 0" using assms by (metis add.commute add_eq_0_iff2 add_minus_cancel minus_add_cancel add.right_neutral)
  then have "unat (i + 1) = Suc (unat i)" using unatSuc [of i] by (simp add: add.commute)
  then show 1: "i < i + 1" by (simp add: word_less_nat_alt)
  show "i + 1 \<noteq> 0" using 1 by auto
  show "j \<le> i + 1" "j \<noteq> i + 1" if "j \<le> i" using 1 that by auto
qed

text \<open>The part of \<open>mkdir\<close> after the checks.\<close>

definition mkdir_tail :: "fid_t \<Rightarrow> string \<Rightarrow> kfsUid_t \<Rightarrow> kfsGid_t \<Rightarrow> kfsMode_t \<Rightarrow> addr \<Rightarrow> MetaFattr option \<Rightarrow> fid_t \<Rightarrow> NS \<Rightarrow>
    (int \<times> fid_t \<times> addr \<times> NS) option" where
  "mkdir_tail dir dname u g m par pf myID s =
     (let (fattr, s) = alloc (MFattr ((new_MetaFattr (clock s) KFS_DIR myID 1 u g m)\<lparr>parent := par\<rparr>)) s;
          (dentry, s) = alloc (MDentry (new_MetaDentry dir dname myID fattr)) s
      in do { s \<leftarrow> insert_meta dentry s;
              s \<leftarrow> insert_meta fattr s;
              (_, _, s) \<leftarrow> link myID kThisDir KFS_DIR myID 1 no_stripes kKfsUserNone kKfsGroupNone 0 fattr s;
              (_, _, s) \<leftarrow> link myID kParentDir KFS_DIR dir 1 no_stripes kKfsUserNone kKfsGroupNone 0 par s;
              s \<leftarrow> updateCounts fattr 0 0 1 s;
              s \<leftarrow> (case pf of
                      None \<Rightarrow> Some s
                    | Some p \<Rightarrow> upd_fattr fattr (\<lambda>f. f\<lparr>minSTier := minSTier p, maxSTier := maxSTier p\<rparr>) s);
              Some (0, myID, fattr, UpdateNumDirs 1 s) })"

lemma mkdir_eq:
  assumes "legalname dname" "fattr_in s (getFattr s dir) p" "getFattr s dir \<noteq> 0" "fa_type p = KFS_DIR" "getDentry s dir dname = Some 0"
    "CanWrite (members s) p euser egroup"
  shows "mkdir dir dname u g m euser egroup 0 s =
    mkdir_tail dir dname u g m (getFattr s dir) (Some p) (fileID s + 1) (s\<lparr>fileID := fileID s + 1\<rparr>)"
  using assms(1,3-6) fattr_at_in [OF assms(2)] legal_dots(3)
  by (auto simp: mkdir_def mkdir_tail_def genid_def Let_def)

lemma new_dentry_simps [simp]:
  "d_dir (new_MetaDentry dir n i a) = dir" "d_name (new_MetaDentry dir n i a) = n" "d_fid (new_MetaDentry dir n i a) = i"
  "d_fattr (new_MetaDentry dir n i a) = a" "d_hash (new_MetaDentry dir n i a) = nameHash n"
  by (simp_all add: new_MetaDentry_def)

lemma new_fattr_simps [simp]:
  "fa_id (new_MetaFattr now t i n u g m) = i" "fa_type (new_MetaFattr now t i n u g m) = t" "nonneg (new_MetaFattr now t i n u g m)"
  "parent (new_MetaFattr now t i n u g m) = 0"
  by (simp_all add: new_MetaFattr_def nonneg_def)

lemma nonneg_parent [simp]: "nonneg (f\<lparr>parent := q\<rparr>) = nonneg f" "nonneg (f\<lparr>minSTier := x, maxSTier := y\<rparr>) = nonneg f"
  by (simp_all add: nonneg_def)

lemma strip_tiers [simp]: "strip (f\<lparr>minSTier := x, maxSTier := y\<rparr>) = strip f"
  by (simp add: strip_def)

text \<open>The sets after creating directory \<open>i\<close> with attributes at \<open>a\<close> in directory \<open>dir\<close>.\<close>

definition mkdir_entries :: "fid_t \<Rightarrow> string \<Rightarrow> addr \<Rightarrow> fid_t \<Rightarrow> addr \<Rightarrow> (addr \<times> MetaDentry) set" where
  "mkdir_entries dir n par i a = {(Suc a, new_MetaDentry dir n i a), (Suc (Suc a), new_MetaDentry i kThisDir i a),
     (Suc (Suc (Suc a)), new_MetaDentry i kParentDir dir par)}"

definition unused :: "(addr \<times> MetaFattr) set \<Rightarrow> fid_t \<Rightarrow> bool" where
  "unused F i \<longleftrightarrow> (\<forall>b g. (b, g) \<in> F \<longrightarrow> fa_id g \<noteq> i)"

lemma unusedD: "unused F i \<Longrightarrow> (b, g) \<in> F \<Longrightarrow> fa_id g \<noteq> i"
  unfolding unused_def by blast

lemma no_chunks_mono: "no_chunks F C i \<Longrightarrow> F \<subseteq> F' \<Longrightarrow> no_chunks F' C i"
  unfolding no_chunks_def by blast

lemma no_chunks_new: "fs_refs F D C \<Longrightarrow> unused F i \<Longrightarrow> no_chunks F C i"
  unfolding no_chunks_def unused_def using fs_chunk by blast

lemma free_new: "fs_refs F D C \<Longrightarrow> unused F i \<Longrightarrow> free D i n"
  unfolding free_def unused_def using fs_dir by blast

lemma free_insert: "free (insert (x, d) D) dir n \<longleftrightarrow> free D dir n \<and> \<not> (d_dir d = dir \<and> d_name d = n)"
  by (auto simp: free_def)

lemma mkdir_fs_ok:
  assumes st: "stage s F D C" and ok: "fs_ok F D C" and p: "(par, p) \<in> F" "fa_type p = KFS_DIR"
    and n: "legalname n" "free D (fa_id p) n" and new: "unused F i"
    and f: "fa_id f = i" "fa_type f = KFS_DIR" "parent f = par"
  shows "fs_ok (insert (nextAddr s, f) F) (D \<union> mkdir_entries (fa_id p) n par i (nextAddr s)) C"
proof -
  have fr: "(Suc j, k) \<notin> D" if "nextAddr s \<le> j" for j k using stage_below(2) [OF st, of "Suc j" k] that by auto
  have fa: "(nextAddr s, g) \<notin> F" for g using stage_below(1) [OF st, of "nextAddr s" g] by auto
  have "n \<noteq> kThisDir" "n \<noteq> kParentDir" "n \<noteq> ''/''" using free_proper [OF _ p n] ok by (auto simp: fs_ok_def)
  then have np: "proper (new_MetaDentry (fa_id p) n i (nextAddr s))" by (simp add: proper_def)
  show ?thesis
    unfolding mkdir_entries_def
  proof (rule fs_ok_add_dir [OF ok, where P = p])
    show "\<And>u k. (u, k) \<in> D \<Longrightarrow>
         \<not> (d_dir k = d_dir (new_MetaDentry (fa_id p) n i (nextAddr s)) \<and> d_name k = d_name (new_MetaDentry (fa_id p) n i (nextAddr s)))"
      using n(2) by (simp add: free_def)
  qed (use np fr fa f p unusedD [OF new] stage_below(1) [OF st p(1)] in simp_all)
qed

text \<open>The four insertions.\<close>

lemma mkdir_inserts:
  assumes st: "stage s F D C" and r: "fs_refs F D C" and p: "(par, p) \<in> F" "fa_type p = KFS_DIR"
    and n: "free D (fa_id p) n" and new: "unused F i"
    and f: "fa_id f = i"
  shows "\<exists>t1 t2 t3 t4. let a = nextAddr s; dir = fa_id p;
      s1 = s\<lparr>objs := (objs s)(a \<mapsto> MFattr f, Suc a \<mapsto> MDentry (new_MetaDentry dir n i a)), nextAddr := Suc (Suc a)\<rparr>;
      s2 = s1\<lparr>tree := t1\<rparr>; s3 = s2\<lparr>tree := t2\<rparr>;
      s4 = s3\<lparr>objs := (objs s3)(Suc (Suc a) \<mapsto> MDentry (new_MetaDentry i kThisDir i a)), nextAddr := Suc (Suc (Suc a)), tree := t3\<rparr>;
      s5 = s4\<lparr>objs := (objs s4)(Suc (Suc (Suc a)) \<mapsto> MDentry (new_MetaDentry i kParentDir dir par)), nextAddr := Suc (Suc (Suc (Suc a))), tree := t4\<rparr> in
      insert_meta (Suc a) s1 = Some s2 \<and> insert_meta a s2 = Some s3 \<and>
      link i kThisDir KFS_DIR i 1 no_stripes kKfsUserNone kKfsGroupNone 0 a s3 = Some (0, 0, s4) \<and>
      link i kParentDir KFS_DIR dir 1 no_stripes kKfsUserNone kKfsGroupNone 0 par s4 = Some (0, 0, s5) \<and>
      stage s5 (insert (a, strip f) F) (D \<union> mkdir_entries dir n par i a) C"
proof -
  define a where "a = nextAddr s"
  define d where "d = new_MetaDentry (fa_id p) n i a"
  define s0 where "s0 = s\<lparr>objs := (objs s)(a \<mapsto> MFattr f), nextAddr := Suc a\<rparr>"
  have st0: "stage s0 F D C" unfolding s0_def a_def by (rule stage_alloc [OF st])
  have n0: "nextAddr s0 = Suc a" by (simp add: s0_def)
  have ndir: "fa_id p \<noteq> i" using unusedD [OF new p(1)] .
  define s1 where "s1 = s0\<lparr>objs := (objs s0)(Suc a \<mapsto> MDentry d), nextAddr := Suc (Suc a)\<rparr>"
  obtain t1 where t1: "insert_meta (Suc a) s1 = Some (s1\<lparr>tree := t1\<rparr>)" "stage (s1\<lparr>tree := t1\<rparr>) F (insert (Suc a, d) D) C"
    using stage_alloc_dentry [OF st0 n dir_no_chunks [OF r p], of i a] unfolding n0 s1_def d_def Let_def by blast
  define s2 where "s2 = s1\<lparr>tree := t1\<rparr>"
  have o2: "objs s2 a = Some (MFattr f)" by (simp add: s2_def s1_def s0_def)
  have fresh: "a \<notin> fst ` F \<union> fst ` insert (Suc a, d) D \<union> fst ` C" using stage_below [OF st] by (force simp: a_def)
  obtain t2 where t2: "insert_meta a s2 = Some (s2\<lparr>tree := t2\<rparr>)" "stage (s2\<lparr>tree := t2\<rparr>) (insert (a, strip f) F) (insert (Suc a, d) D) C"
    using stage_insert_fattr [OF t1(2) [folded s2_def] o2 fresh] unusedD [OF new] f by blast
  define s3 where "s3 = s2\<lparr>tree := t2\<rparr>"
  have n3: "nextAddr s3 = Suc (Suc a)" by (simp add: s3_def s2_def s1_def)
  have nc: "no_chunks (insert (a, strip f) F) C i" using no_chunks_mono [OF no_chunks_new [OF r new]] by blast
  have fr: "free (insert (Suc a, d) D) i k" for k using free_new [OF r new, of k] ndir by (simp add: free_insert d_def)
  define s4 where "s4 t = s3\<lparr>objs := (objs s3)(Suc (Suc a) \<mapsto> MDentry (new_MetaDentry i kThisDir i a)), nextAddr := Suc (Suc (Suc a)), tree := t\<rparr>" for t
  obtain t3 where t3: "link i kThisDir KFS_DIR i 1 no_stripes kKfsUserNone kKfsGroupNone 0 a s3 = Some (0, 0, s4 t3)"
    "stage (s4 t3) (insert (a, strip f) F) (insert (Suc (Suc a), new_MetaDentry i kThisDir i a) (insert (Suc a, d) D)) C"
    using link_dots [OF t2(2) [folded s3_def] _ fr nc, of kThisDir i a] unfolding n3 s4_def Let_def by blast
  have n4: "nextAddr (s4 t3) = Suc (Suc (Suc a))" by (simp add: s4_def)
  define s5 where "s5 t = (s4 t3)\<lparr>objs := (objs (s4 t3))(Suc (Suc (Suc a)) \<mapsto> MDentry (new_MetaDentry i kParentDir (fa_id p) par)),
    nextAddr := Suc (Suc (Suc (Suc a))), tree := t\<rparr>" for t
  have fr4: "free (insert (Suc (Suc a), new_MetaDentry i kThisDir i a) (insert (Suc a, d) D)) i kParentDir"
    using fr by (subst free_insert) simp
  obtain t4 where t4: "link i kParentDir KFS_DIR (fa_id p) 1 no_stripes kKfsUserNone kKfsGroupNone 0 par (s4 t3) = Some (0, 0, s5 t4)"
    "stage (s5 t4) (insert (a, strip f) F)
      (insert (Suc (Suc (Suc a)), new_MetaDentry i kParentDir (fa_id p) par) (insert (Suc (Suc a), new_MetaDentry i kThisDir i a) (insert (Suc a, d) D))) C"
    using link_dots [OF t3(2) _ fr4 nc, of "fa_id p" par] unfolding n4 s5_def Let_def by blast
  have "insert (Suc (Suc (Suc a)), new_MetaDentry i kParentDir (fa_id p) par) (insert (Suc (Suc a), new_MetaDentry i kThisDir i a) (insert (Suc a, d) D)) =
      D \<union> mkdir_entries (fa_id p) n par i a" unfolding mkdir_entries_def d_def by blast
  then show ?thesis
    using t1(1) t2(1) t3(1) t4
    unfolding Let_def a_def [symmetric]
    by (intro exI [of _ t1] exI [of _ t2] exI [of _ t3] exI [of _ t4]) (simp add: s5_def s4_def s3_def s2_def s1_def s0_def d_def)
qed

text \<open>Facts that every proof about an operation starts with.\<close>

lemma ns_inv_parts:
  assumes "ns_inv s"
  shows "store_inv s" "fs_ok (FS s) (DS s) (CS s)" "fs_refs (FS s) (DS s) (CS s)" "fs_tree (FS s)" "fs_links (FS s) (DS s)" "fs_dots (FS s) (DS s)"
    "stage s (FS s) (DS s) (CS s)" "names_uniq (DS s)" "all_nonneg s"
    "(b, g) \<in> FS s \<Longrightarrow> fa_id g \<le> fileID s"
  using assms by (auto simp: ns_inv_def ns_sets_def fs_ok_def stage_def intro: fs_refs_uniq)

lemma ns_unused: "ns_inv s \<Longrightarrow> fileID s \<noteq> - 1 \<Longrightarrow> unused (FS s) (fileID s + 1)"
  using ns_inv_parts(10) [of s] genid_fresh(4) [of "fileID s"] unfolding unused_def by blast

lemma mkdir_tail_ok:
  assumes st: "stage s F D C" and ok: "fs_ok F D C" and p: "fattr_at s par = Some p" "(par, strip p) \<in> F" "fa_type p = KFS_DIR"
    and n: "legalname n" "free D (fa_id p) n" and new: "unused F i" and nn: "all_nonneg s"
  shows "\<exists>s'. mkdir_tail (fa_id p) n u g m par (Some p) i s = Some (0, i, nextAddr s, s') \<and> fileID s' = fileID s \<and>
    stage s' (insert (nextAddr s, strip ((new_MetaFattr (clock s) KFS_DIR i 1 u g m)\<lparr>parent := par\<rparr>)) F)
      (D \<union> mkdir_entries (fa_id p) n par i (nextAddr s)) C \<and>
    fs_ok (insert (nextAddr s, strip ((new_MetaFattr (clock s) KFS_DIR i 1 u g m)\<lparr>parent := par\<rparr>)) F)
      (D \<union> mkdir_entries (fa_id p) n par i (nextAddr s)) C \<and> all_nonneg s'"
proof -
  let ?a = "nextAddr s"
  let ?f = "(new_MetaFattr (clock s) KFS_DIR i 1 u g m)\<lparr>parent := par\<rparr>"
  let ?F = "insert (?a, strip ?f) F" and ?D = "D \<union> mkdir_entries (fa_id p) n par i ?a"
  have o: "fs_refs F D C" using ok by (simp add: fs_ok_def)
  have ok': "fs_ok ?F ?D C"
    using mkdir_fs_ok [OF st ok p(2) _ n(1) _ new, of "strip ?f"] p(3) n(2) by simp
  obtain t1 t2 t3 t4 where ins: "let a = nextAddr s; dir = fa_id p;
      s1 = s\<lparr>objs := (objs s)(a \<mapsto> MFattr ?f, Suc a \<mapsto> MDentry (new_MetaDentry dir n i a)), nextAddr := Suc (Suc a)\<rparr>;
      s2 = s1\<lparr>tree := t1\<rparr>; s3 = s2\<lparr>tree := t2\<rparr>;
      s4 = s3\<lparr>objs := (objs s3)(Suc (Suc a) \<mapsto> MDentry (new_MetaDentry i kThisDir i a)), nextAddr := Suc (Suc (Suc a)), tree := t3\<rparr>;
      s5 = s4\<lparr>objs := (objs s4)(Suc (Suc (Suc a)) \<mapsto> MDentry (new_MetaDentry i kParentDir dir par)), nextAddr := Suc (Suc (Suc (Suc a))), tree := t4\<rparr> in
      insert_meta (Suc a) s1 = Some s2 \<and> insert_meta a s2 = Some s3 \<and>
      link i kThisDir KFS_DIR i 1 no_stripes kKfsUserNone kKfsGroupNone 0 a s3 = Some (0, 0, s4) \<and>
      link i kParentDir KFS_DIR dir 1 no_stripes kKfsUserNone kKfsGroupNone 0 par s4 = Some (0, 0, s5) \<and>
      stage s5 ?F ?D C"
    using mkdir_inserts [OF st o p(2) _ _ new, of n ?f] p(3) n(2) unfolding Let_def by auto
  define s5 where "s5 = s\<lparr>objs := (objs s)(?a \<mapsto> MFattr ?f, Suc ?a \<mapsto> MDentry (new_MetaDentry (fa_id p) n i ?a),
      Suc (Suc ?a) \<mapsto> MDentry (new_MetaDentry i kThisDir i ?a), Suc (Suc (Suc ?a)) \<mapsto> MDentry (new_MetaDentry i kParentDir (fa_id p) par)),
    nextAddr := Suc (Suc (Suc (Suc ?a))), tree := t4\<rparr>"
  have st5: "stage s5 ?F ?D C" using ins unfolding Let_def s5_def by simp
  have nn5: "all_nonneg s5" using nn by (auto simp: all_nonneg_def s5_def fattr_at_def)
  have a5: "fattr_at s5 ?a = Some ?f" by (simp add: s5_def fattr_at_def)
  obtain s6 where s6: "updateCounts ?a 0 0 1 s5 = Some s6" "objs s6 ?a = objs s5 ?a"
    using updateCounts_similar [OF acct_ok_plus [OF st5 _ _ _ nn5, of ?a "strip ?f" 0 0 1]] ok' by (auto simp: fs_ok_def)
  have c6: "counted s5 s6" by (rule updateCounts_counted [OF s6(1)])
  have a6: "fattr_at s6 ?a = Some ?f" using s6(2) a5 by (simp add: fattr_at_def)
  define s7 where "s7 = s6\<lparr>objs := (objs s6)(?a \<mapsto> MFattr (?f\<lparr>minSTier := minSTier p, maxSTier := maxSTier p\<rparr>))\<rparr>"
  have u7: "upd_fattr ?a (\<lambda>f. f\<lparr>minSTier := minSTier p, maxSTier := maxSTier p\<rparr>) s6 = Some s7"
    using a6 by (simp add: upd_fattr_def s7_def)
  have c7: "counted s5 s7" unfolding s7_def by (rule counted_trans [OF c6 counted_upd [OF a6]]) simp_all
  have "mkdir_tail (fa_id p) n u g m par (Some p) i s = Some (0, i, ?a, UpdateNumDirs 1 s7)"
    using ins s6(1) u7 unfolding Let_def mkdir_tail_def alloc_def by (simp add: s5_def)
  moreover have "same_store s7 (UpdateNumDirs 1 s7)" by (simp add: same_store_def UpdateNumDirs_def)
  moreover have "fileID s7 = fileID s5" using c7 by (auto simp: counted_def)
  moreover have "all_nonneg (UpdateNumDirs 1 s7)"
    using counted_nonneg [OF c7 nn5] by (simp add: UpdateNumDirs_def fattr_at_def all_nonneg_def)
  ultimately show ?thesis using stage_same [OF counted_stage [OF c7 st5]] ok'
    by (intro exI [of _ "UpdateNumDirs 1 s7"]) (auto simp: s5_def UpdateNumDirs_def)
qed

lemma kind_fattr:
  assumes inv: "ns_inv s" and k: "kind s i = Some t" and p: "fattr_at s (getFattr s i) = Some p"
  shows "fattr_in s (getFattr s i) p" "(getFattr s i, strip p) \<in> FS s" "fa_id p = i" "fa_type p = t" "getFattr s i \<noteq> 0"
proof -
  obtain f where f: "fattr_in s (getFattr s i) f" "fa_id f = i" "fa_type f = t" "getFattr s i \<noteq> 0" using ns_fattr [OF inv k] by metis
  moreover have "f = p" using fattr_at_in [OF f(1)] p by simp
  ultimately show "fattr_in s (getFattr s i) p" "(getFattr s i, strip p) \<in> FS s" "fa_id p = i" "fa_type p = t" "getFattr s i \<noteq> 0"
    by (auto simp: in_FS)
qed

lemma names_eqI:
  assumes "stage s F D C" "\<And>x d. (x, d) \<in> D \<Longrightarrow> m (d_dir d, d_name d) = Some (d_fid d)"
    "\<And>dir n v. m (dir, n) = Some v \<Longrightarrow> \<exists>x d. (x, d) \<in> D \<and> d_dir d = dir \<and> d_name d = n \<and> d_fid d = v"
  shows "names s = m"
proof (rule map_eqI)
  fix k v
  show "names s k = Some v \<longleftrightarrow> m k = Some v"
    unfolding names_iff [OF assms(1)] using assms(2,3) by (cases k) auto
qed

lemma names_some: "stage s F D C \<Longrightarrow> (x, d) \<in> D \<Longrightarrow> names s (d_dir d, d_name d) = Some (d_fid d)"
  using names_iff [of s F D C "(d_dir d, d_name d)" "d_fid d"] by auto

lemma names_someD: "stage s F D C \<Longrightarrow> names s (dir, n) = Some v \<Longrightarrow> \<exists>x d. (x, d) \<in> D \<and> d_dir d = dir \<and> d_name d = n \<and> d_fid d = v"
  using names_iff [of s F D C "(dir, n)" v] by auto

lemma mkdir_names:
  assumes st: "stage s F D C" "stage s' F' (D \<union> mkdir_entries dir n par i a) C'" and "free D dir n" "free D i kThisDir" "free D i kParentDir" "i \<noteq> dir"
  shows "names s' = (names s)((dir, n) \<mapsto> i, (i, kThisDir) \<mapsto> i, (i, kParentDir) \<mapsto> dir)"
proof (rule names_eqI [OF st(2)])
  fix x d assume "(x, d) \<in> D \<union> mkdir_entries dir n par i a"
  then consider "(x, d) \<in> D" | "d = new_MetaDentry dir n i a" | "d = new_MetaDentry i kThisDir i a" | "d = new_MetaDentry i kParentDir dir par"
    unfolding mkdir_entries_def by blast
  then show "((names s)((dir, n) \<mapsto> i, (i, kThisDir) \<mapsto> i, (i, kParentDir) \<mapsto> dir)) (d_dir d, d_name d) = Some (d_fid d)"
  proof cases
    case 1
    then have "(d_dir d, d_name d) \<noteq> (dir, n)" "(d_dir d, d_name d) \<noteq> (i, kThisDir)" "(d_dir d, d_name d) \<noteq> (i, kParentDir)"
      using assms(3-5) unfolding free_def by blast+
    then show ?thesis using names_some [OF st(1) 1] by (simp only: fun_upd_apply if_False)
  qed (use assms(6) in simp_all)
next
  fix dir' n' v assume "((names s)((dir, n) \<mapsto> i, (i, kThisDir) \<mapsto> i, (i, kParentDir) \<mapsto> dir)) (dir', n') = Some v"
  then consider "names s (dir', n') = Some v" | "dir' = dir" "n' = n" "v = i" | "dir' = i" "n' = kThisDir" "v = i" | "dir' = i" "n' = kParentDir" "v = dir"
    by (metis fun_upd_apply option.inject prod.inject)
  then show "\<exists>x d. (x, d) \<in> D \<union> mkdir_entries dir n par i a \<and> d_dir d = dir' \<and> d_name d = n' \<and> d_fid d = v"
  proof cases
    case 1
    then show ?thesis using names_someD [OF st(1)] by blast
  next
    case 2
    then show ?thesis by (intro exI [of _ "Suc a"] exI [of _ "new_MetaDentry dir n i a"]) (simp add: mkdir_entries_def)
  next
    case 3
    then show ?thesis by (intro exI [of _ "Suc (Suc a)"] exI [of _ "new_MetaDentry i kThisDir i a"]) (simp add: mkdir_entries_def)
  next
    case 4
    then show ?thesis by (intro exI [of _ "Suc (Suc (Suc a))"] exI [of _ "new_MetaDentry i kParentDir dir par"]) (simp add: mkdir_entries_def)
  qed
qed

lemma mkdir_ok:
  assumes inv: "ns_inv s" and n: "legalname n" "names s (dir, n) = None" and k: "kind s dir = Some KFS_DIR"
    and p: "fattr_at s (getFattr s dir) = Some p" "CanWrite (members s) p euser egroup" and id: "fileID s \<noteq> - 1"
  shows "\<exists>fa s'. mkdir dir n u g m euser egroup 0 s = Some (0, fileID s + 1, fa, s') \<and> ns_inv s' \<and>
    names s' = (names s)((dir, n) \<mapsto> fileID s + 1, (fileID s + 1, kThisDir) \<mapsto> fileID s + 1, (fileID s + 1, kParentDir) \<mapsto> dir) \<and>
    kind s' = (kind s)(fileID s + 1 \<mapsto> KFS_DIR) \<and> CS s' = CS s \<and> fileID s' = fileID s + 1"
proof -
  let ?i = "fileID s + 1"
  let ?s = "s\<lparr>fileID := ?i\<rparr>"
  note P = ns_inv_parts [OF inv] and K = kind_fattr [OF inv k p(1)]
  have free: "free (DS s) dir n" using n(2) names_none(1) [OF P(7)] by simp
  have same: "same_store s ?s" by (simp add: same_store_def)
  have st: "stage ?s (FS s) (DS s) (CS s)" by (rule stage_same [OF P(7) same])
  have un: "unused (FS s) ?i" by (rule ns_unused [OF inv id])
  have nd: "?i \<noteq> dir" using unusedD [OF un K(2)] K(3) by auto
  have eq: "mkdir dir n u g m euser egroup 0 s = mkdir_tail (fa_id p) n u g m (getFattr s dir) (Some p) ?i ?s"
    using mkdir_eq [OF n(1) K(1,5,4) names_none(2) [OF P(7) free] p(2)] K(3) by simp
  have at: "fattr_at ?s = fattr_at s" by (rule at_cong) simp
  let ?F = "insert (nextAddr s, strip ((new_MetaFattr (clock s) KFS_DIR ?i 1 u g m)\<lparr>parent := getFattr s dir\<rparr>)) (FS s)"
  obtain s' where s': "mkdir dir n u g m euser egroup 0 s = Some (0, ?i, nextAddr s, s')" "fileID s' = ?i"
    "stage s' ?F (DS s \<union> mkdir_entries dir n (getFattr s dir) ?i (nextAddr s)) (CS s)"
    "fs_ok ?F (DS s \<union> mkdir_entries dir n (getFattr s dir) ?i (nextAddr s)) (CS s)" "all_nonneg s'"
    using mkdir_tail_ok [OF st P(2), of "getFattr s dir" p n ?i u g m] K p(1) free n(1) un P(9) unfolding eq at by (auto simp: all_nonneg_def at)
  have "ns_sets ?F (DS s \<union> mkdir_entries dir n (getFattr s dir) ?i (nextAddr s)) (CS s) ?i"
    using inv genid_fresh(3) [OF id] P(10)
    by (intro ns_sets_add [OF _ s'(4)]) (auto simp: ns_inv_def mkdir_entries_def proper_def n(1))
  then have "ns_inv s'" using ns_invI [OF s'(3)] s'(2,5) by simp
  moreover have "names s' = (names s)((dir, n) \<mapsto> ?i, (?i, kThisDir) \<mapsto> ?i, (?i, kParentDir) \<mapsto> dir)"
    by (rule mkdir_names [OF P(7) s'(3) free free_new [OF P(3) un] free_new [OF P(3) un] nd])
  moreover have "kind s' = (kind s)(?i \<mapsto> KFS_DIR)" using kind_insert [OF P(7) s'(3)] by simp
  moreover have "CS s' = CS s" using s'(3) by (simp add: stage_def)
  ultimately show ?thesis using s'(1,2) by blast
qed

subsection \<open>Creating a file\<close>

lemma SetStriped_keeps:
  "fa_id (snd (SetStriped st ns nr ss f)) = fa_id f" "fa_type (snd (SetStriped st ns nr ss f)) = fa_type f"
  "nonneg (snd (SetStriped st ns nr ss f)) = nonneg f" "parent (snd (SetStriped st ns nr ss f)) = parent f"
  "subcount1 (snd (SetStriped st ns nr ss f)) = subcount1 f"
  by (auto simp: SetStriped_def Let_def nonneg_def)

lemma insert_dentry_objs:
  assumes "insert_meta b s = Some (s\<lparr>tree := t\<rparr>)" "objs s b = Some (MDentry d)" "tree s' = tree s" "objs s' b = objs s b"
  shows "insert_meta b s' = Some (s'\<lparr>tree := t\<rparr>)"
proof -
  obtain t' where t': "Tree_insert (dentry_key (d_dir d) (d_hash d)) b (tree s) = Some t'" "s\<lparr>tree := t'\<rparr> = s\<lparr>tree := t\<rparr>"
    using assms(1,2) by (auto simp: insert_meta_def split: bind_splits)
  have "t' = t" using arg_cong [OF t'(2), of tree] by simp
  then show ?thesis using t'(1) assms(2-4) by (simp add: insert_meta_def)
qed

lemma link_file:
  assumes st: "stage s F D C" and r: "fs_refs F D C" and p: "(par, p) \<in> F" "fa_type p = KFS_DIR"
    and n: "legalname n" "n \<noteq> kThisDir" "n \<noteq> kParentDir" "free D (fa_id p) n" and new: "unused F i"
    and sp: "SetStriped st ns nr ss (new_MetaFattr (clock s) t i nrep u g m) = (True, f)"
  shows "\<exists>t2. let a = nextAddr s; d = new_MetaDentry (fa_id p) n i a;
      s1 = s\<lparr>objs := (objs s)(a \<mapsto> MFattr (f\<lparr>parent := par\<rparr>), Suc a \<mapsto> MDentry d), nextAddr := Suc (Suc a), tree := t2\<rparr> in
    link (fa_id p) n t i nrep (st, ns, nr, ss) u g m par s = Some (0, a, s1) \<and>
    stage s1 (insert (a, strip (f\<lparr>parent := par\<rparr>)) F) (insert (Suc a, d) D) C"
proof -
  define a where "a = nextAddr s"
  define d where "d = new_MetaDentry (fa_id p) n i a"
  define h where "h = f\<lparr>parent := par\<rparr>"
  define s0 where "s0 = s\<lparr>objs := (objs s)(a \<mapsto> MFattr h), nextAddr := Suc a\<rparr>"
  have id: "fa_id h = i" using SetStriped_keeps(1) [of st ns nr ss "new_MetaFattr (clock s) t i nrep u g m"] sp by (simp add: h_def)
  have st0: "stage s0 F D C" unfolding s0_def a_def by (rule stage_alloc [OF st])
  have n0: "nextAddr s0 = Suc a" by (simp add: s0_def)
  define s1 where "s1 = s0\<lparr>objs := (objs s0)(Suc a \<mapsto> MDentry d), nextAddr := Suc (Suc a)\<rparr>"
  obtain t1 where t1: "insert_meta (Suc a) s1 = Some (s1\<lparr>tree := t1\<rparr>)" "stage (s1\<lparr>tree := t1\<rparr>) F (insert (Suc a, d) D) C"
    using stage_alloc_dentry [OF st0 n(4) dir_no_chunks [OF r p], of i a] unfolding n0 s1_def d_def Let_def by blast
  have o: "objs (s1\<lparr>tree := t1\<rparr>) a = Some (MFattr h)" by (simp add: s1_def s0_def)
  have fresh: "a \<notin> fst ` F \<union> fst ` insert (Suc a, d) D \<union> fst ` C" using stage_below [OF st] by (force simp: a_def)
  obtain t2 where t2: "insert_meta a (s1\<lparr>tree := t1\<rparr>) = Some (s1\<lparr>tree := t2\<rparr>)"
    "stage (s1\<lparr>tree := t2\<rparr>) (insert (a, strip h) F) (insert (Suc a, d) D) C"
    using stage_insert_fattr [OF t1(2) o fresh] unusedD [OF new] id by auto
  define q where "q = s\<lparr>objs := (objs s)(a \<mapsto> MFattr f, Suc a \<mapsto> MDentry d), nextAddr := Suc (Suc a)\<rparr>"
  have "insert_meta (Suc a) q = Some (q\<lparr>tree := t1\<rparr>)"
    by (rule insert_dentry_objs [OF t1(1), of d]) (simp_all add: q_def s1_def s0_def)
  moreover have "upd_fattr a (parent_update (\<lambda>_. par)) (q\<lparr>tree := t1\<rparr>) = Some (s1\<lparr>tree := t1\<rparr>)"
    by (simp add: upd_fattr_def fattr_at_def q_def s1_def s0_def h_def fun_upd_twist)
  moreover have "par \<noteq> 0" using stage_below(1) [OF st p(1)] by simp
  ultimately have "link (fa_id p) n t i nrep (st, ns, nr, ss) u g m par s = Some (0, a, s1\<lparr>tree := t2\<rparr>)"
    using n(1-3) sp t2(1) by (simp add: link_def alloc_def Let_def a_def [symmetric] d_def [symmetric] q_def)
  then show ?thesis using t2(2) unfolding Let_def a_def [symmetric] d_def [symmetric] h_def [symmetric]
    by (intro exI [of _ t2]) (simp add: s1_def s0_def)
qed

definition create_tail :: "fid_t \<Rightarrow> string \<Rightarrow> fid_t \<Rightarrow> int \<Rightarrow> stripe_params \<Rightarrow> fid_t \<Rightarrow> kfsUid_t \<Rightarrow> kfsGid_t \<Rightarrow> kfsMode_t \<Rightarrow> addr \<Rightarrow> NS \<Rightarrow>
    (int \<times> fid_t \<times> fid_t \<times> addr \<times> NS) option" where
  "create_tail dir fname newFid nrep sp todumpster u g m par s =
     do { (status, fa, s) \<leftarrow> link dir fname KFS_FILE newFid nrep sp u g m par s;
          if status \<noteq> 0 then Some (status, newFid, todumpster, 0, s)
          else do { s \<leftarrow> updateCounts fa 0 1 0 (UpdateNumFiles 1 s);
                    p \<leftarrow> fattr_at s par;
                    s \<leftarrow> upd_fattr fa (\<lambda>f. f\<lparr>minSTier := minSTier p, maxSTier := maxSTier p\<rparr>) s;
                    Some (0, newFid, todumpster, fa, s) } }"

lemma create_eq:
  assumes "legalname n" "0 < nrep" "getFattr s dir \<noteq> 0" "fattr_at s (getFattr s dir) = Some p" "fa_type p = KFS_DIR"
    "CanWrite (members s) p euser egroup" "getDentry s dir n = Some 0"
  shows "create dir n 0 nrep excl sp td u g m euser egroup s =
    create_tail dir n (fileID s + 1) nrep sp td u g m (getFattr s dir) (s\<lparr>fileID := fileID s + 1\<rparr>)"
  using assms by (simp add: create_def create_tail_def lookup_def genid_def Let_def)

lemma create_tail_ok:
  assumes st: "stage s F D C" and ok: "fs_ok F D C" and p: "fattr_at s par = Some p" "(par, strip p) \<in> F" "fa_type p = KFS_DIR"
    and n: "legalname n" "free D (fa_id p) n" and new: "unused F i" and nn: "all_nonneg s"
    and sp: "SetStriped st ns nr ss (new_MetaFattr (clock s) KFS_FILE i nrep u g m) = (True, f)"
  defines "F' \<equiv> insert (nextAddr s, strip (f\<lparr>parent := par\<rparr>)) F"
  defines "D' \<equiv> insert (Suc (nextAddr s), new_MetaDentry (fa_id p) n i (nextAddr s)) D"
  shows "\<exists>s'. create_tail (fa_id p) n i nrep (st, ns, nr, ss) td u g m par s = Some (0, i, td, nextAddr s, s') \<and> fileID s' = fileID s \<and>
    stage s' F' D' C \<and> fs_ok F' D' C \<and> all_nonneg s' \<and> map_option subcount1 (fattr_at s' (nextAddr s)) = Some (subcount1 f)"
proof -
  let ?a = "nextAddr s" and ?h = "f\<lparr>parent := par\<rparr>"
  have o: "fs_refs F D C" "fs_dots F D" using ok by (simp_all add: fs_ok_def)
  have f: "fa_id f = i" "fa_type f = KFS_FILE" "nonneg f"
    using SetStriped_keeps [of st ns nr ss "new_MetaFattr (clock s) KFS_FILE i nrep u g m"] sp by simp_all
  have np: "n \<noteq> kThisDir" "n \<noteq> kParentDir" "n \<noteq> ''/''" using free_proper [OF o(2) p(2) _ n(1)] n(2) p(3) by simp_all
  have fr: "(?a, g) \<notin> F" "(Suc ?a, e) \<notin> D" for g e using stage_below(1) [OF st, of ?a g] stage_below(2) [OF st, of "Suc ?a" e] by auto
  have ok': "fs_ok F' D' C"
    unfolding F'_def D'_def
  proof (rule fs_ok_add_file [OF ok, where P = "strip p"])
    show "\<And>y e. (y, e) \<in> D \<Longrightarrow> \<not> (d_dir e = d_dir (new_MetaDentry (fa_id p) n i ?a) \<and> d_name e = d_name (new_MetaDentry (fa_id p) n i ?a))"
      using n(2) by (simp add: free_def)
    show "proper (new_MetaDentry (fa_id p) n i ?a)" using np by (simp add: proper_def)
  qed (use fr f p unusedD [OF new] stage_below(1) [OF st p(2)] in simp_all)
  have n2: "free D (fa_id (strip p)) n" using n(2) by simp
  obtain t where l: "link (fa_id p) n KFS_FILE i nrep (st, ns, nr, ss) u g m par s = Some (0, ?a, s\<lparr>objs := (objs s)(?a \<mapsto> MFattr ?h,
      Suc ?a \<mapsto> MDentry (new_MetaDentry (fa_id p) n i ?a)), nextAddr := Suc (Suc ?a), tree := t\<rparr>)"
    and st1: "stage (s\<lparr>objs := (objs s)(?a \<mapsto> MFattr ?h,
      Suc ?a \<mapsto> MDentry (new_MetaDentry (fa_id p) n i ?a)), nextAddr := Suc (Suc ?a), tree := t\<rparr>) F' D' C"
    using link_file [OF st o(1) p(2) _ n(1) np(1,2) n2 new sp] p(3) unfolding Let_def F'_def D'_def by auto
  define s1 where "s1 = UpdateNumFiles 1 (s\<lparr>objs := (objs s)(?a \<mapsto> MFattr ?h,
      Suc ?a \<mapsto> MDentry (new_MetaDentry (fa_id p) n i ?a)), nextAddr := Suc (Suc ?a), tree := t\<rparr>)"
  have st2: "stage s1 F' D' C" by (rule stage_same [OF st1]) (simp add: same_store_def s1_def UpdateNumFiles_def)
  have nn1: "all_nonneg s1" using nn f(3) by (auto simp: all_nonneg_def s1_def UpdateNumFiles_def fattr_at_def)
  have a1: "fattr_at s1 ?a = Some ?h" by (simp add: s1_def fattr_at_def UpdateNumFiles_def)
  obtain s2 where s2: "updateCounts ?a 0 1 0 s1 = Some s2" "objs s2 ?a = objs s1 ?a"
    using updateCounts_similar [OF acct_ok_plus [OF st2 _ _ _ nn1, of ?a "strip ?h" 0 1 0]] ok' by (auto simp: fs_ok_def F'_def)
  have c2: "counted s1 s2" by (rule updateCounts_counted [OF s2(1)])
  have a2: "fattr_at s2 ?a = Some ?h" using s2(2) a1 by (simp add: fattr_at_def)
  have "par \<noteq> ?a" "par \<noteq> Suc ?a" using stage_below(1) [OF st p(2)] by auto
  then have "fattr_at s1 par = Some p" using p(1) by (simp add: s1_def fattr_at_def UpdateNumFiles_def)
  then obtain p2 where p2: "fattr_at s2 par = Some p2" using c2 similar_in(7) unfolding counted_def by blast
  define s3 where "s3 = s2\<lparr>objs := (objs s2)(?a \<mapsto> MFattr (?h\<lparr>minSTier := minSTier p2, maxSTier := maxSTier p2\<rparr>))\<rparr>"
  have "create_tail (fa_id p) n i nrep (st, ns, nr, ss) td u g m par s = Some (0, i, td, ?a, s3)"
    using l s2(1) p2 a2 by (simp add: create_tail_def s1_def s3_def upd_fattr_def)
  moreover have c3: "counted s1 s3" unfolding s3_def by (rule counted_trans [OF c2 counted_upd [OF a2]]) (simp_all add: f(3))
  moreover have "fileID s3 = fileID s" using c3 by (auto simp: counted_def s1_def UpdateNumFiles_def)
  moreover have "map_option subcount1 (fattr_at s3 ?a) = Some (subcount1 f)" by (simp add: s3_def fattr_at_def)
  ultimately show ?thesis using counted_stage [OF c3 st2] ok' counted_nonneg [OF c3 nn1] by blast
qed

lemma create_ok:
  assumes inv: "ns_inv s" and n: "legalname n" "names s (dir, n) = None" and k: "kind s dir = Some KFS_DIR"
    and p: "fattr_at s (getFattr s dir) = Some p" "CanWrite (members s) p euser egroup" and id: "fileID s \<noteq> - 1" and nrep: "0 < nrep"
    and sp: "fst (SetStriped st ns nr ss (new_MetaFattr (clock s) KFS_FILE (fileID s + 1) nrep u g m))"
  shows "\<exists>fa s'. create dir n 0 nrep excl (st, ns, nr, ss) td u g m euser egroup s = Some (0, fileID s + 1, td, fa, s') \<and> ns_inv s' \<and>
    names s' = (names s)((dir, n) \<mapsto> fileID s + 1) \<and> kind s' = (kind s)(fileID s + 1 \<mapsto> KFS_FILE) \<and> CS s' = CS s \<and>
    map_option subcount1 (fattr_at s' (getFattr s' (fileID s + 1))) = Some 0"
proof -
  let ?i = "fileID s + 1"
  let ?s = "s\<lparr>fileID := ?i\<rparr>"
  note P = ns_inv_parts [OF inv] and K = kind_fattr [OF inv k p(1)]
  have free: "free (DS s) dir n" using n(2) names_none(1) [OF P(7)] by simp
  have st: "stage ?s (FS s) (DS s) (CS s)" by (rule stage_same [OF P(7)]) (simp add: same_store_def)
  have un: "unused (FS s) ?i" by (rule ns_unused [OF inv id])
  have at: "fattr_at ?s = fattr_at s" by (rule at_cong) simp
  obtain f where f: "SetStriped st ns nr ss (new_MetaFattr (clock ?s) KFS_FILE ?i nrep u g m) = (True, f)"
    using sp by (cases "SetStriped st ns nr ss (new_MetaFattr (clock s) KFS_FILE ?i nrep u g m)") auto
  have ff: "fa_id f = ?i" "fa_type f = KFS_FILE" "subcount1 f = 0"
    using SetStriped_keeps [of st ns nr ss "new_MetaFattr (clock s) KFS_FILE ?i nrep u g m"] f by (simp_all add: new_MetaFattr_def)
  let ?F = "insert (nextAddr s, strip (f\<lparr>parent := getFattr s dir\<rparr>)) (FS s)" and ?d = "new_MetaDentry dir n ?i (nextAddr s)"
  obtain s' where s': "create_tail dir n ?i nrep (st, ns, nr, ss) td u g m (getFattr s dir) ?s = Some (0, ?i, td, nextAddr s, s')" "fileID s' = ?i"
    "stage s' ?F (insert (Suc (nextAddr s), ?d) (DS s)) (CS s)" "fs_ok ?F (insert (Suc (nextAddr s), ?d) (DS s)) (CS s)" "all_nonneg s'"
    "map_option subcount1 (fattr_at s' (nextAddr s)) = Some (subcount1 f)"
    using create_tail_ok [OF st P(2) _ _ _ n(1) _ un _ f, of "getFattr s dir" p td] K p(1) free P(9) by (auto simp: all_nonneg_def at)
  have "ns_sets ?F (insert (Suc (nextAddr s), ?d) (DS s)) (CS s) ?i"
    using inv genid_fresh(3) [OF id] P(10) ff
    by (intro ns_sets_add [OF _ s'(4)]) (auto simp: ns_inv_def n(1))
  then have "ns_inv s'" using ns_invI [OF s'(3)] s'(2,5) by simp
  moreover have "names s' = (names s)((dir, n) \<mapsto> ?i)" using names_insert [OF P(7) s'(3)] by simp
  moreover have "kind s' = (kind s)(?i \<mapsto> KFS_FILE)" using kind_insert [OF P(7) s'(3)] ff by simp
  moreover have "CS s' = CS s" using s'(3) by (simp add: stage_def)
  moreover have "getFattr s' ?i = nextAddr s"
  proof -
    have "(nextAddr s, strip (f\<lparr>parent := getFattr s dir\<rparr>)) \<in> FS s'" using s'(3) by (simp add: stage_def)
    then obtain h where "fattr_in s' (nextAddr s) h" "strip h = strip (f\<lparr>parent := getFattr s dir\<rparr>)" by (auto simp: in_FS)
    then have "fattr_in s' (nextAddr s) h" "fa_id h = ?i" using strip_eq [of h "f\<lparr>parent := getFattr s dir\<rparr>"] ff(1) by simp_all
    then show ?thesis using getFattr_in [OF stage_in(4) [OF s'(3)], of "nextAddr s" h] by simp
  qed
  ultimately show ?thesis using s'(1,6) ff(3) create_eq [OF n(1) nrep K(5) p(1) K(4) p(2) names_none(2) [OF P(7) free]] by auto
qed

end
