(* ===== verification/NsRemove.thy ===== *)
theory NsRemove
  imports NsCreate
begin

text \<open>
  Reading directories, path names and lookup on a state with the invariant, and removing
  directories and files.
\<close>

subsection \<open>Reading a directory\<close>

lemma ns_keyI: "T \<in> ns_types \<Longrightarrow> 0 \<le> sint e \<Longrightarrow> (T = KFS_FATTR \<Longrightarrow> e = 0) \<Longrightarrow> ns_key (Key_of T d e)"
  unfolding ns_key_def by blast

lemma sint_of_int_nonneg: "0 \<le> x \<Longrightarrow> x < 2 ^ 63 \<Longrightarrow> sint (word_of_int x :: u64) = x"
  by (simp add: signed_of_int signed_take_bit_int_eq_self)

lemma store_keys_ok:
  assumes inv: "store_inv s"
  shows "keys_ok (entries (tree s))"
proof -
  have "ns_key k" if "(k, a) \<in> ents s" for k a
    using inv that
  proof (cases rule: ent_cases)
    case (fattr f)
    then show ?thesis by (simp add: fattr_key_def ns_keyI ns_types_def)
  next
    case (dentry d)
    show ?thesis unfolding dentry(2,3) dentry_key_def using nameHash_nonneg by (intro ns_keyI) (simp_all add: ns_types_def)
  next
    case (chunk c i)
    then show ?thesis unfolding chunk(3) chunk_key_def
      using sint_of_int_nonneg [of "c_offset c"] by (intro ns_keyI) (simp_all add: ns_types_def)
  qed
  moreover have False if x: "(Key_of KFS_CHUNKINFO d e, a) \<in> ents s" and y: "(Key_of KFS_DENTRY d e', b) \<in> ents s" for d e e' a b
  proof -
    obtain c where c: "chunk_in s a c" "chunk_fid s c = Some d"
      using inv x by (cases rule: ent_cases) (auto simp: fattr_key_def dentry_key_def chunk_key_def Key_of_eq)
    obtain de where "dentry_in s b de" "d_dir de = d"
      using inv y by (cases rule: ent_cases) (auto simp: fattr_key_def dentry_key_def chunk_key_def Key_of_eq)
    then show False using store_chunk_dentry [OF inv c(1)] c(2) by auto
  qed
  ultimately show ?thesis unfolding keys_ok_def by fastforce
qed

lemma pm_eq_dentry:
  assumes inv: "store_inv s" and e: "(k, a) \<in> ents s"
  shows "pm_eq (PartialMatch_of KFS_DENTRY dir) k \<longleftrightarrow> (\<exists>d. dentry_in s a d \<and> d_dir d = dir)"
  using inv e
  by (cases rule: ent_cases) (auto simp: fattr_key_def dentry_key_def chunk_key_def ns_pm_eq ns_types_def in_defs)

lemma dir_entries:
  assumes inv: "store_inv s"
  shows "set (all_pm (PartialMatch_of KFS_DENTRY dir) (tree s)) = {a. \<exists>d. dentry_in s a d \<and> d_dir d = dir}"
    "distinct (all_pm (PartialMatch_of KFS_DENTRY dir) (tree s))"
proof -
  have eq: "all_pm (PartialMatch_of KFS_DENTRY dir) (tree s) =
      map snd (filter (\<lambda>e. pm_eq (PartialMatch_of KFS_DENTRY dir) (fst e)) (entries (tree s)))"
    unfolding all_pm_extractAll using inv store_keys_ok [OF inv] by (intro all_by_pm) (simp_all add: ns_types_def)
  show "distinct (all_pm (PartialMatch_of KFS_DENTRY dir) (tree s))"
    unfolding eq using store_distinct [OF inv] by (simp add: distinct_map_filter)
  show "set (all_pm (PartialMatch_of KFS_DENTRY dir) (tree s)) = {a. \<exists>d. dentry_in s a d \<and> d_dir d = dir}"
  proof (intro set_eqI iffI)
    fix a assume "a \<in> set (all_pm (PartialMatch_of KFS_DENTRY dir) (tree s))"
    then obtain k where "(k, a) \<in> ents s" "pm_eq (PartialMatch_of KFS_DENTRY dir) k" unfolding eq by auto
    then show "a \<in> {a. \<exists>d. dentry_in s a d \<and> d_dir d = dir}" using pm_eq_dentry [OF inv] by blast
  next
    fix a assume "a \<in> {a. \<exists>d. dentry_in s a d \<and> d_dir d = dir}"
    then obtain d where d: "dentry_in s a d" "d_dir d = dir" by blast
    have k: "(dentry_key (d_dir d) (d_hash d), a) \<in> ents s" by (rule conjunct1 [OF dentry_in_ent [OF inv d(1)]])
    then have "pm_eq (PartialMatch_of KFS_DENTRY dir) (dentry_key (d_dir d) (d_hash d))" using pm_eq_dentry [OF inv k] d by blast
    then show "a \<in> set (all_pm (PartialMatch_of KFS_DENTRY dir) (tree s))" unfolding eq using k by force
  qed
qed

lemma emptydir_iff:
  assumes st: "stage s F D C" and y: "(y, e) \<in> D" "d_dir e = i" and z: "(z, g) \<in> D" "d_dir g = i" and "y \<noteq> z"
  shows "emptydir s i \<longleftrightarrow> (\<forall>u k. (u, k) \<in> D \<longrightarrow> d_dir k = i \<longrightarrow> u = y \<or> u = z)"
proof -
  let ?l = "all_pm (PartialMatch_of KFS_DENTRY i) (tree s)"
  have set: "set ?l = {a. \<exists>d. (a, d) \<in> D \<and> d_dir d = i}" and dist: "distinct ?l"
    using dir_entries [OF stage_in(4) [OF st]] stage_in(2) [OF st] by auto
  have sub: "{y, z} \<subseteq> set ?l" unfolding set using y z by auto
  have card: "length ?l = card (set ?l)" using dist by (simp add: distinct_card)
  have two: "card {y, z} = 2" using assms(6) by simp
  have "length ?l = 2 \<longleftrightarrow> set ?l = {y, z}"
  proof
    assume "length ?l = 2"
    then have "card {y, z} = card (set ?l)" using card two by simp
    from card_subset_eq [OF finite_set sub this] show "set ?l = {y, z}" by simp
  qed (use card two in simp)
  moreover have "emptydir s i \<longleftrightarrow> length ?l = 2" unfolding emptydir_def Let_def by (simp add: min_def)
  moreover have "set ?l = {y, z} \<longleftrightarrow> (\<forall>u k. (u, k) \<in> D \<longrightarrow> d_dir k = i \<longrightarrow> u = y \<or> u = z)"
    using sub unfolding set by blast
  ultimately show ?thesis by simp
qed

subsection \<open>Lookup\<close>

text \<open>A proper entry, its object and its directory.\<close>

lemma proper_entry:
  assumes inv: "ns_inv s" and d: "(x, d) \<in> DS s" "proper d"
  obtains f p where "fattr_in s (getFattr s (d_fid d)) f" "fa_id f = d_fid d" "d_fid d \<noteq> ROOTFID" "parent f = getFattr s (d_dir d)"
    "fattr_in s (parent f) p" "fa_id p = d_dir d" "fa_type p = KFS_DIR" "d_fattr d = 0 \<or> d_fattr d = getFattr s (d_fid d)"
    "parent f \<noteq> 0" "getFattr s (d_fid d) \<noteq> 0" "dentry_at s x = Some d" "x \<noteq> 0"
proof -
  note P = ns_inv_parts [OF inv]
  obtain b f where f: "fattr_in s b f" "fa_id f = d_fid d" "d_fattr d = 0 \<or> d_fattr d = b"
    using fs_target [OF P(3) d(1)] by (auto simp: in_FS)
  have F: "(b, strip f) \<in> FS s" using f(1) by (auto simp: in_FS)
  have l: "fa_id f \<noteq> ROOTFID" "\<exists>g. (parent f, g) \<in> FS s \<and> fa_id g = d_dir d"
    using fs_link_parent [OF P(5) d F] f(2) by auto
  obtain p where p: "fattr_in s (parent f) p" "fa_id p = d_dir d" using l(2) by (auto simp: in_FS)
  have "(parent f, strip p) \<in> FS s" using p(1) by (auto simp: in_FS)
  moreover obtain g where "(parent f, g) \<in> FS s" "fa_type g = KFS_DIR" using fs_parent [OF P(4) F] l(1) by auto
  ultimately have "fa_type p = KFS_DIR" using fs_ids [OF P(3), of "parent f" "strip p" "parent f" g] by auto
  moreover have "b = getFattr s (d_fid d)" "parent f = getFattr s (d_dir d)"
    using getFattr_in [OF P(1) f(1)] getFattr_in [OF P(1) p(1)] f(2) p(2) by simp_all
  moreover have "b \<noteq> 0" "parent f \<noteq> 0" "x \<noteq> 0" using live_addr [OF P(1)] f(1) p(1) d(1) by (auto simp: in_defs in_DS)
  moreover have "dentry_at s x = Some d" using d(1) by (simp add: in_DS dentry_at_in)
  ultimately show thesis using that f p l(1) by simp
qed

lemma lookup_proper:
  assumes inv: "ns_inv s" and d: "(x, d) \<in> DS s" "proper d" and p: "fattr_at s (getFattr s (d_dir d)) = Some p"
    and ok: "euser = kKfsUserRoot \<or> CanSearch (members s) p euser egroup"
  shows "lookup s (d_dir d) (d_name d) euser egroup True = Some (0, getFattr s (d_fid d), getFattr s (d_dir d), x)"
    "lookup s (d_dir d) (d_name d) euser egroup False = Some (0, getFattr s (d_fid d), 0, x)"
proof -
  obtain f q where f: "fattr_in s (getFattr s (d_fid d)) f" "parent f = getFattr s (d_dir d)" "fattr_in s (parent f) q" "parent f \<noteq> 0"
    "getFattr s (d_fid d) \<noteq> 0" "dentry_at s x = Some d" "x \<noteq> 0" "d_fattr d = 0 \<or> d_fattr d = getFattr s (d_fid d)"
    using proper_entry [OF inv d] by metis
  have g: "getDentry s (d_dir d) (d_name d) = Some x"
    using getDentry_in [OF ns_inv_parts(1) [OF inv]] d(1) by (simp add: in_DS)
  show "lookup s (d_dir d) (d_name d) euser egroup True = Some (0, getFattr s (d_fid d), getFattr s (d_dir d), x)"
    "lookup s (d_dir d) (d_name d) euser egroup False = Some (0, getFattr s (d_fid d), 0, x)"
    using g f fattr_at_in [OF f(1)] p ok by (auto simp: lookup_def canAccess_def Let_def)
qed

subsection \<open>Path names\<close>

text \<open>The names on the way from the root directory to an object.\<close>

inductive comps :: "NS \<Rightarrow> addr \<Rightarrow> string list \<Rightarrow> bool" for s where
  root: "fattr_in s a f \<Longrightarrow> fa_id f = ROOTFID \<Longrightarrow> parent f = 0 \<Longrightarrow> comps s a []"
| step: "fattr_in s a f \<Longrightarrow> fa_id f \<noteq> ROOTFID \<Longrightarrow> parent f \<noteq> 0 \<Longrightarrow> fattr_in s (parent f) p \<Longrightarrow> fa_type p = KFS_DIR \<Longrightarrow> comps s (parent f) ns \<Longrightarrow>
    dentry_in s x d \<Longrightarrow> d_dir d = fa_id p \<Longrightarrow> d_fid d = fa_id f \<Longrightarrow> proper d \<Longrightarrow> legalname (d_name d) \<Longrightarrow> comps s a (ns @ [d_name d])"

fun join :: "string list \<Rightarrow> string" where
  "join [] = []"
| "join [n] = n"
| "join (n # ns) = n @ ''/'' @ join ns"

lemma join_snoc: "join (ns @ [n]) = (if ns = [] then n else join ns @ ''/'' @ n)"
  by (induction ns rule: join.induct) auto

lemma join_last: "join (ns @ [n @ ''/'' @ m]) = join (ns @ [n, m])"
proof -
  have "join (ns @ [n, m]) = join ((ns @ [n]) @ [m])" by simp
  then show ?thesis unfolding join_snoc by simp
qed

lemma comps_exist:
  assumes inv: "ns_inv s" and f: "fattr_in s a f"
  shows "\<exists>ns. comps s a ns"
proof -
  note P = ns_inv_parts [OF inv]
  have "(a, strip f) \<in> FS s" using f by (auto simp: in_FS)
  then have "up (FS s) a" by (rule fs_up [OF P(4)])
  then show ?thesis
  proof (induction rule: up.induct)
    case (root a g)
    obtain b h where h: "(b, h) \<in> FS s" "fa_id h = ROOTFID" "parent h = 0" using fs_root [OF P(4)] by blast
    have "a = b" "g = h" using fs_ids [OF P(3) root(1) h(1)] root(2) h(2) by auto
    moreover obtain f where f: "fattr_in s b f" "strip f = h" using h(1) by (auto simp: in_FS)
    moreover have "comps s b []" by (rule comps.root [OF f(1)]) (use h f(2) in auto)
    ultimately show ?case by blast
  next
    case (step a g)
    obtain f where f: "fattr_in s a f" "strip f = g" using step(1) by (auto simp: in_FS)
    obtain x d where d: "(x, d) \<in> DS s" "proper d" "d_fid d = fa_id g" using fs_link_some [OF P(5) step(1,2)] by blast
    have "a = getFattr s (d_fid d)" using getFattr_in [OF P(1) f(1)] d(3) f(2) by auto
    then obtain p where p: "fattr_in s (parent f) p" "fa_id p = d_dir d" "fa_type p = KFS_DIR" "parent f \<noteq> 0"
      using proper_entry [OF inv d(1,2)] f(1) fattr_at_in by (metis option.inject)
    obtain ns where ns: "comps s (parent g) ns" using step.IH by blast
    have "legalname (d_name d)" using inv d(1,2) by (auto simp: ns_inv_def ns_sets_def)
    then have "comps s a (ns @ [d_name d])"
      by (intro comps.step [OF f(1) _ p(4,1,3), of ns x d]) (use f(2) p d ns step(2) in \<open>auto simp: in_DS\<close>)
    then show ?case by blast
  qed
qed

lemma name_of_id_unique:
  assumes "\<forall>b\<in>set as. \<exists>e. dentry_at s b = Some e \<and> (d_fid e = i \<longrightarrow> d_name e \<noteq> kThisDir \<longrightarrow> d_name e \<noteq> kParentDir \<longrightarrow> d_name e = n)"
    "\<exists>b\<in>set as. \<exists>e. dentry_at s b = Some e \<and> d_fid e = i \<and> d_name e \<noteq> kThisDir \<and> d_name e \<noteq> kParentDir"
  shows "name_of_id s i as = Some (Some n)"
  using assms
proof (induction as)
  case (Cons b as)
  obtain e where e: "dentry_at s b = Some e" "d_fid e = i \<longrightarrow> d_name e \<noteq> kThisDir \<longrightarrow> d_name e \<noteq> kParentDir \<longrightarrow> d_name e = n"
    using Cons.prems(1) by auto
  show ?case
  proof (cases "d_fid e = i \<and> d_name e \<noteq> kThisDir \<and> d_name e \<noteq> kParentDir")
    case True
    then show ?thesis using e by simp
  next
    case False
    then have "\<exists>b\<in>set as. \<exists>e. dentry_at s b = Some e \<and> d_fid e = i \<and> d_name e \<noteq> kThisDir \<and> d_name e \<noteq> kParentDir"
      using Cons.prems(2) e(1) by auto
    then have "name_of_id s i as = Some (Some n)" using Cons.IH Cons.prems(1) by simp
    then show ?thesis using False e(1) by auto
  qed
qed simp

lemma getPathname_loop_comps:
  assumes inv: "ns_inv s" and c: "comps s a ns"
  shows "getPathname_loop s a path = Some (''/'' @ join (if path = [] then ns else ns @ [path]))"
  using c
proof (induction arbitrary: path rule: comps.induct)
  case (root a f)
  then show ?case using fattr_at_in [OF root(1)] by (subst getPathname_loop.simps) simp
next
  case (step a f p ns x d)
  note P = ns_inv_parts [OF inv]
  let ?es = "all_pm (PartialMatch_of KFS_DENTRY (fa_id p)) (tree s)"
  have es: "set ?es = {a. \<exists>d. dentry_in s a d \<and> d_dir d = fa_id p}" by (rule dir_entries(1) [OF P(1)])
  have x: "x \<in> set ?es" unfolding es using step by blast
  have nd: "d_name d \<noteq> kThisDir" "d_name d \<noteq> kParentDir" "d_name d \<noteq> []" using step(10,11) by (auto simp: proper_def)
  have uniq: "d_name e = d_name d" if b: "b \<in> set ?es" "dentry_at s b = Some e" "d_fid e = fa_id f" "d_name e \<noteq> kThisDir" "d_name e \<noteq> kParentDir" for b e
  proof -
    have e: "dentry_in s b e" using b(1,2) dentry_at_in unfolding es by fastforce
    have "d_name e \<noteq> ''/''" using fs_slash [OF P(6), of b e] e step(2) b(3) by (auto simp: in_DS)
    then have "proper e" using b(4,5) by (simp add: proper_def)
    then have "b = x" using fs_link_one [OF P(5), of b e x d] e step b(3) by (auto simp: in_DS)
    then show ?thesis using b(2) dentry_at_in [OF step(7)] by simp
  qed
  have "name_of_id s (fa_id f) ?es = Some (Some (d_name d))"
  proof (rule name_of_id_unique)
    show "\<forall>b\<in>set ?es. \<exists>e. dentry_at s b = Some e \<and>
        (d_fid e = fa_id f \<longrightarrow> d_name e \<noteq> kThisDir \<longrightarrow> d_name e \<noteq> kParentDir \<longrightarrow> d_name e = d_name d)"
    proof
      fix b assume b: "b \<in> set ?es"
      then obtain e where "dentry_in s b e" unfolding es by blast
      then show "\<exists>e. dentry_at s b = Some e \<and>
          (d_fid e = fa_id f \<longrightarrow> d_name e \<noteq> kThisDir \<longrightarrow> d_name e \<noteq> kParentDir \<longrightarrow> d_name e = d_name d)"
        using uniq [OF b] dentry_at_in by blast
    qed
    show "\<exists>b\<in>set ?es. \<exists>e. dentry_at s b = Some e \<and> d_fid e = fa_id f \<and> d_name e \<noteq> kThisDir \<and> d_name e \<noteq> kParentDir"
      using x dentry_at_in [OF step(7)] step(9) nd by blast
  qed
  moreover have "?es \<noteq> []" using x by auto
  ultimately have "getPathname_loop s a path = getPathname_loop s (parent f) (if path = [] then d_name d else d_name d @ ''/'' @ path)"
    using fattr_at_in [OF step(1)] fattr_at_in [OF step(4)] step(3,5) by (subst getPathname_loop.simps) (simp add: Let_def)
  also have "\<dots> = Some (''/'' @ join (ns @ [if path = [] then d_name d else d_name d @ ''/'' @ path]))"
    using step.IH nd(3) by simp
  also have "join (ns @ [if path = [] then d_name d else d_name d @ ''/'' @ path]) = join (if path = [] then ns @ [d_name d] else (ns @ [d_name d]) @ [path])"
    using join_last [of ns "d_name d" path] by simp
  finally show ?case .
qed

lemma getPathname_comps:
  "ns_inv s \<Longrightarrow> comps s a ns \<Longrightarrow> allowFidToPathConversion s \<Longrightarrow> getPathname s a = Some (''/'' @ join ns)"
  using getPathname_loop_comps [of s a ns "[]"] ns_inv_parts(1) [of s] live_addr [of s a]
  by (auto simp: getPathname_def in_defs elim: comps.cases)

lemma getPathname_returns: "ns_inv s \<Longrightarrow> fattr_in s a f \<Longrightarrow> \<exists>path. getPathname s a = Some path"
  using comps_exist [of s a f] getPathname_comps [of s a] by (cases "allowFidToPathConversion s") (auto simp: getPathname_def)

text \<open>So the path cache can be cleaned, which changes nothing else.\<close>

lemma invalidatePathCache_ok:
  assumes inv: "ns_inv s" and f: "fattr_in s a f"
  shows "\<exists>c. invalidatePathCache pathname name a flag s = Some (s\<lparr>pathCache := c\<rparr>)"
proof -
  note P = ns_inv_parts [OF inv]
  have F: "(a, strip f) \<in> FS s" using f by (auto simp: in_FS)
  have root: "parent f = 0 \<Longrightarrow> fa_id f = ROOTFID" using fs_parent [OF P(4) F] by auto
  have "\<exists>path. (if parent f \<noteq> 0 then getPathname s (parent f) else Some ''/'') = Some path"
  proof (cases "parent f = 0")
    case False
    obtain b h where h: "(b, h) \<in> FS s" "fa_id h = ROOTFID" "parent h = 0" using fs_root [OF P(4)] by blast
    have "fa_id f \<noteq> ROOTFID"
    proof
      assume "fa_id f = ROOTFID"
      then have "strip f = h" using fs_ids [OF P(3) F h(1)] h(2) by simp
      then show False using False h(3) by auto
    qed
    then obtain g where "(parent f, g) \<in> FS s" using fs_parent [OF P(4) F] by auto
    then show ?thesis using getPathname_returns [OF inv] by (auto simp: in_FS)
  qed simp
  then obtain path where path: "(if parent f \<noteq> 0 then getPathname s (parent f) else Some ''/'') = Some path" by blast
  show ?thesis
  proof (cases "pathCache s = []")
    case True
    then show ?thesis by (intro exI [of _ "pathCache s"]) (simp add: invalidatePathCache_def)
  next
    case False
    have pn: "\<not> (parent f = 0 \<and> fa_id f \<noteq> ROOTFID)" using root by blast
    define q where "q = (if path = [] then [] else if path = ''/'' then path @ name else path @ ''/'' @ name)"
    have "invalidatePathCache pathname name a flag s =
        (if q = [] then Some (s\<lparr>pathCache := []\<rparr>)
         else if \<not> flag \<or> fa_type f \<noteq> KFS_DIR then Some (s\<lparr>pathCache := cache_erase q (pathCache s)\<rparr>)
         else Some (s\<lparr>pathCache := erase_prefix (if last q \<noteq> CHR ''/'' then q @ ''/'' else q) (cache_erase q (pathCache s))\<rparr>))"
    proof (cases "parent f = 0")
      case True
      then have "path = ''/''" using path by simp
      then show ?thesis using True False fattr_at_in [OF f] root by (simp add: invalidatePathCache_def char_at_def Let_def q_def)
    next
      case p: False
      then show ?thesis
        using False fattr_at_in [OF f] path by (simp add: invalidatePathCache_def char_at_def q_def [symmetric] Let_def)
    qed
    then show ?thesis by (cases "q = []"; cases "\<not> flag \<or> fa_type f \<noteq> KFS_DIR") (simp only: if_True if_False simp_thms, blast)+
  qed
qed

subsection \<open>Unlinking\<close>

lemma kinds_differ: "fattr_at s a = Some f \<Longrightarrow> dentry_at s b = Some d \<Longrightarrow> a \<noteq> b"
  by (auto simp: fattr_at_def dentry_at_def split: option.splits Meta.splits)

definition unowned :: "(addr \<times> MetaChunkInfo) set \<Rightarrow> addr \<Rightarrow> bool" where
  "unowned C a \<longleftrightarrow> (\<forall>b c. (b, c) \<in> C \<longrightarrow> c_fattr c \<noteq> a)"

lemma unownedD: "unowned C a \<Longrightarrow> (b, c) \<in> C \<Longrightarrow> c_fattr c \<noteq> a"
  unfolding unowned_def by blast

lemma dir_unowned:
  assumes "fs_refs F D C" "(a, f) \<in> F" "fa_type f = KFS_DIR"
  shows "unowned C a"
  unfolding unowned_def
proof (intro allI impI notI)
  fix b c assume c: "(b, c) \<in> C" "c_fattr c = a"
  then obtain g where "(a, g) \<in> F" "fa_type g = KFS_FILE" using fs_chunk [OF assms(1) c(1)] by auto
  then show False using fs_ids [OF assms(1,2), of a g] assms(3) by auto
qed

lemma stage_del_unowned:
  assumes "stage s F D C" "hgt (tree s) \<le> 16" "(a, strip f) \<in> F" "fattr_at s a = Some f" "unowned C a"
  shows "\<exists>t. let s' = s\<lparr>tree := t, objs := (objs s)(a := None)\<rparr> in
    del_meta (MFattr f) s = Some (0, s') \<and> hgt t \<le> 16 \<and> stage s' (F - {(a, strip f)}) D C"
  by (rule stage_del_fattr [OF assms(1-4)]) (rule unownedD [OF assms(5)])

lemma unlink_entry:
  assumes st: "stage s F D C" "hgt (tree s) \<le> 16" and d: "(x, d) \<in> D" and f: "fattr_at s a = Some f"
  shows "\<exists>t. let s' = s\<lparr>tree := t, objs := (objs s)(x := None)\<rparr> in
    unlink (d_dir d) (d_name d) a True s = Some s' \<and> hgt (tree s') \<le> 16 \<and> stage s' F (D - {(x, d)}) C"
  using stage_del_dentry [OF st d, of "new_MetaDentry (d_dir d) (d_name d) (fa_id f) 0"] f by (auto simp: unlink_def Let_def)

lemma unlink_object:
  assumes st: "stage s F D C" "hgt (tree s) \<le> 16" and d: "(x, d) \<in> D" and f: "fattr_at s a = Some f" "(a, strip f) \<in> F"
    and ch: "unowned C a"
  shows "\<exists>t. let s' = s\<lparr>tree := t, objs := (objs s)(x := None, a := None)\<rparr> in
    unlink (d_dir d) (d_name d) a False s = Some s' \<and> hgt (tree s') \<le> 16 \<and> stage s' (F - {(a, strip f)}) (D - {(x, d)}) C"
proof -
  let ?e = "new_MetaDentry (d_dir d) (d_name d) (fa_id f) 0"
  obtain t1 where t1: "del_meta (MDentry ?e) s = Some (0, s\<lparr>tree := t1, objs := (objs s)(x := None)\<rparr>)" "hgt t1 \<le> 16"
    "stage (s\<lparr>tree := t1, objs := (objs s)(x := None)\<rparr>) F (D - {(x, d)}) C"
    using stage_del_dentry [OF st d, of ?e] by (auto simp: Let_def)
  let ?s = "s\<lparr>tree := t1, objs := (objs s)(x := None)\<rparr>"
  have "a \<noteq> x" using stage_dentry [OF st(1), of x d] kinds_differ [OF f(1)] d by blast
  then have a1: "fattr_at ?s a = Some f" using f(1) by (simp add: fattr_at_def)
  obtain t2 where t2: "del_meta (MFattr f) ?s = Some (0, ?s\<lparr>tree := t2, objs := (objs ?s)(a := None)\<rparr>)" "hgt t2 \<le> 16"
    "stage (?s\<lparr>tree := t2, objs := (objs ?s)(a := None)\<rparr>) (F - {(a, strip f)}) (D - {(x, d)}) C"
    using stage_del_unowned [OF t1(3) _ f(2) a1 ch] t1(2) by (auto simp: Let_def)
  then show ?thesis using t1(1) f(1) a1 by (intro exI [of _ t2]) (simp add: unlink_def Let_def)
qed

subsection \<open>Removing a directory\<close>

lemma nonneg_del: "all_nonneg s \<Longrightarrow> objs s' = (objs s)(x := None) \<Longrightarrow> all_nonneg s'"
  by (auto simp: all_nonneg_def fattr_at_def)

lemma rmdir_unlinks:
  assumes st: "stage s F D C" "hgt (tree s) \<le> 16" and ok: "fs_ok F D C" and f: "(a, strip f) \<in> F" "fattr_at s a = Some f" "fa_type f = KFS_DIR"
    and d: "(x, d) \<in> D" "proper d" "d_fid d = fa_id f"
    and e: "(y, e) \<in> D" "d_dir e = fa_id f" "d_name e = kThisDir" and g: "(z, g) \<in> D" "d_dir g = fa_id f" "d_name g = kParentDir"
    and empty: "\<forall>u k. (u, k) \<in> D \<longrightarrow> d_dir k = fa_id f \<longrightarrow> u = y \<or> u = z"
  shows "\<exists>s1 s2 s3 t. unlink (fa_id f) kThisDir a True s = Some s1 \<and> unlink (fa_id f) kParentDir a True s1 = Some s2 \<and>
    unlink (d_dir d) (d_name d) a False s2 = Some s3 \<and> s3 = s\<lparr>tree := t, objs := (objs s)(y := None, z := None, x := None, a := None)\<rparr> \<and>
    hgt t \<le> 16 \<and> stage s3 (F - {(a, strip f)}) (D - {(y, e)} - {(z, g)} - {(x, d)}) C \<and>
    fs_ok (F - {(a, strip f)}) (D - {(y, e)} - {(z, g)} - {(x, d)}) C"
proof -
  have o: "fs_refs F D C" "fs_links F D" using ok by (simp_all add: fs_ok_def)
  have nd: "(z, g) \<noteq> (y, e)" "(x, d) \<noteq> (y, e)" "(x, d) \<noteq> (z, g)" using e(3) g(3) d(2) by (auto simp: proper_def)
  have ax: "a \<noteq> u" if "(u, k) \<in> D" for u k
    using stage_dentry [OF st(1), of u k] that kinds_differ [OF f(2)] by blast
  obtain t1 where t1: "unlink (fa_id f) kThisDir a True s = Some (s\<lparr>tree := t1, objs := (objs s)(y := None)\<rparr>)" "hgt t1 \<le> 16"
    "stage (s\<lparr>tree := t1, objs := (objs s)(y := None)\<rparr>) F (D - {(y, e)}) C"
    using unlink_entry [OF st e(1) f(2)] e(2,3) by (auto simp: Let_def)
  let ?s1 = "s\<lparr>tree := t1, objs := (objs s)(y := None)\<rparr>"
  have a1: "fattr_at ?s1 a = Some f" using f(2) ax [OF e(1)] by (simp add: fattr_at_def)
  obtain t2 where t2: "unlink (fa_id f) kParentDir a True ?s1 = Some (s\<lparr>tree := t2, objs := (objs s)(y := None, z := None)\<rparr>)" "hgt t2 \<le> 16"
    "stage (s\<lparr>tree := t2, objs := (objs s)(y := None, z := None)\<rparr>) F (D - {(y, e)} - {(z, g)}) C"
    using unlink_entry [OF t1(3) _ _ a1, of z g] t1(2) g nd(1) by (auto simp: Let_def)
  let ?s2 = "s\<lparr>tree := t2, objs := (objs s)(y := None, z := None)\<rparr>"
  have a2: "fattr_at ?s2 a = Some f" using f(2) ax [OF e(1)] ax [OF g(1)] by (simp add: fattr_at_def)
  have ch: "unowned C a" using dir_unowned [OF o(1) f(1)] f(3) by simp
  obtain t3 where t3: "unlink (d_dir d) (d_name d) a False ?s2 = Some (s\<lparr>tree := t3, objs := (objs s)(y := None, z := None, x := None, a := None)\<rparr>)"
    "hgt t3 \<le> 16"
    "stage (s\<lparr>tree := t3, objs := (objs s)(y := None, z := None, x := None, a := None)\<rparr>) (F - {(a, strip f)}) (D - {(y, e)} - {(z, g)} - {(x, d)}) C"
    using unlink_object [OF t2(3) _ _ a2 f(1) ch, of x d] t2(2) d(1) nd(2,3) by (auto simp: Let_def)
  have fid: "fa_id (strip f) = fa_id f" by simp
  have A1: "about (fa_id f) D = {(x, d), (y, e), (z, g)}"
    by (rule about_dir(1) [OF ok f(1), unfolded fid, OF d e g]) (use empty in blast)
  have A2: "parent h \<noteq> a" if "(b, h) \<in> F" "fa_id h \<noteq> ROOTFID" for b h
    by (rule about_dir(2) [OF ok f(1), unfolded fid, OF d e g _ that]) (use empty in blast)
  have nr: "fa_id (strip f) \<noteq> ROOTFID" using fs_link_parent [OF o(2) d(1,2) f(1)] d(3) by simp
  have "fs_ok (F - {(a, strip f)}) (D - about (fa_id (strip f)) D) C"
    by (rule fs_ok_remove [OF ok f(1) nr]) (rule A2, assumption+, rule unownedD [OF ch])
  moreover have "D - about (fa_id (strip f)) D = D - {(y, e)} - {(z, g)} - {(x, d)}" unfolding fid A1 by auto
  ultimately show ?thesis using t1(1) t2(1) t3 by (intro exI [of _ ?s1] exI [of _ ?s2] exI [of _ "s\<lparr>tree := t3, objs := (objs s)(y := None, z := None, x := None, a := None)\<rparr>"] exI [of _ t3]) simp
qed

definition key_of :: "addr \<times> MetaDentry \<Rightarrow> fid_t \<times> string" where
  "key_of e = (d_dir (snd e), d_name (snd e))"

lemma names_less:
  assumes st: "stage s F D C" "stage s' F' (D - E) C'" and E: "E \<subseteq> D" and u: "names_uniq D"
  shows "names s' k = (if k \<in> key_of ` E then None else names s k)"
proof (cases "k \<in> key_of ` E")
  case True
  then obtain x d where d: "(x, d) \<in> E" "k = (d_dir d, d_name d)" by (auto simp: key_of_def)
  have "free (D - E) (d_dir d) (d_name d)"
    unfolding free_def
  proof (intro allI impI notI)
    fix y e assume e: "(y, e) \<in> D - E" "d_dir e = d_dir d \<and> d_name e = d_name d"
    have "(y, e) \<in> D" "(x, d) \<in> D" using e(1) d(1) E by blast+
    from names_uniqD [OF u this disjI1 [OF e(2)]] show False using e(1) d(1) by simp
  qed
  then show ?thesis using names_none(1) [OF st(2)] d(2) True by simp
next
  case False
  have "names s' k = Some v \<longleftrightarrow> names s k = Some v" for v
  proof
    assume "names s' k = Some v"
    then show "names s k = Some v" unfolding names_iff [OF st(1)] names_iff [OF st(2)] by blast
  next
    assume "names s k = Some v"
    then obtain x d where d: "(x, d) \<in> D" "d_dir d = fst k" "d_name d = snd k" "d_fid d = v" unfolding names_iff [OF st(1)] by blast
    then have "key_of (x, d) = k" by (simp add: key_of_def)
    then have "(x, d) \<in> D - E" using False d(1) by blast
    then show "names s' k = Some v" unfolding names_iff [OF st(2)] using d by blast
  qed
  then have "names s' k = names s k" by (metis option.collapse option.distinct(1))
  then show ?thesis using False by simp
qed

lemma anc_objs:
  assumes "objs s' = objs s"
  shows "anc s' a ps = anc s a ps"
proof -
  have at: "fattr_at s' = fattr_at s" by (rule at_cong(1) [OF assms])
  show ?thesis by (induction ps arbitrary: a) (simp_all add: at cong: option.case_cong)
qed

lemma acct_objs:
  assumes "objs s' = objs s" "updatePathSpaceUsage s' = updatePathSpaceUsage s"
  shows "acct_ok s' a n f d = acct_ok s a n f d"
  unfolding acct_ok_def can_bump_def at_cong(1) [OF assms(1)] anc_objs [OF assms(1)] assms(2) by simp

lemma setFileSize_ok:
  assumes "fattr_at s a = Some f" "0 \<le> filesize f \<or> fa_type f = KFS_FILE" "acct_ok s a (- getFileSize f) nf nd"
  shows "\<exists>s'. setFileSize a 0 nf nd s = Some s'"
  using setFileSize_similar [of s a f 0 nf nd] assms by auto

text \<open>The part of \<open>rmdir\<close> after the checks.\<close>

definition rmdir_tail :: "fid_t \<Rightarrow> string \<Rightarrow> string \<Rightarrow> addr \<Rightarrow> fid_t \<Rightarrow> NS \<Rightarrow> (int \<times> NS) option" where
  "rmdir_tail dir dname pathname fa i s =
     do { s \<leftarrow> invalidatePathCache pathname dname fa False s;
          s \<leftarrow> setFileSize fa 0 0 (- 1) (UpdateNumDirs (- 1) s);
          s \<leftarrow> unlink i kThisDir fa True s;
          s \<leftarrow> unlink i kParentDir fa True s;
          s \<leftarrow> unlink dir dname fa False s;
          Some (0, s) }"

lemma dots_of_dir:
  assumes inv: "ns_inv s" and f: "fattr_in s a f" "fa_type f = KFS_DIR"
  obtains y e z g where "(y, e) \<in> DS s" "d_dir e = fa_id f" "d_name e = kThisDir" "(z, g) \<in> DS s" "d_dir g = fa_id f" "d_name g = kParentDir" "y \<noteq> z"
proof -
  note P = ns_inv_parts [OF inv]
  have F: "(a, strip f) \<in> FS s" using f(1) by (auto simp: in_FS)
  obtain y e z g where *: "(y, e) \<in> DS s" "d_dir e = fa_id f" "d_name e = kThisDir" "(z, g) \<in> DS s" "d_dir g = fa_id f" "d_name g = kParentDir"
    using fs_dots_in [OF P(6) F] f(2) by auto
  moreover have "y \<noteq> z" using names_uniqD [OF P(8) *(1) *(4)] *(3,6) by auto
  ultimately show thesis using that by blast
qed

lemma proper_fattr:
  assumes "ns_inv s" "(x, d) \<in> DS s" "proper d" "fattr_at s (getFattr s (d_fid d)) = Some f"
  shows "fattr_in s (getFattr s (d_fid d)) f" "fa_id f = d_fid d" "parent f = getFattr s (d_dir d)" "getFattr s (d_fid d) \<noteq> 0"
proof -
  obtain g where g: "fattr_in s (getFattr s (d_fid d)) g" "fa_id g = d_fid d" "parent g = getFattr s (d_dir d)" "getFattr s (d_fid d) \<noteq> 0"
    using proper_entry [OF assms(1-3)] by metis
  then have "g = f" using assms(4) fattr_at_in [OF g(1)] by simp
  then show "fattr_in s (getFattr s (d_fid d)) f" "fa_id f = d_fid d" "parent f = getFattr s (d_dir d)" "getFattr s (d_fid d) \<noteq> 0" using g by simp_all
qed

lemma ns_sets_del:
  assumes "ns_sets F D C i" "fs_ok F' (D - E) C'" "\<And>a f. (a, f) \<in> F' \<Longrightarrow> fa_id f \<le> i" "\<And>x d. (x, d) \<in> E \<Longrightarrow> d_name d \<noteq> ''/''"
  shows "ns_sets F' (D - E) C' i"
proof -
  obtain x d where d: "(x, d) \<in> D" "d_dir d = ROOTFID" "d_name d = ''/''" using assms(1) by (auto simp: ns_sets_def)
  then have "(x, d) \<in> D - E" using assms(4) by blast
  then show ?thesis using assms(1-3) d(2,3) unfolding ns_sets_def by blast
qed

lemma rmdir_tail_ok:
  assumes inv: "ns_inv s" and h: "hgt (tree s) \<le> 16" and d: "(x, d) \<in> DS s" "proper d"
    and f: "fattr_at s (getFattr s (d_fid d)) = Some f" "fa_type f = KFS_DIR" and empty: "emptydir s (d_fid d)"
    and r: "rmdir_tail (d_dir d) (d_name d) pathname (getFattr s (d_fid d)) (d_fid d) s \<noteq> None \<or> acct_ok s (getFattr s (d_fid d)) (- getFileSize f) 0 (- 1)"
  shows "\<exists>s'. rmdir_tail (d_dir d) (d_name d) pathname (getFattr s (d_fid d)) (d_fid d) s = Some (0, s') \<and> ns_inv s' \<and> hgt (tree s') \<le> 16 \<and>
    names s' = (names s)((d_dir d, d_name d) := None, (d_fid d, kThisDir) := None, (d_fid d, kParentDir) := None) \<and>
    kind s' = (kind s)(d_fid d := None) \<and> FS s' \<subseteq> FS s \<and> DS s' \<subseteq> DS s"
proof -
  note P = ns_inv_parts [OF inv]
  let ?a = "getFattr s (d_fid d)" and ?i = "d_fid d"
  have fin: "fattr_in s ?a f" "fa_id f = ?i" using proper_fattr [OF inv d f(1)] by simp_all
  obtain c where c: "invalidatePathCache pathname (d_name d) ?a False s = Some (s\<lparr>pathCache := c\<rparr>)"
    using invalidatePathCache_ok [OF inv fin(1)] by blast
  define s1 where "s1 = UpdateNumDirs (- 1) (s\<lparr>pathCache := c\<rparr>)"
  have s1: "objs s1 = objs s" "tree s1 = tree s" "fileID s1 = fileID s" "same_store s s1" "updatePathSpaceUsage s1 = updatePathSpaceUsage s"
    by (simp_all add: s1_def UpdateNumDirs_def same_store_def)
  have a1: "fattr_at s1 = fattr_at s" by (rule at_cong) (rule s1(1))
  have nn1: "all_nonneg s1" using P(9) by (simp add: all_nonneg_def a1)
  have nf: "nonneg f" using P(9) f(1) by (simp add: all_nonneg_def)
  have "\<exists>s2. setFileSize ?a 0 0 (- 1) s1 = Some s2"
    using r
  proof
    assume "rmdir_tail (d_dir d) (d_name d) pathname ?a ?i s \<noteq> None"
    then show ?thesis by (cases "setFileSize ?a 0 0 (- 1) s1") (simp_all add: rmdir_tail_def c s1_def)
  next
    assume "acct_ok s ?a (- getFileSize f) 0 (- 1)"
    then show ?thesis using setFileSize_ok [of s1 ?a f 0 "- 1"] f nf [unfolded nonneg_def] acct_objs [OF s1(1,5)] by (simp add: a1)
  qed
  then obtain s2 where s2: "setFileSize ?a 0 0 (- 1) s1 = Some s2" by blast
  have c2: "counted s1 s2" by (rule setFileSize_counted [OF s2]) (use nn1 in \<open>simp add: all_nonneg_def\<close>)
  have st2: "stage s2 (FS s) (DS s) (CS s)" by (rule counted_stage [OF c2 stage_same [OF P(7) s1(4)]])
  have t2: "tree s2 = tree s" "fileID s2 = fileID s" using c2 s1(2,3) by (auto simp: counted_def)
  obtain f2 where f2: "fattr_at s2 ?a = Some f2" "strip f2 = strip f"
    using c2 similar_in(7) [of s1 s2 ?a f] f(1) a1 by (auto simp: counted_def)
  have id2: "fa_id f2 = ?i" "fa_type f2 = KFS_DIR" using strip_eq [OF f2(2)] fin(2) f(2) by simp_all
  have F2: "(?a, strip f2) \<in> FS s" using f2(2) fin(1) by (auto simp: in_FS)
  obtain y e z g where dots: "(y, e) \<in> DS s" "d_dir e = ?i" "d_name e = kThisDir" "(z, g) \<in> DS s" "d_dir g = ?i" "d_name g = kParentDir" "y \<noteq> z"
    using dots_of_dir [OF inv fin(1) f(2)] fin(2) by metis
  have only: "\<forall>u k. (u, k) \<in> DS s \<longrightarrow> d_dir k = fa_id f2 \<longrightarrow> u = y \<or> u = z"
    using emptydir_iff [OF P(7) dots(1,2,4,5,7)] empty unfolding id2(1) by simp
  let ?E = "{(y, e), (z, g), (x, d)}"
  have DE: "DS s - {(y, e)} - {(z, g)} - {(x, d)} = DS s - ?E" by auto
  have h2: "hgt (tree s2) \<le> 16" using h t2(1) by simp
  obtain q1 q2 s3 t where u: "unlink ?i kThisDir ?a True s2 = Some q1" "unlink ?i kParentDir ?a True q1 = Some q2"
    "unlink (d_dir d) (d_name d) ?a False q2 = Some s3" "s3 = s2\<lparr>tree := t, objs := (objs s2)(y := None, z := None, x := None, ?a := None)\<rparr>"
    "hgt t \<le> 16" "stage s3 (FS s - {(?a, strip f2)}) (DS s - ?E) (CS s)" "fs_ok (FS s - {(?a, strip f2)}) (DS s - ?E) (CS s)"
    using rmdir_unlinks [OF st2 h2 P(2) F2 f2(1) id2(2) d _ dots(1) _ dots(3,4) _ dots(6) only] dots(2,5) unfolding DE id2(1) by blast
  have "rmdir_tail (d_dir d) (d_name d) pathname ?a ?i s = Some (0, s3)"
    using c s2 u(1-3) by (simp add: rmdir_tail_def s1_def)
  moreover have "ns_inv s3"
  proof (rule ns_invI [OF u(6)])
    show "ns_sets (FS s - {(?a, strip f2)}) (DS s - ?E) (CS s) (fileID s3)"
      using inv P(10) dots(3,6) d(2) u(4) t2(2) by (intro ns_sets_del [OF _ u(7)]) (auto simp: ns_inv_def proper_def)
    show "all_nonneg s3" using counted_nonneg [OF c2 nn1] u(4) by (auto simp: all_nonneg_def fattr_at_def)
  qed
  moreover have "names s3 = (names s)((d_dir d, d_name d) := None, (?i, kThisDir) := None, (?i, kParentDir) := None)"
    using names_less [OF P(7) u(6) _ P(8)] dots d(1) by (intro ext) (auto simp: key_of_def)
  moreover have "kind s3 = (kind s)(?i := None)"
    using kind_delete [OF P(7) u(6) F2 P(3)] id2(1) by simp
  moreover have "FS s3 \<subseteq> FS s" "DS s3 \<subseteq> DS s" using u(6) by (auto simp: stage_def)
  ultimately show ?thesis using u(4,5) by auto
qed

subsection \<open>Deleting chunks\<close>

lemma chunk_key_inj:
  assumes k: "chunk_key i x = chunk_key j y" and x: "0 \<le> x" "x < 2 ^ 63" "CHUNKSIZE dvd x" and y: "0 \<le> y" "y < 2 ^ 63" "CHUNKSIZE dvd y"
  shows "i = j \<and> x = y"
proof -
  have "sint (word_of_int x :: u64) div 16 = sint (word_of_int y :: u64) div 16" "i = j"
    using k by (auto simp: chunk_key_def Key_of_eq)
  then have e: "x div 16 = y div 16" using sint_of_int_nonneg x y by simp
  have "16 dvd x" "16 dvd y" using x(3) y(3) by (auto simp: CHUNKSIZE_def elim: dvd_trans [rotated])
  then have "x = 16 * (x div 16)" "y = 16 * (y div 16)" by simp_all
  then show ?thesis using e \<open>i = j\<close> by metis
qed

definition chunk_gone :: "MetaChunkInfo \<Rightarrow> NS \<Rightarrow> NS" where
  "chunk_gone c s = s\<lparr>csmap := (csmap s)(c_chunkId c := None), leaseIssued := (leaseIssued s)(c_chunkId c := False),
     deleteRPCs := deleteRPCs s @ [c_chunkId c]\<rparr>"

lemma del_chunk_removed:
  assumes inv: "store_inv s" "hgt (tree s) \<le> 16" and c: "chunk_in s a c" and no: "chunkEntryToChange s \<noteq> a"
  shows "\<exists>t. let s0 = s\<lparr>tree := t, objs := (objs s)(a := None)\<rparr> in del_meta (MChunk c) s = Some (0, chunk_gone c s0) \<and> removed s a s0"
proof -
  obtain i where i: "chunk_fid s c = Some i" "(chunk_key i (c_offset c), a) \<in> ents s" "0 \<le> c_offset c" "c_offset c < 2 ^ 63" "CHUNKSIZE dvd c_offset c"
    using chunk_in_ent [OF inv(1) c] by blast
  let ?k = "chunk_key i (c_offset c)"
  have only: "b = a" if "(?k, b) \<in> ents s" "meta_match s (MChunk c) b" for b
    using inv(1) that(1)
  proof (cases rule: ent_cases)
    case (chunk e j)
    then show ?thesis using chunk_key_inj [OF chunk(3)] i store_chunk_unique [OF inv(1) chunk(1) c] by auto
  qed auto
  have match: "meta_match s (MChunk c) a" using c by (simp add: in_defs)
  obtain t where t: "Tree_del ?k (meta_match s (MChunk c)) (tree s) = Some (Some a, t)" "tree_inv t" "hgt t \<le> 16"
    "entries t = remove1 (?k, a) (entries (tree s))"
    using Tree_del_only [OF inv i(2) match only keys_below(3)] by blast
  let ?s = "s\<lparr>tree := t, objs := (objs s)(a := None)\<rparr>"
  have "c_fattr e \<noteq> a" if "chunk_in s b e" for b e
    using chunk_in_ent [OF inv(1) that] c by (auto simp: chunk_fid_def fattr_at_def in_defs)
  then have "store_inv ?s" "\<And>b. live ?s b \<longleftrightarrow> live s b \<and> b \<noteq> a"
    using store_inv_remove [OF inv(1) i(2), of ?s] t(2,4) by simp_all
  moreover have "meta_key s (MChunk c) = Some ?k" using i(1) by (auto simp: chunk_fid_def)
  then have "del_meta (MChunk c) s = Some (0, chunk_gone c ?s)"
    using t(1) c no by (simp add: del_meta_def meta_destroy_def in_defs DeleteChunk_entry_def chunk_gone_def)
  ultimately show ?thesis using t(3) by (intro exI [of _ t]) (auto simp: removed_def Let_def)
qed

text \<open>The file's attributes stay, only chunks leave the tree.\<close>

definition chunks_only :: "NS \<Rightarrow> NS \<Rightarrow> bool" where
  "chunks_only s s' \<longleftrightarrow> fattr_at s' = fattr_at s \<and> fileID s' = fileID s \<and> updatePathSpaceUsage s' = updatePathSpaceUsage s \<and>
     chunkEntryToChange s' = chunkEntryToChange s \<and> members s' = members s"

lemma stage_del_chunk:
  assumes st: "stage s F D C" "hgt (tree s) \<le> 16" and c: "(a, c) \<in> C" and no: "chunkEntryToChange s = 0"
  shows "\<exists>s'. DeleteChunk a s = Some s' \<and> hgt (tree s') \<le> 16 \<and> stage s' F D (C - {(a, c)}) \<and> chunks_only s s'"
proof -
  have inv: "store_inv s" and ca: "chunk_in s a c" using stage_in [OF st(1)] c by auto
  have na: "chunkEntryToChange s \<noteq> a" using no stage_below(3) [OF st(1) c] by simp
  obtain t where t: "del_meta (MChunk c) s = Some (0, chunk_gone c (s\<lparr>tree := t, objs := (objs s)(a := None)\<rparr>))"
    "removed s a (s\<lparr>tree := t, objs := (objs s)(a := None)\<rparr>)" using del_chunk_removed [OF inv st(2) ca na] by (auto simp: Let_def)
  let ?s0 = "s\<lparr>tree := t, objs := (objs s)(a := None)\<rparr>"
  note v = removed_views [OF t(2)]
  have "F = {(b, f) \<in> F. b \<noteq> a}" "D = {(b, f) \<in> D. b \<noteq> a}" "C - {(a, c)} = {(b, f) \<in> C. b \<noteq> a}"
    using st(1) ca by (auto simp: stage_def FS_def CS_def DS_def in_defs)
  then have "stage ?s0 F D (C - {(a, c)})" using v st(1) by (simp add: stage_def)
  then have "stage (chunk_gone c ?s0) F D (C - {(a, c)})" by (rule stage_same) (simp add: same_store_def chunk_gone_def)
  moreover have "DeleteChunk a s = Some (chunk_gone c ?s0)" using t(1) chunk_at_in [OF ca] by (simp add: DeleteChunk_def)
  moreover have "chunks_only s (chunk_gone c ?s0)"
    using ca by (auto simp: chunks_only_def chunk_gone_def fattr_at_def in_defs fun_eq_iff)
  ultimately show ?thesis using v(5) by (auto simp: chunk_gone_def)
qed

lemma stage_del_chunks:
  "stage s F D C \<Longrightarrow> hgt (tree s) \<le> 16 \<Longrightarrow> chunkEntryToChange s = 0 \<Longrightarrow> distinct as \<Longrightarrow> set as \<subseteq> fst ` C \<Longrightarrow>
   \<exists>s'. DeleteChunks as s = Some s' \<and> hgt (tree s') \<le> 16 \<and> stage s' F D {(x, c) \<in> C. x \<notin> set as} \<and> chunks_only s s'"
proof (induction as arbitrary: s C)
  case Nil
  then show ?case by (simp add: chunks_only_def)
next
  case (Cons a as)
  obtain c where c: "(a, c) \<in> C" using Cons.prems(5) by auto
  obtain s1 where s1: "DeleteChunk a s = Some s1" "hgt (tree s1) \<le> 16" "stage s1 F D (C - {(a, c)})" "chunks_only s s1"
    using stage_del_chunk [OF Cons.prems(1,2) c Cons.prems(3)] by blast
  have "set as \<subseteq> fst ` (C - {(a, c)})" using Cons.prems(4,5) by (force simp: image_iff)
  then obtain s2 where s2: "DeleteChunks as s1 = Some s2" "hgt (tree s2) \<le> 16" "stage s2 F D {(x, d) \<in> C - {(a, c)}. x \<notin> set as}" "chunks_only s1 s2"
    using Cons.IH [OF s1(3,2)] s1(4) Cons.prems(3,4) by (auto simp: chunks_only_def)
  have "e = c" if "(a, e) \<in> C" for e
    using that c Cons.prems(1) by (auto simp: stage_def CS_def in_defs)
  then have "{(x, d) \<in> C - {(a, c)}. x \<notin> set as} = {(x, d) \<in> C. x \<notin> set (a # as)}" by auto
  then show ?case using s1(1,4) s2 by (intro exI [of _ s2]) (auto simp: chunks_only_def)
qed

lemma pm_eq_chunk:
  assumes inv: "store_inv s" and e: "(k, a) \<in> ents s"
  shows "pm_eq (PartialMatch_of KFS_CHUNKINFO i) k \<longleftrightarrow> (\<exists>c. chunk_in s a c \<and> chunk_fid s c = Some i)"
  using inv e
  by (cases rule: ent_cases) (auto simp: fattr_key_def dentry_key_def chunk_key_def ns_pm_eq ns_types_def in_defs)

lemma file_chunks:
  assumes inv: "store_inv s"
  shows "set (getalloc_all s i) = {a. \<exists>c. chunk_in s a c \<and> chunk_fid s c = Some i}" "distinct (getalloc_all s i)"
proof -
  have eq: "getalloc_all s i = map snd (filter (\<lambda>e. pm_eq (PartialMatch_of KFS_CHUNKINFO i) (fst e)) (entries (tree s)))"
    unfolding getalloc_all_def all_pm_extractAll using inv store_keys_ok [OF inv] by (intro all_by_pm) (simp_all add: ns_types_def)
  show "distinct (getalloc_all s i)" unfolding eq using store_distinct [OF inv] by (simp add: distinct_map_filter)
  show "set (getalloc_all s i) = {a. \<exists>c. chunk_in s a c \<and> chunk_fid s c = Some i}"
  proof (intro set_eqI iffI)
    fix a assume "a \<in> set (getalloc_all s i)"
    then obtain k where "(k, a) \<in> ents s" "pm_eq (PartialMatch_of KFS_CHUNKINFO i) k" unfolding eq by auto
    then show "a \<in> {a. \<exists>c. chunk_in s a c \<and> chunk_fid s c = Some i}" using pm_eq_chunk [OF inv] by blast
  next
    fix a assume "a \<in> {a. \<exists>c. chunk_in s a c \<and> chunk_fid s c = Some i}"
    then obtain c where c: "chunk_in s a c" "chunk_fid s c = Some i" by blast
    obtain j where "(chunk_key j (c_offset c), a) \<in> ents s" using chunk_in_ent [OF inv c(1)] by blast
    moreover from this have "pm_eq (PartialMatch_of KFS_CHUNKINFO i) (chunk_key j (c_offset c))" using pm_eq_chunk [OF inv] c by blast
    ultimately show "a \<in> set (getalloc_all s i)" unfolding eq by force
  qed
qed

lemma fs_ok_chunks: "fs_ok F D C \<Longrightarrow> C' \<subseteq> C \<Longrightarrow> fs_ok F D C'"
  unfolding fs_ok_def fs_refs_def by blast

lemma acct_fattr:
  assumes "fattr_at s' = fattr_at s" "updatePathSpaceUsage s' = updatePathSpaceUsage s"
  shows "acct_ok s' a n f d = acct_ok s a n f d"
proof -
  have "anc s' a ps = anc s a ps" for ps
    by (induction ps arbitrary: a) (simp_all add: assms(1) cong: option.case_cong)
  then show ?thesis unfolding acct_ok_def can_bump_def assms by simp
qed

subsection \<open>Removing a file\<close>

text \<open>The part of \<open>remove\<close> after the checks, when the file is not moved to the dumpster.\<close>

definition remove_tail :: "fid_t \<Rightarrow> string \<Rightarrow> addr \<Rightarrow> MetaFattr \<Rightarrow> fid_t \<Rightarrow> NS \<Rightarrow> (int \<times> fid_t \<times> NS) option" where
  "remove_tail dir fname fa f td s =
     do { s \<leftarrow> (if subcount1 f > 0 then DeleteChunks (getalloc_all s (fa_id f)) (UpdateNumChunks (- subcount1 f) s) else Some s);
          s \<leftarrow> setFileSize fa 0 (- 1) 0 (UpdateNumFiles (- 1) s);
          s \<leftarrow> unlink dir fname fa False s;
          Some (0, td, s) }"

text \<open>Deleting the chunks of a file with as many chunks as its counter says.\<close>

lemma delete_all_chunks:
  assumes inv: "ns_inv s" and h: "hgt (tree s) \<le> 16" and no: "chunkEntryToChange s = 0" and f: "fattr_in s a f"
    and cnt: "subcount1 f = int (length (getalloc_all s (fa_id f)))"
  shows "\<exists>s' C'. (if subcount1 f > 0 then DeleteChunks (getalloc_all s (fa_id f)) (UpdateNumChunks (- subcount1 f) s) else Some s) = Some s' \<and>
    hgt (tree s') \<le> 16 \<and> stage s' (FS s) (DS s) C' \<and> C' \<subseteq> CS s \<and> unowned C' a \<and> chunks_only s s'"
proof -
  note P = ns_inv_parts [OF inv]
  let ?as = "getalloc_all s (fa_id f)" and ?s = "UpdateNumChunks (- subcount1 f) s"
  have set: "set ?as = {b. \<exists>c. (b, c) \<in> CS s \<and> c_fattr c = a}"
  proof -
    have "chunk_fid s c = Some (fa_id f) \<longleftrightarrow> c_fattr c = a" if bc: "(b, c) \<in> CS s" for b c
    proof -
      obtain g where g: "fattr_in s (c_fattr c) g" using fs_chunk [OF P(3) bc] by (auto simp: in_FS)
      then have "chunk_fid s c = Some (fa_id g)" by (simp add: chunk_fid_def fattr_at_in)
      then show ?thesis using store_fattr_unique [OF P(1) g f] g f by (auto simp: in_defs)
    qed
    then show ?thesis unfolding file_chunks(1) [OF P(1)] in_CS by blast
  qed
  let ?C = "{(x, c) \<in> CS s. x \<notin> set ?as}"
  have un: "unowned ?C a" unfolding unowned_def set by blast
  show ?thesis
  proof (cases "subcount1 f > 0")
    case True
    have st: "stage ?s (FS s) (DS s) (CS s)" by (rule stage_same [OF P(7)]) (simp add: same_store_def UpdateNumChunks_def)
    have sub: "set ?as \<subseteq> fst ` CS s" unfolding set by force
    obtain s' where "DeleteChunks ?as ?s = Some s'" "hgt (tree s') \<le> 16" "stage s' (FS s) (DS s) ?C" "chunks_only ?s s'"
      using stage_del_chunks [OF st _ _ file_chunks(2) [OF P(1)] sub] h no by (auto simp: UpdateNumChunks_def)
    moreover from this have "chunks_only s s'" by (simp add: chunks_only_def UpdateNumChunks_def fattr_at_def fun_eq_iff)
    ultimately show ?thesis using True un by (intro exI [of _ s'] exI [of _ ?C]) auto
  next
    case False
    then have "?as = []" using cnt by simp
    then have "?C = CS s" by auto
    then show ?thesis using False un P(7) h by (intro exI [of _ s] exI [of _ "CS s"]) (auto simp: chunks_only_def)
  qed
qed

lemma remove_unlink:
  assumes st: "stage s F D C" "hgt (tree s) \<le> 16" and ok: "fs_ok F D C" and f: "(a, strip f) \<in> F" "fattr_at s a = Some f" "fa_type f \<noteq> KFS_DIR"
    and d: "(x, d) \<in> D" "proper d" "d_fid d = fa_id f" and ch: "unowned C a"
  shows "\<exists>s' t. unlink (d_dir d) (d_name d) a False s = Some s' \<and> s' = s\<lparr>tree := t, objs := (objs s)(x := None, a := None)\<rparr> \<and>
    hgt t \<le> 16 \<and> stage s' (F - {(a, strip f)}) (D - {(x, d)}) C \<and> fs_ok (F - {(a, strip f)}) (D - {(x, d)}) C"
proof -
  have o: "fs_links F D" using ok by (simp add: fs_ok_def)
  obtain t where t: "unlink (d_dir d) (d_name d) a False s = Some (s\<lparr>tree := t, objs := (objs s)(x := None, a := None)\<rparr>)" "hgt t \<le> 16"
    "stage (s\<lparr>tree := t, objs := (objs s)(x := None, a := None)\<rparr>) (F - {(a, strip f)}) (D - {(x, d)}) C"
    using unlink_object [OF st d(1) f(2,1) ch] by (auto simp: Let_def)
  have ty: "fa_type (strip f) \<noteq> KFS_DIR" "d_fid d = fa_id (strip f)" using f(3) d(3) by simp_all
  note A = about_file [OF ok f(1) ty(1) d(1,2) ty(2)]
  have nr: "fa_id (strip f) \<noteq> ROOTFID" using fs_link_parent [OF o d(1,2) f(1)] d(3) by simp
  have "fs_ok (F - {(a, strip f)}) (D - about (fa_id (strip f)) D) C"
    by (rule fs_ok_remove [OF ok f(1) nr]) (rule A(2), assumption+, rule unownedD [OF ch])
  then show ?thesis using t unfolding A(1) by blast
qed

lemma remove_tail_ok:
  assumes inv: "ns_inv s" and h: "hgt (tree s) \<le> 16" and no: "chunkEntryToChange s = 0" and d: "(x, d) \<in> DS s" "proper d"
    and f: "fattr_at s (getFattr s (d_fid d)) = Some f" "fa_type f = KFS_FILE" and cnt: "subcount1 f = int (length (getalloc_all s (fa_id f)))"
    and r: "remove_tail (d_dir d) (d_name d) (getFattr s (d_fid d)) f td s \<noteq> None \<or> acct_ok s (getFattr s (d_fid d)) (- getFileSize f) (- 1) 0"
  shows "\<exists>s'. remove_tail (d_dir d) (d_name d) (getFattr s (d_fid d)) f td s = Some (0, td, s') \<and> ns_inv s' \<and> hgt (tree s') \<le> 16 \<and>
    chunkEntryToChange s' = 0 \<and> names s' = (names s)((d_dir d, d_name d) := None) \<and> kind s' = (kind s)(d_fid d := None) \<and> FS s' \<subseteq> FS s \<and> DS s' \<subseteq> DS s"
proof -
  note P = ns_inv_parts [OF inv]
  let ?a = "getFattr s (d_fid d)" and ?i = "d_fid d"
  have fin: "fattr_in s ?a f" "fa_id f = ?i" using proper_fattr [OF inv d f(1)] by simp_all
  obtain s0 C' where s0: "(if subcount1 f > 0 then DeleteChunks (getalloc_all s (fa_id f)) (UpdateNumChunks (- subcount1 f) s) else Some s) = Some s0"
    "hgt (tree s0) \<le> 16" "stage s0 (FS s) (DS s) C'" "C' \<subseteq> CS s" "unowned C' ?a" "chunks_only s s0"
    using delete_all_chunks [OF inv h no fin(1) cnt] by blast
  define s1 where "s1 = UpdateNumFiles (- 1) s0"
  have s1: "tree s1 = tree s0" "fileID s1 = fileID s" "same_store s0 s1" "updatePathSpaceUsage s1 = updatePathSpaceUsage s"
    "chunkEntryToChange s1 = 0" "fattr_at s1 = fattr_at s"
    using s0(6) no by (simp_all add: s1_def UpdateNumFiles_def same_store_def chunks_only_def fattr_at_def fun_eq_iff)
  have nn1: "all_nonneg s1" using P(9) by (simp add: all_nonneg_def s1(6))
  have acct: "acct_ok s1 ?a n m k = acct_ok s ?a n m k" for n m k by (rule acct_fattr) (use s1(4,6) in simp_all)
  have "\<exists>s2. setFileSize ?a 0 (- 1) 0 s1 = Some s2"
    using r
  proof
    assume "remove_tail (d_dir d) (d_name d) ?a f td s \<noteq> None"
    then show ?thesis by (cases "setFileSize ?a 0 (- 1) 0 s1") (simp_all add: remove_tail_def s0(1) s1_def)
  next
    assume "acct_ok s ?a (- getFileSize f) (- 1) 0"
    then show ?thesis using setFileSize_ok [of s1 ?a f "- 1" 0] f acct by (simp add: s1(6))
  qed
  then obtain s2 where s2: "setFileSize ?a 0 (- 1) 0 s1 = Some s2" by blast
  have c2: "counted s1 s2" by (rule setFileSize_counted [OF s2]) (use nn1 in \<open>simp add: all_nonneg_def\<close>)
  have st2: "stage s2 (FS s) (DS s) C'" by (rule counted_stage [OF c2 stage_same [OF s0(3) s1(3)]])
  have t2: "tree s2 = tree s0" "fileID s2 = fileID s" "chunkEntryToChange s2 = 0" using c2 s1(1,2,5) by (auto simp: counted_def)
  obtain f2 where f2: "fattr_at s2 ?a = Some f2" "strip f2 = strip f"
    using c2 similar_in(7) [of s1 s2 ?a f] f(1) s1(6) by (auto simp: counted_def)
  have id2: "fa_id f2 = ?i" "fa_type f2 \<noteq> KFS_DIR" using strip_eq [OF f2(2)] fin(2) f(2) by simp_all
  have F2: "(?a, strip f2) \<in> FS s" using f2(2) fin(1) by (auto simp: in_FS)
  have h2: "hgt (tree s2) \<le> 16" using s0(2) t2(1) by simp
  obtain s3 t where u: "unlink (d_dir d) (d_name d) ?a False s2 = Some s3" "s3 = s2\<lparr>tree := t, objs := (objs s2)(x := None, ?a := None)\<rparr>"
    "hgt t \<le> 16" "stage s3 (FS s - {(?a, strip f2)}) (DS s - {(x, d)}) C'" "fs_ok (FS s - {(?a, strip f2)}) (DS s - {(x, d)}) C'"
    using remove_unlink [OF st2 h2 fs_ok_chunks [OF P(2) s0(4)] F2 f2(1) id2(2) d id2(1) [symmetric] s0(5)] by blast
  have "remove_tail (d_dir d) (d_name d) ?a f td s = Some (0, td, s3)"
    using s0(1) s2 u(1) by (simp add: remove_tail_def s1_def)
  moreover have "ns_inv s3"
  proof (rule ns_invI [OF u(4)])
    show "ns_sets (FS s - {(?a, strip f2)}) (DS s - {(x, d)}) C' (fileID s3)"
      using inv P(10) d(2) u(2) t2(2) by (intro ns_sets_del [OF _ u(5), where C = "CS s" and F = "FS s"]) (auto simp: ns_inv_def proper_def)
    show "all_nonneg s3" using counted_nonneg [OF c2 nn1] u(2) by (auto simp: all_nonneg_def fattr_at_def)
  qed
  moreover have "names s3 = (names s)((d_dir d, d_name d) := None)" by (rule names_delete [OF P(7) u(4) d(1) P(8)])
  moreover have "kind s3 = (kind s)(?i := None)" using kind_delete [OF P(7) u(4) F2 P(3)] id2(1) by simp
  moreover have "FS s3 \<subseteq> FS s" "DS s3 \<subseteq> DS s" using u(4) by (auto simp: stage_def)
  ultimately show ?thesis using u(2,3) t2(3) by auto
qed

end
