(* ===== verification/NsRename.thy ===== *)
theory NsRename
  imports NsRemove
begin

text \<open>
  Renaming and moving files and directories, and the test that keeps a directory from moving
  below itself.
\<close>

subsection \<open>A new parent\<close>

lemma store_inv_fattr:
  assumes inv: "store_inv s" and f: "fattr_at s a = Some f" "fa_id g = fa_id f"
    and s': "s' = s\<lparr>objs := (objs s)(a \<mapsto> MFattr g)\<rparr>"
  shows "store_inv s'"
proof -
  have oa: "objs s a = Some (MFattr f)" using f(1) by (auto simp: fattr_at_def split: option.splits Meta.splits)
  have t: "tree s' = tree s" "nextAddr s' = nextAddr s" by (simp_all add: s')
  have live: "live s' = live s" by (simp add: live_def t fun_eq_iff)
  have fid: "map_option fa_id (fattr_at s' b) = map_option fa_id (fattr_at s b)" for b
    using oa f(2) by (simp add: s' fattr_at_def)
  have cf: "chunk_fid s' = chunk_fid s" using fid by (simp add: chunk_fid_def fun_eq_iff)
  have d: "dentry_in s' = dentry_in s" and c: "chunk_in s' = chunk_in s" using oa live by (auto simp: fun_eq_iff in_defs s')
  have fi: "\<exists>h. fattr_in s b h \<and> fa_id h = fa_id k" if "fattr_in s' b k" for b k
    using that oa f(2) live by (cases "b = a") (auto simp: in_defs s')
  have "ent_ok s' e" if e: "e \<in> ents s'" for e
  proof -
    obtain k b where kb: "e = (k, b)" "(k, b) \<in> ents s" using e t by (metis prod.collapse)
    obtain m where m: "objs s b = Some m" "meta_ok m" "meta_key s m = Some k" using ent_key [OF inv kb(2)] by blast
    show ?thesis
    proof (cases "b = a")
      case True
      then have "m = MFattr f" using m(1) oa by simp
      then show ?thesis using True m(3) f(2) kb(1) by (simp add: ent_ok_def s' meta_ok_def)
    next
      case False
      have "meta_key s' m = meta_key s m"
      proof (cases m)
        case (MChunk ci)
        then show ?thesis using fid [of "c_fattr ci"] by (cases "fattr_at s (c_fattr ci)"; cases "fattr_at s' (c_fattr ci)") auto
      qed simp_all
      then show ?thesis using m False kb(1) by (simp add: ent_ok_def s')
    qed
  qed
  moreover have "\<forall>b. objs s' b \<noteq> None \<longrightarrow> 0 < b \<and> b < nextAddr s'"
    using store_addr [OF inv] oa by (auto simp: s')
  moreover have "\<forall>b b' h k. fattr_in s' b h \<longrightarrow> fattr_in s' b' k \<longrightarrow> fa_id h = fa_id k \<longrightarrow> b = b'"
    using fi store_fattr_unique [OF inv] by metis
  ultimately show ?thesis
    using inv t unfolding store_inv_def cf d c by (intro conjI) (simp_all only:, blast+)
qed

lemma stage_mv:
  assumes st: "stage s F D C" and f: "fattr_at s a = Some f" "(a, strip f) \<in> F"
  shows "stage (s\<lparr>objs := (objs s)(a \<mapsto> MFattr (f\<lparr>parent := q\<rparr>))\<rparr>) (mv a q F) D C" (is "stage ?s _ _ _")
proof -
  have oa: "objs s a = Some (MFattr f)" using f(1) by (auto simp: fattr_at_def split: option.splits Meta.splits)
  have la: "live s a" using f(2) st by (auto simp: stage_def in_FS in_defs)
  have inv: "store_inv ?s" by (rule store_inv_fattr [OF stage_in(4) [OF st] f(1)]) simp_all
  have live: "live ?s = live s" by (simp add: live_def fun_eq_iff)
  have d: "dentry_in ?s = dentry_in s" and c: "chunk_in ?s = chunk_in s" using oa live by (auto simp: fun_eq_iff in_defs)
  have "(b, g) \<in> FS ?s \<longleftrightarrow> (b, g) \<in> mv a q F" for b g
  proof
    assume "(b, g) \<in> FS ?s"
    then obtain h where h: "fattr_in ?s b h" "strip h = g" by (auto simp: in_FS)
    show "(b, g) \<in> mv a q F"
    proof (cases "b = a")
      case True
      then have "g = (strip f)\<lparr>parent := q\<rparr>" using h by (auto simp: in_defs)
      then show ?thesis using in_mvI [OF f(2), of a q] True by simp
    next
      case False
      then have "(b, g) \<in> F" using h st live by (auto simp: stage_def in_FS in_defs)
      then show ?thesis using in_mvI [of b g F a q] False by simp
    qed
  next
    assume "(b, g) \<in> mv a q F"
    then obtain h where h: "(b, h) \<in> F" "g = (if b = a then h\<lparr>parent := q\<rparr> else h)" by (rule in_mvE)
    then obtain k where k: "fattr_in s b k" "strip k = h" using st by (auto simp: stage_def in_FS)
    show "(b, g) \<in> FS ?s"
    proof (cases "b = a")
      case True
      then have "k = f" using k(1) oa by (simp add: in_defs)
      then show ?thesis using True h(2) k live la by (auto simp: in_FS in_defs intro!: exI [of _ "f\<lparr>parent := q\<rparr>"])
    next
      case False
      then show ?thesis using h(2) k live by (auto simp: in_FS in_defs)
    qed
  qed
  then have "FS ?s = mv a q F" by auto
  moreover have "DS ?s = D" "CS ?s = C" using d c st by (auto simp: stage_def DS_def CS_def)
  ultimately show ?thesis using inv by (simp add: stage_def)
qed

subsection \<open>Descendants\<close>

lemma below_root:
  assumes "fs_refs F D C" "(b, g) \<in> F" "fa_id g = ROOTFID"
  shows "below F a b \<longleftrightarrow> a = b"
proof
  assume "below F a b"
  then show "a = b" using fs_ids [OF assms(1,2)] assms(3) by (cases rule: below.cases) auto
qed (auto intro: below.self)

lemma below_step:
  assumes "fs_refs F D C" "(b, g) \<in> F" "fa_id g \<noteq> ROOTFID" "a \<noteq> b"
  shows "below F a b \<longleftrightarrow> below F a (parent g)"
proof
  assume "below F a b"
  then show "below F a (parent g)" using fs_ids [OF assms(1,2)] assms(4) by (cases rule: below.cases) auto
qed (rule below.step [OF assms(2,3)])

text \<open>The loop, at the attributes of the directory that it has reached.\<close>

lemma is_descendant_at:
  assumes inv: "ns_inv s" and a: "fattr_in s a fa" and b: "fattr_in s b fb"
  shows "is_descendant s (fa_id fa) (fa_id fb) b = Some (below (FS s) a b)"
proof -
  note P = ns_inv_parts [OF inv]
  have "(b, strip fb) \<in> FS s" using b by (auto simp: in_FS)
  from fs_up [OF P(4) this] show ?thesis
    using b
  proof (induction arbitrary: fb rule: up.induct)
    case (root b g)
    have "(b, strip fb) \<in> FS s" using root(3) by (auto simp: in_FS)
    then have id: "fa_id fb = ROOTFID" using fs_ids [OF P(3) root(1), of b "strip fb"] root(2) by auto
    moreover have "fa_id fa = fa_id fb \<longleftrightarrow> a = b" using store_fattr_unique [OF P(1) a root(3)] a root(3) by (auto simp: in_defs)
    ultimately show ?case using below_root [OF P(3) root(1,2), of a] by (subst is_descendant.simps) simp
  next
    case (step b g)
    have "(b, strip fb) \<in> FS s" using step(5) by (auto simp: in_FS)
    then have g: "g = strip fb" using fs_ids [OF P(3) step(1), of b "strip fb"] by auto
    then have id: "fa_id fb \<noteq> ROOTFID" using step(2) by simp
    have eq: "fa_id fa = fa_id fb \<longleftrightarrow> a = b" using store_fattr_unique [OF P(1) a step(5)] a step(5) by (auto simp: in_defs)
    have b0: "b \<noteq> 0" using live_addr [OF P(1)] step(5) by (auto simp: in_defs)
    obtain h where h: "parent fb \<noteq> 0" "(parent fb, h) \<in> FS s" using fs_parent [OF P(4) step(1,2)] g by auto
    then obtain fp where fp: "fattr_in s (parent fb) fp" by (auto simp: in_FS)
    have IH: "is_descendant s (fa_id fa) (fa_id fp) (parent fb) = Some (below (FS s) a (parent fb))" using step.IH [of fp] fp g by simp
    show ?case
    proof (cases "a = b")
      case True
      then show ?thesis using eq below.self by (subst is_descendant.simps) simp
    next
      case False
      then have "is_descendant s (fa_id fa) (fa_id fb) b = is_descendant s (fa_id fa) (fa_id fp) (parent fb)"
        using eq id b0 fattr_at_in [OF step(5)] h(1) fattr_at_in [OF fp] by (subst is_descendant.simps) simp
      then show ?thesis using IH below_step [OF P(3) step(1,2) False] g by simp
    qed
  qed
qed

lemma lookup_dotdot:
  assumes inv: "ns_inv s" and b: "fattr_in s b fb" "fa_type fb = KFS_DIR" "fa_id fb \<noteq> ROOTFID"
  shows "\<exists>z. lookup s (fa_id fb) kParentDir kKfsUserRoot kKfsGroupRoot False = Some (0, parent fb, 0, z)"
proof -
  note P = ns_inv_parts [OF inv]
  have B: "(b, strip fb) \<in> FS s" using b(1) by (auto simp: in_FS)
  obtain z g where g: "(z, g) \<in> DS s" "d_dir g = fa_id fb" "d_name g = kParentDir" using dots_of_dir [OF inv b(1,2)] by metis
  obtain p where p: "(parent fb, p) \<in> FS s" "fa_id p = d_fid g"
    using fs_dotdot [OF P(6) g(1,3) B] g(2) b(3) by auto
  obtain c q where q: "(c, q) \<in> FS s" "fa_id q = d_fid g" "d_fattr g = 0 \<or> d_fattr g = c" using fs_target [OF P(3) g(1)] by blast
  have c: "c = parent fb" using fs_ids [OF P(3) q(1) p(1)] q(2) p(2) by simp
  have pn: "parent fb \<noteq> 0" using stage_below(1) [OF P(7) p(1)] by simp
  obtain k where k: "fattr_in s (parent fb) k" "fa_id k = d_fid g" using p by (auto simp: in_FS)
  have gf: "getFattr s (d_fid g) = parent fb" using getFattr_in [OF P(1) k(1)] k(2) by simp
  have "getDentry s (fa_id fb) kParentDir = Some z" using getDentry_in [OF P(1), of z g] g by (simp add: in_DS)
  moreover have "dentry_at s z = Some g" "z \<noteq> 0" using g(1) stage_below(2) [OF P(7) g(1)] by (auto simp: in_DS dentry_at_in)
  ultimately show ?thesis using q(3) c gf pn by (auto simp: lookup_def canAccess_def Let_def)
qed

lemma is_descendant_dir:
  assumes inv: "ns_inv s" and a: "fattr_in s a fa" and b: "fattr_in s b fb" "fa_type fb = KFS_DIR"
  shows "is_descendant s (fa_id fa) (fa_id fb) 0 = Some (below (FS s) a b)"
proof -
  note P = ns_inv_parts [OF inv]
  have B: "(b, strip fb) \<in> FS s" using b(1) by (auto simp: in_FS)
  have eq: "fa_id fa = fa_id fb \<longleftrightarrow> a = b" using store_fattr_unique [OF P(1) a b(1)] a b(1) by (auto simp: in_defs)
  show ?thesis
  proof (cases "a = b \<or> fa_id fb = ROOTFID")
    case True
    then show ?thesis using eq below.self [of "FS s" a] below_root [OF P(3) B, of a] by (subst is_descendant.simps) auto
  next
    case False
    obtain h where h: "parent fb \<noteq> 0" "(parent fb, h) \<in> FS s" using fs_parent [OF P(4) B] False by auto
    then obtain fp where fp: "fattr_in s (parent fb) fp" by (auto simp: in_FS)
    obtain z where "lookup s (fa_id fb) kParentDir kKfsUserRoot kKfsGroupRoot False = Some (0, parent fb, 0, z)"
      using lookup_dotdot [OF inv b] False by blast
    then have "is_descendant s (fa_id fa) (fa_id fb) 0 = is_descendant s (fa_id fa) (fa_id fp) (parent fb)"
      using eq False h(1) fattr_at_in [OF fp] by (subst is_descendant.simps) simp
    then show ?thesis using is_descendant_at [OF inv a fp] below_step [OF P(3) B, of a] False by simp
  qed
qed

subsection \<open>Moving an entry\<close>

text \<open>The old entry is deleted and the new one is inserted.\<close>

definition relink :: "addr \<Rightarrow> MetaDentry \<Rightarrow> NS \<Rightarrow> NS option" where
  "relink src e s =
     do { de \<leftarrow> dentry_at s src;
          (status, s) \<leftarrow> del_meta (MDentry de) s;
          if status \<noteq> 0 then None else let (newSrc, s) = alloc (MDentry e) s in insert_meta newSrc s }"

lemma relink_ok:
  assumes st: "stage s F D C" "hgt (tree s) \<le> 16" and d: "(x, d) \<in> D" and n: "free D dir n" and ch: "no_chunks F C dir"
  shows "\<exists>s' t. relink x (new_MetaDentry dir n i a) s = Some s' \<and>
    s' = s\<lparr>tree := t, objs := (objs s)(x := None, nextAddr s \<mapsto> MDentry (new_MetaDentry dir n i a)), nextAddr := Suc (nextAddr s)\<rparr> \<and>
    stage s' F (insert (nextAddr s, new_MetaDentry dir n i a) (D - {(x, d)})) C"
proof -
  have da: "dentry_at s x = Some d" "d_hash d = nameHash (d_name d)"
    using stage_dentry [OF st(1)] d dentry_in_ent [OF stage_in(4) [OF st(1)], of x d] stage_in(2) [OF st(1)] by auto
  obtain t1 where t1: "del_meta (MDentry d) s = Some (0, s\<lparr>tree := t1, objs := (objs s)(x := None)\<rparr>)"
    "stage (s\<lparr>tree := t1, objs := (objs s)(x := None)\<rparr>) F (D - {(x, d)}) C"
    using stage_del_dentry [OF st d, of d] da(2) by (auto simp: Let_def)
  have n1: "free (D - {(x, d)}) dir n" using n by (auto simp: free_def)
  obtain t2 where "insert_meta (nextAddr s) (s\<lparr>tree := t1, objs := (objs s)(x := None, nextAddr s \<mapsto> MDentry (new_MetaDentry dir n i a)),
        nextAddr := Suc (nextAddr s)\<rparr>) =
      Some (s\<lparr>objs := (objs s)(x := None, nextAddr s \<mapsto> MDentry (new_MetaDentry dir n i a)), nextAddr := Suc (nextAddr s), tree := t2\<rparr>)"
    "stage (s\<lparr>objs := (objs s)(x := None, nextAddr s \<mapsto> MDentry (new_MetaDentry dir n i a)), nextAddr := Suc (nextAddr s), tree := t2\<rparr>)
      F (insert (nextAddr s, new_MetaDentry dir n i a) (D - {(x, d)})) C"
    using stage_alloc_dentry [OF t1(2) n1 ch, of i a] by (auto simp: Let_def)
  then show ?thesis using t1(1) da(1) by (intro exI [of _ _] exI [of _ t2]) (auto simp: relink_def alloc_def Let_def)
qed

lemma rename_move_same:
  assumes "fattr_at s a = Some f"
  shows "rename_move x a dir n 0 s = relink x (new_MetaDentry dir n (fa_id f) a) s"
  using assms by (auto simp: rename_move_def relink_def Let_def split: bind_split)

definition move_account :: "addr \<Rightarrow> addr \<Rightarrow> addr \<Rightarrow> NS \<Rightarrow> NS option" where
  "move_account x a q s =
     do { f \<leftarrow> fattr_at s a;
          let sz = filesize f;
          let fileCnt = (if fa_type f = KFS_DIR then subcount1 f else 1);
          let dirCnt = (if fa_type f = KFS_DIR then subcount2 f + 1 else 0);
          s \<leftarrow> setFileSize a 0 (- fileCnt) (- dirCnt) s;
          s \<leftarrow> upd_fattr a (parent_update (\<lambda>_. q)) s;
          s \<leftarrow> (if dentry_at s x = None then Some s else upd_dentry x (d_fattr_update (\<lambda>_. a)) s);
          s \<leftarrow> setFileSize a (if sz \<ge> 0 then sz else - 1 - sz) fileCnt dirCnt s;
          upd_fattr a (filesize_update (\<lambda>_. sz)) s }"

lemma setFileSize_size: "setFileSize a sz nf nd s = Some s' \<Longrightarrow> \<exists>f. fattr_at s' a = Some f \<and> filesize f = sz"
  by (auto simp: setFileSize_def upd_fattr_def fattr_at_def split: bind_splits if_splits)

lemma counted_frame: "counted s s' \<Longrightarrow> \<exists>m. s' = s\<lparr>objs := m\<rparr>"
  by (auto simp: counted_def)

lemma move_account_ok:
  assumes st: "stage s F D C" and f: "fattr_at s a = Some f" "(a, strip f) \<in> F" and nn: "all_nonneg s" and x: "dentry_at s x = None"
    and mv: "fs_refs (mv a q F) D C" "fs_tree (mv a q F)"
    and r: "setFileSize a 0 (- (if fa_type f = KFS_DIR then subcount1 f else 1)) (- (if fa_type f = KFS_DIR then subcount2 f + 1 else 0)) s = Some s1"
  shows "\<exists>s' m. move_account x a q s = Some s' \<and> s' = s\<lparr>objs := m\<rparr> \<and> stage s' (mv a q F) D C \<and> all_nonneg s'"
proof -
  let ?fc = "if fa_type f = KFS_DIR then subcount1 f else 1" and ?dc = "if fa_type f = KFS_DIR then subcount2 f + 1 else 0"
  let ?sz = "filesize f"
  let ?sz' = "if ?sz \<ge> 0 then ?sz else - 1 - ?sz"
  have nf: "nonneg f" using nn f(1) by (simp add: all_nonneg_def)
  have cnt: "0 \<le> ?fc" "0 \<le> ?dc" "0 \<le> ?sz'" using nf by (auto simp: nonneg_def)
  have c1: "counted s s1" by (rule setFileSize_counted [OF r]) (use nn in \<open>simp add: all_nonneg_def\<close>)
  have sim: "similar s s1" using c1 by (simp add: counted_def)
  obtain f1 where f1: "fattr_at s1 a = Some f1" "filesize f1 = 0" using setFileSize_size [OF r] by blast
  have s1: "strip f1 = strip f" using similar_in(7) [OF sim f(1)] f1(1) by auto
  have st1: "stage s1 F D C" by (rule counted_stage [OF c1 st])
  have nn1: "all_nonneg s1" by (rule counted_nonneg [OF c1 nn])
  let ?f2 = "f1\<lparr>parent := q\<rparr>"
  define s2 where "s2 = s1\<lparr>objs := (objs s1)(a \<mapsto> MFattr ?f2)\<rparr>"
  have u2: "upd_fattr a (parent_update (\<lambda>_. q)) s1 = Some s2" using f1(1) by (simp add: upd_fattr_def s2_def)
  have st2: "stage s2 (mv a q F) D C" unfolding s2_def by (rule stage_mv [OF st1 f1(1)]) (simp add: s1 f(2))
  have a2: "fattr_at s2 a = Some ?f2" by (simp add: s2_def fattr_at_def)
  have "nonneg f1" using nn1 f1(1) by (simp add: all_nonneg_def)
  then have nn2: "all_nonneg s2" using nn1 by (auto simp: s2_def all_nonneg_def fattr_at_def)
  have "dentry_at s1 x = None" using x similar_in(4) [OF sim] by simp
  then have x2: "dentry_at s2 x = None" by (auto simp: s2_def dentry_at_def)
  have ma: "(a, (strip f)\<lparr>parent := q\<rparr>) \<in> mv a q F" using in_mvI [OF f(2), of a q] by simp
  have ty: "fa_type ?f2 = fa_type f" using strip_eq(2) [OF s1] by simp
  have "acct_ok s2 a ?sz' ?fc ?dc" by (rule acct_ok_plus [OF st2 mv ma nn2 cnt(3,1,2)])
  then obtain s3 where s3: "setFileSize a ?sz' ?fc ?dc s2 = Some s3"
    using setFileSize_similar [OF a2, of ?sz' ?fc ?dc] f1(2) cnt(3) by (auto simp: getFileSize_def)
  have c3: "counted s2 s3" by (rule setFileSize_counted [OF s3]) (use nn2 in \<open>simp add: all_nonneg_def\<close>)
  obtain f3 where f3: "fattr_at s3 a = Some f3" "strip f3 = strip ?f2" using similar_in(7) [of s2 s3 a ?f2] a2 c3 by (auto simp: counted_def)
  define s4 where "s4 = s3\<lparr>objs := (objs s3)(a \<mapsto> MFattr (f3\<lparr>filesize := ?sz\<rparr>))\<rparr>"
  have u4: "upd_fattr a (filesize_update (\<lambda>_. ?sz)) s3 = Some s4" using f3(1) by (simp add: upd_fattr_def s4_def)
  have "nonneg f3" using counted_nonneg [OF c3 nn2] f3(1) by (simp add: all_nonneg_def)
  moreover have "fa_type f3 = fa_type f" using strip_eq(2) [OF f3(2)] ty by simp
  ultimately have "nonneg (f3\<lparr>filesize := ?sz\<rparr>)" using nf by (simp add: nonneg_def)
  then have c4: "counted s2 s4" unfolding s4_def by (intro counted_trans [OF c3 counted_upd [OF f3(1)]]) simp_all
  have "move_account x a q s = Some s4"
    unfolding move_account_def using f(1) r u2 x2 s3 u4 by (simp add: Let_def)
  moreover have "\<exists>m. s4 = s\<lparr>objs := m\<rparr>" using counted_frame [OF c1] counted_frame [OF c4] by (auto simp: s2_def)
  ultimately show ?thesis using counted_stage [OF c4 st2] counted_nonneg [OF c4 nn2] by blast
qed

text \<open>The three forms of the move.\<close>

lemma relinkE:
  assumes "relink x e s = Some s1"
  obtains de s' b s'' where "dentry_at s x = Some de" "del_meta (MDentry de) s = Some (0, s')" "alloc (MDentry e) s' = (b, s'')" "insert_meta b s'' = Some s1"
proof -
  obtain de where de: "dentry_at s x = Some de" using assms by (auto simp: relink_def split: bind_splits)
  obtain st s' where st: "del_meta (MDentry de) s = Some (st, s')" "st = 0" using assms de by (auto simp: relink_def split: bind_splits if_splits)
  obtain b s'' where b: "alloc (MDentry e) s' = (b, s'')" by (cases "alloc (MDentry e) s'")
  have "insert_meta b s'' = Some s1" using assms de st b by (simp add: relink_def)
  then show thesis using that de st b by simp
qed

lemma rename_move_file:
  assumes "fattr_at s a = Some f" "fa_type f \<noteq> KFS_DIR" "q \<noteq> 0" "relink x (new_MetaDentry dir n (fa_id f) a) s = Some s1"
    "fattr_at s1 a = Some f"
  shows "rename_move x a dir n q s = move_account x a q s1"
proof -
  obtain de s' b s'' where r: "dentry_at s x = Some de" "del_meta (MDentry de) s = Some (0, s')"
    "alloc (MDentry (new_MetaDentry dir n (fa_id f) a)) s' = (b, s'')" "insert_meta b s'' = Some s1" using assms(4) by (rule relinkE)
  show ?thesis using assms(1-3,5) r by (simp add: rename_move_def move_account_def Let_def)
qed

lemma rename_move_dir:
  assumes "fattr_at s a = Some f" "fa_type f = KFS_DIR" "q \<noteq> 0" "unlink (fa_id f) kParentDir a True s = Some s0"
    "relink x (new_MetaDentry dir n (fa_id f) a) s0 = Some s1" "fattr_at s1 a = Some f"
  shows "rename_move x a dir n q s =
    do { s \<leftarrow> move_account x a q s1;
         (_, _, s) \<leftarrow> link (fa_id f) kParentDir KFS_DIR dir 1 no_stripes kKfsUserNone kKfsGroupNone 0 q s;
         Some s }"
proof -
  obtain de s' b s'' where r: "dentry_at s0 x = Some de" "del_meta (MDentry de) s0 = Some (0, s')"
    "alloc (MDentry (new_MetaDentry dir n (fa_id f) a)) s' = (b, s'')" "insert_meta b s'' = Some s1" using assms(5) by (rule relinkE)
  show ?thesis using assms(1-4,6) r by (simp add: rename_move_def move_account_def Let_def)
qed

lemma names_change:
  assumes st: "stage s F D C" "stage s' F' (N \<union> (D - E)) C'" and E: "E \<subseteq> D" and u: "names_uniq D"
  shows "e \<in> N \<Longrightarrow> names s' (key_of e) = Some (d_fid (snd e))"
    "k \<notin> key_of ` N \<Longrightarrow> names s' k = (if k \<in> key_of ` E then None else names s k)"
proof -
  show "names s' (key_of e) = Some (d_fid (snd e))" if "e \<in> N"
    using names_some [OF st(2), of "fst e" "snd e"] that by (simp add: key_of_def)
  assume k: "k \<notin> key_of ` N"
  have "names s' k = Some v \<longleftrightarrow> k \<notin> key_of ` E \<and> names s k = Some v" for v
  proof
    assume "names s' k = Some v"
    then obtain x d where d: "(x, d) \<in> N \<union> (D - E)" "d_dir d = fst k" "d_name d = snd k" "d_fid d = v" unfolding names_iff [OF st(2)] by blast
    then have kd: "key_of (x, d) = k" by (simp add: key_of_def)
    then have D: "(x, d) \<in> D" "(x, d) \<notin> E" using d(1) k by auto
    have "k \<notin> key_of ` E"
    proof
      assume "k \<in> key_of ` E"
      then obtain y e where e: "(y, e) \<in> E" "key_of (y, e) = k" by auto
      then have "(y, e) \<in> D" "d_dir d = d_dir e \<and> d_name d = d_name e" using E kd by (auto simp: key_of_def)
      from names_uniqD [OF u D(1) this(1) disjI1 [OF this(2)]] show False using e(1) D(2) by simp
    qed
    then show "k \<notin> key_of ` E \<and> names s k = Some v" unfolding names_iff [OF st(1)] using d D by blast
  next
    assume *: "k \<notin> key_of ` E \<and> names s k = Some v"
    then obtain x d where d: "(x, d) \<in> D" "d_dir d = fst k" "d_name d = snd k" "d_fid d = v" unfolding names_iff [OF st(1)] by blast
    then have "key_of (x, d) = k" by (simp add: key_of_def)
    then have "(x, d) \<notin> E" using * by blast
    then show "names s' k = Some v" unfolding names_iff [OF st(2)] using d by blast
  qed
  then show "names s' k = (if k \<in> key_of ` E then None else names s k)" by (metis option.collapse option.distinct(1))
qed

lemma fs_refs_mono: "fs_refs F D C \<Longrightarrow> D' \<subseteq> D \<Longrightarrow> fs_refs F D' C"
  unfolding fs_refs_def by blast

lemma ns_sets_move:
  assumes "ns_sets F D C i" "fs_ok F' (N \<union> (D - E)) C" "\<And>a f. (a, f) \<in> F' \<Longrightarrow> fa_id f \<le> i" "\<And>x d. (x, d) \<in> E \<Longrightarrow> d_name d \<noteq> ''/''"
    "\<And>x d. (x, d) \<in> N \<Longrightarrow> proper d \<Longrightarrow> legalname (d_name d)"
  shows "ns_sets F' (N \<union> (D - E)) C i"
proof -
  obtain x d where d: "(x, d) \<in> D" "d_dir d = ROOTFID" "d_name d = ''/''" using assms(1) by (auto simp: ns_sets_def)
  then have "(x, d) \<in> N \<union> (D - E)" using assms(4) by blast
  then show ?thesis using assms(1-3,5) d(2,3) unfolding ns_sets_def by blast
qed

lemma mv_ids:
  assumes "\<And>b g. (b, g) \<in> F \<Longrightarrow> fa_id g \<le> i" "(b, g) \<in> mv a q F"
  shows "fa_id g \<le> i"
proof -
  obtain h where h: "(b, h) \<in> F" "fa_id h = fa_id g" using mv_keeps [OF assms(2)] by blast
  show ?thesis using assms(1) [OF h(1)] h(2) by simp
qed

text \<open>What a move of the object \<open>f\<close> with entry \<open>d\<close> to the name \<open>n\<close> in directory \<open>Q\<close> starts from.\<close>

definition move_pre :: "NS \<Rightarrow> addr \<Rightarrow> MetaDentry \<Rightarrow> addr \<Rightarrow> MetaFattr \<Rightarrow> addr \<Rightarrow> MetaFattr \<Rightarrow> string \<Rightarrow> bool" where
  "move_pre s x d a f qa Q n \<longleftrightarrow> ns_inv s \<and> hgt (tree s) \<le> 16 \<and> (x, d) \<in> DS s \<and> proper d \<and> fattr_in s a f \<and> fa_id f = d_fid d \<and>
     fattr_in s qa Q \<and> fa_type Q = KFS_DIR \<and> \<not> below (FS s) a qa \<and> legalname n \<and> free (DS s) (fa_id Q) n"

lemma move_parts:
  assumes "move_pre s x d a f qa Q n"
  shows "ns_inv s" "hgt (tree s) \<le> 16" "(x, d) \<in> DS s" "proper d" "fa_id f = d_fid d" "fa_type Q = KFS_DIR" "\<not> below (FS s) a qa" "legalname n"
    "free (DS s) (fa_id Q) n" "stage s (FS s) (DS s) (CS s)" "fs_ok (FS s) (DS s) (CS s)" "fs_refs (FS s) (DS s) (CS s)" "fs_tree (FS s)"
    "all_nonneg s" "(a, strip f) \<in> FS s" "(qa, strip Q) \<in> FS s" "fattr_at s a = Some f" "names_uniq (DS s)" "qa \<noteq> 0" "dentry_at s x = Some d"
    "fattr_in s a f" "fattr_in s qa Q" "ns_sets (FS s) (DS s) (CS s) (fileID s)"
proof -
  show inv: "ns_inv s" and "hgt (tree s) \<le> 16" and d: "(x, d) \<in> DS s" and "proper d" "fa_id f = d_fid d" "fa_type Q = KFS_DIR" "\<not> below (FS s) a qa"
    "legalname n" "free (DS s) (fa_id Q) n" and f: "fattr_in s a f" and q: "fattr_in s qa Q"
    using assms unfolding move_pre_def by blast+
  note P = ns_inv_parts [OF inv]
  show "stage s (FS s) (DS s) (CS s)" "fs_ok (FS s) (DS s) (CS s)" "fs_refs (FS s) (DS s) (CS s)" "fs_tree (FS s)" "all_nonneg s" "names_uniq (DS s)"
    by (fact P)+
  show "ns_sets (FS s) (DS s) (CS s) (fileID s)" using inv unfolding ns_inv_def by blast
  show "(a, strip f) \<in> FS s" "(qa, strip Q) \<in> FS s" using f q by (auto simp: in_FS)
  show "fattr_at s a = Some f" by (rule fattr_at_in [OF f])
  show "dentry_at s x = Some d" using d by (simp add: in_DS dentry_at_in)
  show "qa \<noteq> 0" using live_addr [OF P(1), of qa] q by (simp add: in_defs)
qed

lemma move_names:
  assumes m: "move_pre s x d a f qa Q n"
  shows "n \<noteq> kThisDir" "n \<noteq> kParentDir" "n \<noteq> ''/''" "proper (new_MetaDentry (fa_id Q) n (fa_id f) a)"
    "(fa_id Q, n) \<noteq> (d_dir d, d_name d)" "free (DS s) (fa_id (strip Q)) n" "fa_type (strip Q) = KFS_DIR"
proof -
  note M = move_parts [OF m]
  show q: "free (DS s) (fa_id (strip Q)) n" "fa_type (strip Q) = KFS_DIR" using M(6,9) by simp_all
  show np: "n \<noteq> kThisDir" "n \<noteq> kParentDir" "n \<noteq> ''/''" using free_proper [OF _ M(16) q(2) M(8) q(1)] M(11) by (simp_all add: fs_ok_def)
  then show "proper (new_MetaDentry (fa_id Q) n (fa_id f) a)" by (simp add: proper_def)
  show "(fa_id Q, n) \<noteq> (d_dir d, d_name d)" using M(3,9) unfolding free_def prod.inject by metis
qed

lemma move_dead:
  assumes m: "move_pre s x d a f qa Q n" and o: "objs s' = (objs s)(z := None, x := None, nextAddr s \<mapsto> k)" and z: "(z, g) \<in> DS s" and k: "\<exists>e. k = MDentry e"
  shows "fattr_at s' a = Some f" "dentry_at s' x = None" "fattr_at s' = fattr_at s" "all_nonneg s'"
proof -
  note M = move_parts [OF m]
  have "dentry_at s z = Some g" using z by (simp add: in_DS dentry_at_in)
  then have "a \<noteq> x" "a \<noteq> z" using kinds_differ [OF M(17)] M(20) by blast+
  moreover have "a \<noteq> nextAddr s" "x \<noteq> nextAddr s" using stage_below(1) [OF M(10,15)] stage_below(2) [OF M(10,3)] by auto
  ultimately show "fattr_at s' a = Some f" "dentry_at s' x = None" using M(17) o by (simp_all add: fattr_at_def dentry_at_def)
  have "objs s (nextAddr s) = None" using store_addr [OF stage_in(4) [OF M(10)], of "nextAddr s"] by (cases "objs s (nextAddr s)") auto
  moreover have "objs s z = Some (MDentry g)" "objs s x = Some (MDentry d)" using z M(3) by (simp_all add: in_DS in_defs)
  moreover obtain e where "k = MDentry e" using k by blast
  ultimately show at: "fattr_at s' = fattr_at s" using o by (simp add: fattr_at_def fun_eq_iff)
  show "all_nonneg s'" using M(14) by (simp add: all_nonneg_def at)
qed

lemma move_not_dir: "move_pre s x d a f qa Q n \<Longrightarrow> no_chunks (FS s) (CS s) (fa_id Q)"
  using dir_no_chunks [of "FS s" "DS s" "CS s" qa "strip Q"] move_parts [of s x d a f qa Q n] by simp

text \<open>The sets after the move, when the entry \<open>..\<close> need not change.\<close>

lemma move_fs_ok:
  assumes m: "move_pre s x d a f qa Q n" and keep: "fa_type f \<noteq> KFS_DIR \<or> parent f = qa"
  shows "fs_ok (mv a qa (FS s)) (insert (nextAddr s, new_MetaDentry (fa_id Q) n (fa_id f) a) (DS s - {(x, d)})) (CS s)"
proof -
  note M = move_parts [OF m] and N = move_names [OF m]
  have id: "d_fid d = fa_id (strip f)" using M(5) by simp
  have keep': "fa_type (strip f) \<noteq> KFS_DIR \<or> parent (strip f) = qa" using keep by simp
  show ?thesis
  proof (rule fs_ok_relink [OF M(11,15,3,4) id N(4) _ _ M(16) N(7) M(19,7) _ _ _ keep'])
    show "(nextAddr s, k) \<notin> DS s" for k using stage_below(2) [OF M(10), of "nextAddr s" k] by auto
    show "\<not> (d_dir k = d_dir (new_MetaDentry (fa_id Q) n (fa_id f) a) \<and> d_name k = d_name (new_MetaDentry (fa_id Q) n (fa_id f) a))"
      if "(u, k) \<in> DS s" for u k using M(9) that by (simp add: free_def)
  qed simp_all
qed

text \<open>What the sets after a move mean.\<close>

lemma move_result:
  assumes m: "move_pre s x d a f qa Q n" and st: "stage s' (mv a qa (FS s)) (insert (y, new_MetaDentry (fa_id Q) n (fa_id f) a) (DS s - {(x, d)})) (CS s)"
    and ok: "fs_ok (mv a qa (FS s)) (insert (y, new_MetaDentry (fa_id Q) n (fa_id f) a) (DS s - {(x, d)})) (CS s)"
    and s': "fileID s' = fileID s" "all_nonneg s'"
  shows "ns_inv s' \<and> names s' = (names s)((d_dir d, d_name d) := None, (fa_id Q, n) \<mapsto> d_fid d) \<and> kind s' = kind s"
proof -
  note M = move_parts [OF m]
  let ?e = "new_MetaDentry (fa_id Q) n (fa_id f) a"
  have ids: "fa_id g \<le> fileID s" if "(b, g) \<in> mv a qa (FS s)" for b g
    by (rule mv_ids [OF ns_inv_parts(10) [OF M(1)] that])
  have "ns_sets (mv a qa (FS s)) ({(y, ?e)} \<union> (DS s - {(x, d)})) (CS s) (fileID s)"
  proof (rule ns_sets_move [OF M(23)])
    show "fs_ok (mv a qa (FS s)) ({(y, ?e)} \<union> (DS s - {(x, d)})) (CS s)" using ok by simp
  qed (use M(4,8) ids in \<open>auto simp: proper_def\<close>)
  then have "ns_inv s'" using ns_invI [OF st] s' by simp
  moreover have "names s' k = ((names s)((d_dir d, d_name d) := None, (fa_id Q, n) \<mapsto> d_fid d)) k" for k
  proof -
    have st': "stage s' (mv a qa (FS s)) ({(y, ?e)} \<union> (DS s - {(x, d)})) (CS s)" using st by simp
    have sub: "{(x, d)} \<subseteq> DS s" using M(3) by simp
    show ?thesis
      using names_change(1) [OF M(10) st' sub M(18), of "(y, ?e)"] names_change(2) [OF M(10) st' sub M(18), of k] M(5)
      by (auto simp: key_of_def)
  qed
  ultimately show ?thesis using kind_mv [OF M(10) st] by blast
qed

text \<open>When the first step of the accounting of a move returns.\<close>

definition fileCnt :: "MetaFattr \<Rightarrow> int" where
  "fileCnt f = (if fa_type f = KFS_DIR then subcount1 f else 1)"

definition dirCnt :: "MetaFattr \<Rightarrow> int" where
  "dirCnt f = (if fa_type f = KFS_DIR then subcount2 f + 1 else 0)"

lemma move_account_start:
  assumes "fattr_at s' a = Some f" "nonneg f"
    "acct_ok s' a (- getFileSize f) (- fileCnt f) (- dirCnt f) \<and> fa_type f \<noteq> KFS_NONE \<or> move_account x a q s' \<noteq> None"
  shows "\<exists>s1. setFileSize a 0 (- (if fa_type f = KFS_DIR then subcount1 f else 1)) (- (if fa_type f = KFS_DIR then subcount2 f + 1 else 0)) s' = Some s1"
  using assms(3)
proof
  assume "acct_ok s' a (- getFileSize f) (- fileCnt f) (- dirCnt f) \<and> fa_type f \<noteq> KFS_NONE"
  then show ?thesis
    using setFileSize_ok [OF assms(1), of "- fileCnt f" "- dirCnt f"] assms(2)
    by (cases "fa_type f") (simp_all add: fileCnt_def dirCnt_def nonneg_def)
next
  assume "move_account x a q s' \<noteq> None"
  then show ?thesis using assms(1) by (auto simp: move_account_def Let_def split: bind_splits)
qed

lemma move_same_dir:
  assumes m: "move_pre s x d a f qa Q n" and qa: "qa = parent f"
  shows "\<exists>s'. rename_move x a (fa_id Q) n 0 s = Some s' \<and> ns_inv s' \<and>
    names s' = (names s)((d_dir d, d_name d) := None, (fa_id Q, n) \<mapsto> d_fid d) \<and> kind s' = kind s"
proof -
  note M = move_parts [OF m]
  let ?e = "new_MetaDentry (fa_id Q) n (fa_id f) a"
  obtain s' t where s': "relink x ?e s = Some s'"
    "s' = s\<lparr>tree := t, objs := (objs s)(x := None, nextAddr s \<mapsto> MDentry ?e), nextAddr := Suc (nextAddr s)\<rparr>"
    "stage s' (FS s) (insert (nextAddr s, ?e) (DS s - {(x, d)})) (CS s)"
    using relink_ok [OF M(10,2,3,9) move_not_dir [OF m]] by blast
  have o: "objs s' = (objs s)(x := None, x := None, nextAddr s \<mapsto> MDentry ?e)" using s'(2) by simp
  have mv: "mv a qa (FS s) = FS s"
  proof (rule mv_same)
    show "parent g = qa" if "(a, g) \<in> FS s" for g using fs_ids [OF M(12) that M(15)] qa by simp
  qed
  have st: "stage s' (mv a qa (FS s)) (insert (nextAddr s, ?e) (DS s - {(x, d)})) (CS s)" unfolding mv by (rule s'(3))
  have "all_nonneg s'" by (rule move_dead(4) [OF m o M(3)]) simp
  moreover have "rename_move x a (fa_id Q) n 0 s = Some s'" using rename_move_same [OF M(17)] s'(1) by simp
  ultimately show ?thesis using move_result [OF m st move_fs_ok [OF m disjI2 [OF qa [symmetric]]]] s'(2) by simp
qed

lemma move_file:
  assumes m: "move_pre s x d a f qa Q n" and ty: "fa_type f \<noteq> KFS_DIR"
    and r: "acct_ok s a (- getFileSize f) (- fileCnt f) (- dirCnt f) \<and> fa_type f \<noteq> KFS_NONE \<or> rename_move x a (fa_id Q) n qa s \<noteq> None"
  shows "\<exists>s'. rename_move x a (fa_id Q) n qa s = Some s' \<and> ns_inv s' \<and>
    names s' = (names s)((d_dir d, d_name d) := None, (fa_id Q, n) \<mapsto> d_fid d) \<and> kind s' = kind s"
proof -
  note M = move_parts [OF m]
  let ?e = "new_MetaDentry (fa_id Q) n (fa_id f) a"
  let ?D = "insert (nextAddr s, ?e) (DS s - {(x, d)})"
  obtain s1 t where s1: "relink x ?e s = Some s1"
    "s1 = s\<lparr>tree := t, objs := (objs s)(x := None, nextAddr s \<mapsto> MDentry ?e), nextAddr := Suc (nextAddr s)\<rparr>"
    "stage s1 (FS s) ?D (CS s)"
    using relink_ok [OF M(10,2,3,9) move_not_dir [OF m]] by blast
  have o1: "objs s1 = (objs s)(x := None, x := None, nextAddr s \<mapsto> MDentry ?e)" using s1(2) by simp
  have "\<exists>e. MDentry ?e = MDentry e" by blast
  note dead = move_dead [OF m o1 M(3) this]
  have ok: "fs_ok (mv a qa (FS s)) ?D (CS s)" using move_fs_ok [OF m] ty by simp
  have eq: "rename_move x a (fa_id Q) n qa s = move_account x a qa s1"
    by (rule rename_move_file [OF M(17) _ M(19) s1(1) dead(1)]) (simp add: ty)
  have nf: "nonneg f" using M(14,17) by (simp add: all_nonneg_def)
  have acct: "acct_ok s1 a u v w = acct_ok s a u v w" for u v w by (rule acct_fattr [OF dead(3)]) (simp add: s1(2))
  obtain s2 where r1: "setFileSize a 0 (- (if fa_type f = KFS_DIR then subcount1 f else 1)) (- (if fa_type f = KFS_DIR then subcount2 f + 1 else 0)) s1 = Some s2"
    using move_account_start [OF dead(1) nf, of x qa] r ty unfolding eq acct by auto
  obtain s' k where s': "move_account x a qa s1 = Some s'" "s' = s1\<lparr>objs := k\<rparr>" "stage s' (mv a qa (FS s)) ?D (CS s)" "all_nonneg s'"
    using move_account_ok [OF s1(3) dead(1) M(15) dead(4,2) _ _ r1] ok unfolding fs_ok_def by blast
  then show ?thesis using move_result [OF m s'(3) ok] s1(2) eq by simp
qed

lemma move_dir_result:
  assumes m: "move_pre s x d a f qa Q n" and g: "(z, g) \<in> DS s" "d_dir g = fa_id f" "d_name g = kParentDir"
  defines "N \<equiv> {(Suc (nextAddr s), new_MetaDentry (fa_id f) kParentDir (fa_id Q) qa), (nextAddr s, new_MetaDentry (fa_id Q) n (fa_id f) a)}"
  assumes st: "stage s' (mv a qa (FS s)) (N \<union> (DS s - {(z, g), (x, d)})) (CS s)" and ok: "fs_ok (mv a qa (FS s)) (N \<union> (DS s - {(z, g), (x, d)})) (CS s)"
    and s': "fileID s' = fileID s" "all_nonneg s'"
  shows "ns_inv s' \<and> names s' = (names s)((d_dir d, d_name d) := None, (fa_id Q, n) \<mapsto> d_fid d, (d_fid d, kParentDir) \<mapsto> fa_id Q) \<and> kind s' = kind s"
proof -
  note M = move_parts [OF m] and NN = move_names [OF m]
  have ids: "fa_id h \<le> fileID s" if "(b, h) \<in> mv a qa (FS s)" for b h
    by (rule mv_ids [OF ns_inv_parts(10) [OF M(1)] that])
  have "ns_sets (mv a qa (FS s)) (N \<union> (DS s - {(z, g), (x, d)})) (CS s) (fileID s)"
    by (rule ns_sets_move [OF M(23) ok]) (use M(4,8) ids g(3) in \<open>auto simp: proper_def N_def\<close>)
  then have "ns_inv s'" using ns_invI [OF st] s' by simp
  moreover have "names s' k = ((names s)((d_dir d, d_name d) := None, (fa_id Q, n) \<mapsto> d_fid d, (d_fid d, kParentDir) \<mapsto> fa_id Q)) k" for k
  proof -
    have sub: "{(z, g), (x, d)} \<subseteq> DS s" using M(3) g(1) by simp
    note C1 = names_change(1) [OF M(10) st sub M(18)]
    note C2 = names_change(2) [OF M(10) st sub M(18), of k]
    have n1: "names s' (fa_id f, kParentDir) = Some (fa_id Q)"
      using C1 [of "(Suc (nextAddr s), new_MetaDentry (fa_id f) kParentDir (fa_id Q) qa)"] by (simp add: N_def key_of_def)
    have n2: "names s' (fa_id Q, n) = Some (fa_id f)"
      using C1 [of "(nextAddr s, new_MetaDentry (fa_id Q) n (fa_id f) a)"] by (simp add: N_def key_of_def)
    have kN: "key_of ` N = {(fa_id f, kParentDir), (fa_id Q, n)}" and kE: "key_of ` {(z, g), (x, d)} = {(fa_id f, kParentDir), (d_dir d, d_name d)}"
      using g by (simp_all add: N_def key_of_def)
    show ?thesis
    proof (cases "k \<in> key_of ` N")
      case True
      then show ?thesis using n1 n2 M(5) NN(2) unfolding kN by auto
    next
      case False
      then show ?thesis using C2 M(5) unfolding kN kE by auto
    qed
  qed
  ultimately show ?thesis using kind_mv [OF M(10) st] by blast
qed

lemma move_dir_fs_ok:
  assumes m: "move_pre s x d a f qa Q n" and ty: "fa_type f = KFS_DIR" and g: "(z, g) \<in> DS s" "d_dir g = fa_id f" "d_name g = kParentDir"
  shows "fs_ok (mv a qa (FS s)) (insert (Suc (nextAddr s), new_MetaDentry (fa_id f) kParentDir (fa_id Q) qa)
    (insert (nextAddr s, new_MetaDentry (fa_id Q) n (fa_id f) a) (DS s - {(z, g)} - {(x, d)}))) (CS s)"
proof -
  note M = move_parts [OF m] and N = move_names [OF m]
  have id: "d_fid d = fa_id (strip f)" "fa_type (strip f) = KFS_DIR" "d_dir g = fa_id (strip f)" using M(5) ty g(2) by simp_all
  show ?thesis
  proof (rule fs_ok_move_dir [OF M(11,15) id(2) M(3,4) id(1) N(4) _ _ M(16) N(7) M(19,7) _ _ _ _ _ g(1) id(3) g(3)])
    show "(nextAddr s, k) \<notin> DS s" "(Suc (nextAddr s), k) \<notin> DS s" for k
      using stage_below(2) [OF M(10), of "nextAddr s" k] stage_below(2) [OF M(10), of "Suc (nextAddr s)" k] by auto
    show "\<not> (d_dir k = d_dir (new_MetaDentry (fa_id Q) n (fa_id f) a) \<and> d_name k = d_name (new_MetaDentry (fa_id Q) n (fa_id f) a))"
      if "(u, k) \<in> DS s" for u k using M(9) that by (simp add: free_def)
  qed simp_all
qed

lemma move_dir:
  assumes m: "move_pre s x d a f qa Q n" and ty: "fa_type f = KFS_DIR"
    and r: "acct_ok s a (- getFileSize f) (- fileCnt f) (- dirCnt f) \<or> rename_move x a (fa_id Q) n qa s \<noteq> None"
  shows "\<exists>s'. rename_move x a (fa_id Q) n qa s = Some s' \<and> ns_inv s' \<and>
    names s' = (names s)((d_dir d, d_name d) := None, (fa_id Q, n) \<mapsto> d_fid d, (d_fid d, kParentDir) \<mapsto> fa_id Q) \<and> kind s' = kind s"
proof -
  note M = move_parts [OF m] and N = move_names [OF m]
  obtain z g where g: "(z, g) \<in> DS s" "d_dir g = fa_id f" "d_name g = kParentDir" using dots_of_dir [OF M(1,21) ty] by metis
  let ?y = "nextAddr s" and ?e = "new_MetaDentry (fa_id Q) n (fa_id f) a" and ?h = "new_MetaDentry (fa_id f) kParentDir (fa_id Q) qa"
  obtain t0 where u: "unlink (fa_id f) kParentDir a True s = Some (s\<lparr>tree := t0, objs := (objs s)(z := None)\<rparr>)" "hgt t0 \<le> 16"
    "stage (s\<lparr>tree := t0, objs := (objs s)(z := None)\<rparr>) (FS s) (DS s - {(z, g)}) (CS s)"
    using unlink_entry [OF M(10,2) g(1) M(17)] g(2,3) by (auto simp: Let_def)
  let ?s0 = "s\<lparr>tree := t0, objs := (objs s)(z := None)\<rparr>"
  have xz: "(x, d) \<in> DS s - {(z, g)}" using M(3,4) g(3) by (auto simp: proper_def)
  have fr: "free (DS s - {(z, g)}) (fa_id Q) n" using M(9) by (auto simp: free_def)
  let ?D1 = "insert (?y, ?e) (DS s - {(z, g)} - {(x, d)})"
  obtain s1 t where s1: "relink x ?e ?s0 = Some s1"
    "s1 = s\<lparr>tree := t, objs := (objs s)(z := None, x := None, ?y \<mapsto> MDentry ?e), nextAddr := Suc ?y\<rparr>" "stage s1 (FS s) ?D1 (CS s)"
    using relink_ok [OF u(3) _ xz fr move_not_dir [OF m], of "fa_id f" a] u(2) by auto
  have o1: "objs s1 = (objs s)(z := None, x := None, ?y \<mapsto> MDentry ?e)" using s1(2) by simp
  have "\<exists>e. MDentry ?e = MDentry e" by blast
  note dead = move_dead [OF m o1 g(1) this]
  let ?D2 = "insert (Suc ?y, ?h) ?D1"
  have ok: "fs_ok (mv a qa (FS s)) ?D2 (CS s)" by (rule move_dir_fs_ok [OF m ty g])
  have ref1: "fs_refs (mv a qa (FS s)) ?D1 (CS s)" and tree1: "fs_tree (mv a qa (FS s))"
    using ok fs_refs_mono [of "mv a qa (FS s)" ?D2 "CS s" ?D1] by (auto simp: fs_ok_def)
  have eq: "rename_move x a (fa_id Q) n qa s =
      do { s \<leftarrow> move_account x a qa s1;
           (_, _, s) \<leftarrow> link (fa_id f) kParentDir KFS_DIR (fa_id Q) 1 no_stripes kKfsUserNone kKfsGroupNone 0 qa s;
           Some s }"
    by (rule rename_move_dir [OF M(17) ty M(19) u(1) s1(1) dead(1)])
  have nf: "nonneg f" using M(14,17) by (simp add: all_nonneg_def)
  have acct: "acct_ok s1 a p v w = acct_ok s a p v w" for p v w by (rule acct_fattr [OF dead(3)]) (simp add: s1(2))
  have "acct_ok s1 a (- getFileSize f) (- fileCnt f) (- dirCnt f) \<or> move_account x a qa s1 \<noteq> None"
    using r unfolding eq acct by auto
  then obtain s2 where r1: "setFileSize a 0 (- (if fa_type f = KFS_DIR then subcount1 f else 1)) (- (if fa_type f = KFS_DIR then subcount2 f + 1 else 0)) s1 = Some s2"
    using move_account_start [OF dead(1) nf] ty by auto
  obtain s3 k where s3: "move_account x a qa s1 = Some s3" "s3 = s1\<lparr>objs := k\<rparr>" "stage s3 (mv a qa (FS s)) ?D1 (CS s)" "all_nonneg s3"
    using move_account_ok [OF s1(3) dead(1) M(15) dead(4,2) ref1 tree1 r1] by blast
  have n3: "nextAddr s3 = Suc ?y" using s3(2) s1(2) by simp
  have ma: "(a, (strip f)\<lparr>parent := qa\<rparr>) \<in> mv a qa (FS s)" using in_mvI [OF M(15), of a qa] by simp
  have nc: "no_chunks (mv a qa (FS s)) (CS s) (fa_id f)" using dir_no_chunks [OF ref1 ma] ty by simp
  have fr3: "free ?D1 (fa_id f) kParentDir"
    unfolding free_def
  proof (intro allI impI notI)
    fix v l assume l: "(v, l) \<in> ?D1" "d_dir l = fa_id f \<and> d_name l = kParentDir"
    then have "(v, l) \<in> DS s" "(v, l) \<noteq> (z, g)" using N(2) by auto
    then show False using names_uniqD [OF M(18) _ g(1), of v l] l(2) g(2,3) by auto
  qed
  obtain t4 where l: "link (fa_id f) kParentDir KFS_DIR (fa_id Q) 1 no_stripes kKfsUserNone kKfsGroupNone 0 qa s3 =
      Some (0, 0, s3\<lparr>objs := (objs s3)(Suc ?y \<mapsto> MDentry ?h), nextAddr := Suc (Suc ?y), tree := t4\<rparr>)"
    "stage (s3\<lparr>objs := (objs s3)(Suc ?y \<mapsto> MDentry ?h), nextAddr := Suc (Suc ?y), tree := t4\<rparr>) (mv a qa (FS s)) ?D2 (CS s)"
    using link_dots [OF s3(3) _ fr3 nc, of "fa_id Q" qa] unfolding n3 Let_def by blast
  let ?s4 = "s3\<lparr>objs := (objs s3)(Suc ?y \<mapsto> MDentry ?h), nextAddr := Suc (Suc ?y), tree := t4\<rparr>"
  have D2: "?D2 = {(Suc ?y, ?h), (?y, ?e)} \<union> (DS s - {(z, g), (x, d)})" by auto
  have "all_nonneg ?s4" using s3(4) by (auto simp: all_nonneg_def fattr_at_def)
  moreover have "fileID ?s4 = fileID s" using s3(2) s1(2) by simp
  ultimately show ?thesis
    using move_dir_result [OF m g l(2) [unfolded D2] ok [unfolded D2]] s3(1) l(1) unfolding eq by simp
qed

end
