(* ===== verification/NsInit.thy ===== *)
theory NsInit
  imports NsRename
begin

text \<open>
  The initial name space: an empty store, in which \<open>Tree::new\_tree\<close> makes the root directory.
\<close>

subsection \<open>The first state\<close>

text \<open>A metaserver that starts with an empty tree.\<close>

definition empty_ns :: "NS \<Rightarrow> bool" where
  "empty_ns s \<longleftrightarrow> tree s = new_Tree \<and> objs s = (\<lambda>_. None) \<and> 0 < nextAddr s"

lemma empty_stage:
  assumes "empty_ns s"
  shows "stage s {} {} {}"
proof -
  have t: "tree_inv (tree s)" "entries (tree s) = []" using assms new_Tree_inv entries_new_Tree by (simp_all add: empty_ns_def)
  have "live s = (\<lambda>_. False)" by (simp add: live_def t(2) fun_eq_iff)
  then have "FS s = {}" "DS s = {}" "CS s = {}" by (simp_all add: FS_def DS_def CS_def in_defs)
  moreover have "store_inv s" using assms t \<open>live s = (\<lambda>_. False)\<close> by (simp add: store_inv_def empty_ns_def in_defs)
  ultimately show ?thesis by (simp add: stage_def)
qed

lemma ROOTFID_pos: "ROOTFID \<noteq> 0"
  by (simp add: ROOTFID_def)

lemma root_fs_ok:
  assumes f: "fa_id f = ROOTFID" "fa_type f = KFS_DIR" "parent f = 0" and xyz: "x \<noteq> y" "x \<noteq> z" "y \<noteq> z"
    and d: "d_dir d = ROOTFID" "d_name d = ''/''" "d_fid d = ROOTFID" "d_fattr d = a"
    and e: "d_dir e = ROOTFID" "d_name e = kThisDir" "d_fid e = ROOTFID" "d_fattr e = a"
    and g: "d_dir g = ROOTFID" "d_name g = kParentDir" "d_fid g = ROOTFID" "d_fattr g = 0"
  shows "fs_ok {(a, f)} {(x, d), (y, e), (z, g)} {}" (is "fs_ok ?F ?D {}")
proof -
  have one: "k = d \<or> k = e \<or> k = g" if "(u, k) \<in> ?D" for u k using that by blast
  have np: "\<not> proper k" "d_dir k = ROOTFID" "d_fid k = ROOTFID" "d_fattr k = 0 \<or> d_fattr k = a" if "(u, k) \<in> ?D" for u k
    using one [OF that] d e g by (auto simp: proper_def)
  have "names_uniq {}" by (simp add: names_uniq_def)
  then have "names_uniq {(z, g)}" by (rule names_uniq_insert) simp
  then have "names_uniq {(y, e), (z, g)}" by (rule names_uniq_insert) (use e(2) g(2) xyz in simp)
  then have uniq: "names_uniq ?D" by (rule names_uniq_insert) (use d(2) e(2) g(2) xyz in auto)
  have "fs_refs ?F ?D {}"
    unfolding fs_refs_def
  proof (intro conjI)
    show "\<forall>b c h k. (b, h) \<in> ?F \<longrightarrow> (c, k) \<in> ?F \<longrightarrow> fa_id h = fa_id k \<or> b = c \<longrightarrow> b = c \<and> h = k" by simp
    show "\<forall>u v k l. (u, k) \<in> ?D \<longrightarrow> (v, l) \<in> ?D \<longrightarrow> (d_dir k = d_dir l \<and> d_name k = d_name l) \<or> u = v \<longrightarrow> u = v \<and> k = l"
      using uniq unfolding names_uniq_def by blast
    show "\<forall>u k. (u, k) \<in> ?D \<longrightarrow> (\<exists>b h. (b, h) \<in> ?F \<and> fa_id h = d_dir k \<and> fa_type h = KFS_DIR)"
      using np(2) f by (intro allI impI exI [of _ a] exI [of _ f]) simp
    show "\<forall>u k. (u, k) \<in> ?D \<longrightarrow> (\<exists>b h. (b, h) \<in> ?F \<and> fa_id h = d_fid k \<and> (d_fattr k = 0 \<or> d_fattr k = b))"
    proof (intro allI impI)
      fix u k assume "(u, k) \<in> ?D"
      from np(3,4) [OF this] f(1) show "\<exists>b h. (b, h) \<in> ?F \<and> fa_id h = d_fid k \<and> (d_fattr k = 0 \<or> d_fattr k = b)"
        by (intro exI [of _ a] exI [of _ f]) auto
    qed
    show "\<forall>u c. (u, c) \<in> {} \<longrightarrow> (\<exists>h. (c_fattr c, h) \<in> ?F \<and> fa_type h = KFS_FILE)" by simp
  qed
  moreover have "fs_tree ?F" unfolding fs_tree_def using f up.root [of a f ?F] by simp
  moreover have "fs_links ?F ?D" unfolding fs_links_def using f(1) np(1) by blast
  moreover have "fs_dots ?F ?D"
    unfolding fs_dots_def
  proof (intro conjI allI impI)
    fix b h assume "(b, h) \<in> ?F" "fa_type h = KFS_DIR"
    then have h: "fa_id h = ROOTFID" using f by simp
    show "\<exists>u k. (u, k) \<in> ?D \<and> d_dir k = fa_id h \<and> d_name k = kThisDir" using h e by (intro exI [of _ y] exI [of _ e]) simp
    show "\<exists>u k. (u, k) \<in> ?D \<and> d_dir k = fa_id h \<and> d_name k = kParentDir" using h g by (intro exI [of _ z] exI [of _ g]) simp
  next
    fix u k assume "(u, k) \<in> ?D"
    from np(2,3) [OF this] show "d_fid k = d_dir k" "d_dir k = ROOTFID" "d_fid k = ROOTFID" by simp_all
  next
    fix u k b h assume u: "(u, k) \<in> ?D" "(b, h) \<in> ?F"
    from np(3) [OF u(1)] u(2) f(1) show "if fa_id h = ROOTFID then d_fid k = ROOTFID else \<exists>p. (parent h, p) \<in> ?F \<and> fa_id p = d_fid k" by simp
  qed
  ultimately show ?thesis by (simp only: fs_ok_def)
qed

lemma new_tree_eq:
  assumes "empty_ns s"
  shows "mkdir ROOTFID ''/'' u g m kKfsUserRoot kKfsGroupRoot 0 s = mkdir_tail ROOTFID ''/'' u g m 0 None ROOTFID s"
proof -
  have st: "stage s {} {} {}" by (rule empty_stage [OF assms])
  have "getFattr s ROOTFID = 0"
    by (rule getFattr_out [OF stage_in(4) [OF st]]) (use stage_in(1) [OF st] in blast)
  moreover have "getDentry s ROOTFID ''/'' = Some 0" by (rule names_none(2) [OF st]) (simp add: free_def)
  ultimately show ?thesis by (simp add: mkdir_def mkdir_tail_def Let_def)
qed

lemma root_inserts:
  assumes e: "empty_ns s" and f: "fa_id f = ROOTFID"
  shows "\<exists>t1 t2 t3 t4. let a = nextAddr s;
      s1 = s\<lparr>objs := (objs s)(a \<mapsto> MFattr f, Suc a \<mapsto> MDentry (new_MetaDentry ROOTFID ''/'' ROOTFID a)), nextAddr := Suc (Suc a)\<rparr>;
      s2 = s1\<lparr>tree := t1\<rparr>; s3 = s2\<lparr>tree := t2\<rparr>;
      s4 = s3\<lparr>objs := (objs s3)(Suc (Suc a) \<mapsto> MDentry (new_MetaDentry ROOTFID kThisDir ROOTFID a)), nextAddr := Suc (Suc (Suc a)), tree := t3\<rparr>;
      s5 = s4\<lparr>objs := (objs s4)(Suc (Suc (Suc a)) \<mapsto> MDentry (new_MetaDentry ROOTFID kParentDir ROOTFID 0)), nextAddr := Suc (Suc (Suc (Suc a))), tree := t4\<rparr> in
      insert_meta (Suc a) s1 = Some s2 \<and> insert_meta a s2 = Some s3 \<and>
      link ROOTFID kThisDir KFS_DIR ROOTFID 1 no_stripes kKfsUserNone kKfsGroupNone 0 a s3 = Some (0, 0, s4) \<and>
      link ROOTFID kParentDir KFS_DIR ROOTFID 1 no_stripes kKfsUserNone kKfsGroupNone 0 0 s4 = Some (0, 0, s5) \<and>
      stage s5 {(a, strip f)} {(Suc a, new_MetaDentry ROOTFID ''/'' ROOTFID a), (Suc (Suc a), new_MetaDentry ROOTFID kThisDir ROOTFID a),
        (Suc (Suc (Suc a)), new_MetaDentry ROOTFID kParentDir ROOTFID 0)} {}"
proof -
  define a where "a = nextAddr s"
  define d where "d = new_MetaDentry ROOTFID ''/'' ROOTFID a"
  define e1 where "e1 = new_MetaDentry ROOTFID kThisDir ROOTFID a"
  define e2 where "e2 = new_MetaDentry ROOTFID kParentDir ROOTFID 0"
  define s0 where "s0 = s\<lparr>objs := (objs s)(a \<mapsto> MFattr f), nextAddr := Suc a\<rparr>"
  have st0: "stage s0 {} {} {}" unfolding s0_def a_def by (rule stage_alloc [OF empty_stage [OF e]])
  have n0: "nextAddr s0 = Suc a" by (simp add: s0_def)
  have nc: "no_chunks F {} i" for F i by (simp add: no_chunks_def)
  have fr0: "free {} i n" for i n by (simp add: free_def)
  define s1 where "s1 = s0\<lparr>objs := (objs s0)(Suc a \<mapsto> MDentry d), nextAddr := Suc (Suc a)\<rparr>"
  obtain t1 where t1: "insert_meta (Suc a) s1 = Some (s1\<lparr>tree := t1\<rparr>)" "stage (s1\<lparr>tree := t1\<rparr>) {} {(Suc a, d)} {}"
    using stage_alloc_dentry [OF st0 fr0 nc, of ROOTFID "''/''" ROOTFID a] unfolding n0 s1_def d_def Let_def by blast
  define s2 where "s2 = s1\<lparr>tree := t1\<rparr>"
  have o2: "objs s2 a = Some (MFattr f)" by (simp add: s2_def s1_def s0_def)
  have fresh: "a \<notin> fst ` {} \<union> fst ` {(Suc a, d)} \<union> fst ` {}" by simp
  obtain t2 where t2: "insert_meta a s2 = Some (s2\<lparr>tree := t2\<rparr>)" "stage (s2\<lparr>tree := t2\<rparr>) {(a, strip f)} {(Suc a, d)} {}"
    using stage_insert_fattr [OF t1(2) [folded s2_def] o2 fresh] by blast
  define s3 where "s3 = s2\<lparr>tree := t2\<rparr>"
  have n3: "nextAddr s3 = Suc (Suc a)" by (simp add: s3_def s2_def s1_def)
  have fr: "free {(Suc a, d)} ROOTFID kThisDir" by (simp add: free_insert free_def d_def)
  define s4 where "s4 t = s3\<lparr>objs := (objs s3)(Suc (Suc a) \<mapsto> MDentry e1), nextAddr := Suc (Suc (Suc a)), tree := t\<rparr>" for t
  obtain t3 where t3: "link ROOTFID kThisDir KFS_DIR ROOTFID 1 no_stripes kKfsUserNone kKfsGroupNone 0 a s3 = Some (0, 0, s4 t3)"
    "stage (s4 t3) {(a, strip f)} {(Suc (Suc a), e1), (Suc a, d)} {}"
    using link_dots [OF t2(2) [folded s3_def] _ fr nc, of ROOTFID a] unfolding n3 s4_def e1_def Let_def by blast
  have n4: "nextAddr (s4 t3) = Suc (Suc (Suc a))" by (simp add: s4_def)
  define s5 where "s5 t = (s4 t3)\<lparr>objs := (objs (s4 t3))(Suc (Suc (Suc a)) \<mapsto> MDentry e2), nextAddr := Suc (Suc (Suc (Suc a))), tree := t\<rparr>" for t
  have fr4: "free {(Suc (Suc a), e1), (Suc a, d)} ROOTFID kParentDir" by (simp add: free_def d_def e1_def)
  obtain t4 where t4: "link ROOTFID kParentDir KFS_DIR ROOTFID 1 no_stripes kKfsUserNone kKfsGroupNone 0 0 (s4 t3) = Some (0, 0, s5 t4)"
    "stage (s5 t4) {(a, strip f)} {(Suc (Suc (Suc a)), e2), (Suc (Suc a), e1), (Suc a, d)} {}"
    using link_dots [OF t3(2) _ fr4 nc, of ROOTFID 0] unfolding n4 s5_def e2_def Let_def by blast
  have "{(Suc (Suc (Suc a)), e2), (Suc (Suc a), e1), (Suc a, d)} = {(Suc a, d), (Suc (Suc a), e1), (Suc (Suc (Suc a)), e2)}" by auto
  then show ?thesis
    using t1(1) t2(1) t3(1) t4
    unfolding Let_def a_def [symmetric]
    by (intro exI [of _ t1] exI [of _ t2] exI [of _ t3] exI [of _ t4]) (simp add: s5_def s4_def s3_def s2_def s1_def s0_def d_def e1_def e2_def)
qed

lemma new_tree_ok:
  assumes e: "empty_ns s" and id: "ROOTFID \<le> fileID s"
  shows "\<exists>s'. new_tree u g m s = Some (0, s') \<and> ns_inv s' \<and>
    names s' = [(ROOTFID, ''/'') \<mapsto> ROOTFID, (ROOTFID, kThisDir) \<mapsto> ROOTFID, (ROOTFID, kParentDir) \<mapsto> ROOTFID] \<and> kind s' = [ROOTFID \<mapsto> KFS_DIR] \<and>
    fileID s' = fileID s \<and> CS s' = {}"
proof -
  let ?a = "nextAddr s"
  let ?f = "(new_MetaFattr (clock s) KFS_DIR ROOTFID 1 u g m)\<lparr>parent := 0\<rparr>"
  let ?d = "new_MetaDentry ROOTFID ''/'' ROOTFID ?a" and ?e = "new_MetaDentry ROOTFID kThisDir ROOTFID ?a" and ?g = "new_MetaDentry ROOTFID kParentDir ROOTFID 0"
  let ?D = "{(Suc ?a, ?d), (Suc (Suc ?a), ?e), (Suc (Suc (Suc ?a)), ?g)}"
  have ok: "fs_ok {(?a, strip ?f)} ?D {}" by (rule root_fs_ok) simp_all
  obtain t1 t2 t3 t4 where ins: "let a = nextAddr s;
      s1 = s\<lparr>objs := (objs s)(a \<mapsto> MFattr ?f, Suc a \<mapsto> MDentry ?d), nextAddr := Suc (Suc a)\<rparr>;
      s2 = s1\<lparr>tree := t1\<rparr>; s3 = s2\<lparr>tree := t2\<rparr>;
      s4 = s3\<lparr>objs := (objs s3)(Suc (Suc a) \<mapsto> MDentry ?e), nextAddr := Suc (Suc (Suc a)), tree := t3\<rparr>;
      s5 = s4\<lparr>objs := (objs s4)(Suc (Suc (Suc a)) \<mapsto> MDentry ?g), nextAddr := Suc (Suc (Suc (Suc a))), tree := t4\<rparr> in
      insert_meta (Suc a) s1 = Some s2 \<and> insert_meta a s2 = Some s3 \<and>
      link ROOTFID kThisDir KFS_DIR ROOTFID 1 no_stripes kKfsUserNone kKfsGroupNone 0 a s3 = Some (0, 0, s4) \<and>
      link ROOTFID kParentDir KFS_DIR ROOTFID 1 no_stripes kKfsUserNone kKfsGroupNone 0 0 s4 = Some (0, 0, s5) \<and>
      stage s5 {(a, strip ?f)} ?D {}"
    using root_inserts [OF e, of ?f] unfolding Let_def by auto
  define s5 where "s5 = s\<lparr>objs := (objs s)(?a \<mapsto> MFattr ?f, Suc ?a \<mapsto> MDentry ?d, Suc (Suc ?a) \<mapsto> MDentry ?e, Suc (Suc (Suc ?a)) \<mapsto> MDentry ?g),
    nextAddr := Suc (Suc (Suc (Suc ?a))), tree := t4\<rparr>"
  have st5: "stage s5 {(?a, strip ?f)} ?D {}" using ins unfolding Let_def s5_def by simp
  have nn5: "all_nonneg s5" using e by (auto simp: all_nonneg_def s5_def fattr_at_def empty_ns_def)
  have a5: "fattr_at s5 ?a = Some ?f" by (simp add: s5_def fattr_at_def)
  have "?a \<noteq> 0" using e by (simp add: empty_ns_def)
  then have u: "updateCounts ?a 0 0 1 s5 = Some s5"
    using a5 by (simp add: updateCounts_def) (subst updateCounts_loop.simps, simp)
  have "new_tree u g m s = Some (0, UpdateNumDirs 1 s5)"
    using ins u unfolding Let_def new_tree_def new_tree_eq [OF e] mkdir_tail_def alloc_def by (simp add: s5_def)
  moreover have st6: "stage (UpdateNumDirs 1 s5) {(?a, strip ?f)} ?D {}"
    by (rule stage_same [OF st5]) (simp add: same_store_def UpdateNumDirs_def)
  moreover have "all_nonneg (UpdateNumDirs 1 s5)" using nn5 by (simp add: all_nonneg_def fattr_at_def UpdateNumDirs_def)
  moreover have "ns_sets {(?a, strip ?f)} ?D {} (fileID s)"
    unfolding ns_sets_def
  proof (intro conjI)
    show "\<exists>x d. (x, d) \<in> ?D \<and> d_dir d = ROOTFID \<and> d_name d = ''/''" by (intro exI [of _ "Suc ?a"] exI [of _ ?d]) simp
  qed (use ok id in \<open>auto simp: proper_def\<close>)
  ultimately have "ns_inv (UpdateNumDirs 1 s5)" using ns_invI [OF st6] by (simp add: UpdateNumDirs_def s5_def)
  moreover have "names (UpdateNumDirs 1 s5) = [(ROOTFID, ''/'') \<mapsto> ROOTFID, (ROOTFID, kThisDir) \<mapsto> ROOTFID, (ROOTFID, kParentDir) \<mapsto> ROOTFID]"
  proof (rule names_eqI [OF st6])
    show "[(ROOTFID, ''/'') \<mapsto> ROOTFID, (ROOTFID, kThisDir) \<mapsto> ROOTFID, (ROOTFID, kParentDir) \<mapsto> ROOTFID] (d_dir d, d_name d) = Some (d_fid d)"
      if "(x, d) \<in> ?D" for x d using that by auto
    show "\<exists>x d. (x, d) \<in> ?D \<and> d_dir d = dir \<and> d_name d = n \<and> d_fid d = v"
      if k: "[(ROOTFID, ''/'') \<mapsto> ROOTFID, (ROOTFID, kThisDir) \<mapsto> ROOTFID, (ROOTFID, kParentDir) \<mapsto> ROOTFID] (dir, n) = Some v" for dir n v
    proof -
      have "dir = ROOTFID \<and> v = ROOTFID \<and> (n = ''/'' \<or> n = kThisDir \<or> n = kParentDir)" using k by (simp split: if_splits)
      then consider "dir = ROOTFID" "v = ROOTFID" "n = ''/''" | "dir = ROOTFID" "v = ROOTFID" "n = kThisDir" | "dir = ROOTFID" "v = ROOTFID" "n = kParentDir" by blast
      then show ?thesis
      proof cases
        case 1
        then show ?thesis by (intro exI [of _ "Suc ?a"] exI [of _ ?d]) simp
      next
        case 2
        then show ?thesis by (intro exI [of _ "Suc (Suc ?a)"] exI [of _ ?e]) simp
      next
        case 3
        then show ?thesis by (intro exI [of _ "Suc (Suc (Suc ?a))"] exI [of _ ?g]) simp
      qed
    qed
  qed
  moreover have "kind (UpdateNumDirs 1 s5) = [ROOTFID \<mapsto> KFS_DIR]"
  proof (rule map_eqI)
    show "kind (UpdateNumDirs 1 s5) i = Some t \<longleftrightarrow> [ROOTFID \<mapsto> KFS_DIR] i = Some t" for i t
      unfolding kind_iff [OF st6] by (cases "i = ROOTFID") auto
  qed
  moreover have "fileID (UpdateNumDirs 1 s5) = fileID s" by (simp add: UpdateNumDirs_def s5_def)
  moreover have "CS (UpdateNumDirs 1 s5) = {}" using st6 by (simp add: stage_def)
  moreover have "new_tree u g m s = Some (0, UpdateNumDirs 1 s5)" by fact
  ultimately show ?thesis by blast
qed

end
