(* ===== verification/NsOps.thy ===== *)
theory NsOps
  imports NsInit
begin

text \<open>
  The operations as a whole: looking up names and paths, and that the operations that create
  and remove directories and create files keep the invariant, whatever they return.
\<close>

subsection \<open>The operations as a whole\<close>

text \<open>A proper name that denotes an object.\<close>

lemma names_entry:
  assumes inv: "ns_inv s" and n: "names s (dir, n) = Some i" "n \<noteq> kThisDir" "n \<noteq> kParentDir" "n \<noteq> ''/''"
  obtains x d where "(x, d) \<in> DS s" "proper d" "d_dir d = dir" "d_name d = n" "d_fid d = i"
  using names_someD [OF ns_inv_parts(7) [OF inv] n(1)] n(2-4) by (auto simp: proper_def)

lemma lookup_found:
  assumes inv: "ns_inv s" and "lookup s dir n euser egroup outParent = Some (0, fa, par, x)"
  shows "\<exists>d. (x, d) \<in> DS s \<and> d_dir d = dir \<and> d_name d = n"
proof -
  obtain r where r: "getDentry s dir n = Some r"
    "r = 0 \<and> (\<forall>a d. dentry_in s a d \<longrightarrow> \<not> (d_dir d = dir \<and> d_name d = n)) \<or> (\<exists>d. dentry_in s r d \<and> d_dir d = dir \<and> d_name d = n)"
    using getDentry_spec [OF ns_inv_parts(1) [OF inv]] by metis
  have "r \<noteq> 0" "x = r" using assms(2) r(1) by (auto simp: lookup_def Let_def ENOENT_def EACCES_def split: if_splits bind_splits)
  then show ?thesis using r(2) by (auto simp: in_DS)
qed

text \<open>What \<open>lookup\<close> gives for a proper name.\<close>

lemma lookup_proper_eq:
  assumes inv: "ns_inv s" and d: "(x, d) \<in> DS s" "proper d" and p: "fattr_at s (getFattr s (d_dir d)) = Some p"
  shows "lookup s (d_dir d) (d_name d) euser egroup True =
    Some (if euser = kKfsUserRoot \<or> CanSearch (members s) p euser egroup then (0, getFattr s (d_fid d), getFattr s (d_dir d), x)
          else (- EACCES, 0, getFattr s (d_dir d), x))"
proof -
  obtain f q where f: "fattr_in s (getFattr s (d_fid d)) f" "parent f = getFattr s (d_dir d)" "fattr_in s (parent f) q" "parent f \<noteq> 0"
    "getFattr s (d_fid d) \<noteq> 0" "dentry_at s x = Some d" "x \<noteq> 0" "d_fattr d = 0 \<or> d_fattr d = getFattr s (d_fid d)"
    using proper_entry [OF inv d] by metis
  have g: "getDentry s (d_dir d) (d_name d) = Some x"
    using getDentry_in [OF ns_inv_parts(1) [OF inv]] d(1) by (simp add: in_DS)
  show ?thesis using g f fattr_at_in [OF f(1)] p by (auto simp: lookup_def canAccess_def Let_def)
qed

lemma rmdir_eq:
  assumes inv: "ns_inv s" and d: "(x, d) \<in> DS s" "proper d" and p: "fattr_at s (getFattr s (d_dir d)) = Some p"
    and f: "fattr_at s (getFattr s (d_fid d)) = Some f"
  shows "rmdir (d_dir d) (d_name d) pathname euser egroup s =
    (if \<not> (euser = kKfsUserRoot \<or> CanSearch (members s) p euser egroup) then Some (- EACCES, s)
     else if d_dir d = ROOTFID \<and> d_name d = DUMPSTERDIR then Some (- EPERM, s)
     else if fa_type f \<noteq> KFS_DIR then Some (- ENOTDIR, s)
     else if \<not> CanWrite (members s) p euser egroup then Some (- EACCES, s)
     else if IsDeleteRestricted p f euser then Some (- EPERM, s)
     else if \<not> emptydir s (d_fid d) then Some (- ENOTEMPTY, s)
     else rmdir_tail (d_dir d) (d_name d) pathname (getFattr s (d_fid d)) (d_fid d) s)"
proof -
  have nd: "d_name d \<noteq> kThisDir" "d_name d \<noteq> kParentDir" "d_name d \<noteq> ''/''" using d(2) by (auto simp: proper_def)
  have id: "fa_id f = d_fid d" by (rule proper_fattr(2) [OF inv d f])
  show ?thesis
  proof (cases "euser = kKfsUserRoot \<or> CanSearch (members s) p euser egroup")
    case True
    have l: "lookup s (d_dir d) (d_name d) euser egroup True = Some (0, getFattr s (d_fid d), getFattr s (d_dir d), x)"
      by (simp only: lookup_proper_eq [OF inv d p] True if_True)
    show ?thesis unfolding rmdir_def l using nd p f id
      by (simp only: True if_True not_True_eq_False if_False) (simp add: rmdir_tail_def EACCES_def cong: if_cong)
  next
    case False
    then show ?thesis unfolding rmdir_def lookup_proper_eq [OF inv d p] by (simp add: EACCES_def)
  qed
qed

text \<open>The attributes of a proper entry and of its directory exist.\<close>

lemma proper_attrs:
  assumes "ns_inv s" "(x, d) \<in> DS s" "proper d"
  obtains p f where "fattr_at s (getFattr s (d_dir d)) = Some p" "fattr_at s (getFattr s (d_fid d)) = Some f" "fa_id p = d_dir d" "fa_type p = KFS_DIR"
  using proper_entry [OF assms] fattr_at_in by metis

lemma rmdir_keeps:
  assumes inv: "ns_inv s" and h: "hgt (tree s) \<le> 16" and r: "rmdir dir n pathname euser egroup s = Some (st, s')"
  shows "ns_inv s'"
proof (cases "\<exists>x d. (x, d) \<in> DS s \<and> proper d \<and> d_dir d = dir \<and> d_name d = n")
  case True
  then obtain x d where d: "(x, d) \<in> DS s" "proper d" "d_dir d = dir" "d_name d = n" by blast
  obtain p f where p: "fattr_at s (getFattr s (d_dir d)) = Some p" "fattr_at s (getFattr s (d_fid d)) = Some f" using proper_attrs [OF inv d(1,2)] by metis
  have eq: "Some (st, s') = (if \<not> (euser = kKfsUserRoot \<or> CanSearch (members s) p euser egroup) then Some (- EACCES, s)
     else if d_dir d = ROOTFID \<and> d_name d = DUMPSTERDIR then Some (- EPERM, s)
     else if fa_type f \<noteq> KFS_DIR then Some (- ENOTDIR, s)
     else if \<not> CanWrite (members s) p euser egroup then Some (- EACCES, s)
     else if IsDeleteRestricted p f euser then Some (- EPERM, s)
     else if \<not> emptydir s (d_fid d) then Some (- ENOTEMPTY, s)
     else rmdir_tail (d_dir d) (d_name d) pathname (getFattr s (d_fid d)) (d_fid d) s)"
    using rmdir_eq [OF inv d(1,2) p] r d(3,4) by simp
  show ?thesis
  proof (cases "fa_type f = KFS_DIR \<and> emptydir s (d_fid d) \<and> rmdir_tail (d_dir d) (d_name d) pathname (getFattr s (d_fid d)) (d_fid d) s = Some (st, s')")
    case True
    then have t: "fa_type f = KFS_DIR" "emptydir s (d_fid d)"
      "rmdir_tail (d_dir d) (d_name d) pathname (getFattr s (d_fid d)) (d_fid d) s = Some (st, s')" by blast+
    have "\<exists>s'. rmdir_tail (d_dir d) (d_name d) pathname (getFattr s (d_fid d)) (d_fid d) s = Some (0, s') \<and> ns_inv s'"
      using rmdir_tail_ok [OF inv h d(1,2) p(2) t(1,2)] t(3) by blast
    then show ?thesis using t(3) by auto
  next
    case False
    then have "s' = s" using eq by (auto split: if_splits)
    then show ?thesis using inv by simp
  qed
next
  case False
  have "s' = s"
  proof (rule ccontr)
    assume "s' \<noteq> s"
    then obtain fa par x where l: "lookup s dir n euser egroup True = Some (0, fa, par, x)"
      and n: "\<not> (dir = ROOTFID \<and> n = ''/'')" "n \<noteq> kThisDir" "n \<noteq> kParentDir"
      using r unfolding rmdir_def by (auto split: bind_splits if_splits)
    obtain d where d: "(x, d) \<in> DS s" "d_dir d = dir" "d_name d = n" using lookup_found [OF inv l] by blast
    have "n \<noteq> ''/''" using fs_slash [OF ns_inv_parts(6) [OF inv] d(1)] d(2,3) n(1) by auto
    then show False using False d n by (auto simp: proper_def)
  qed
  then show ?thesis using inv by simp
qed

subsection \<open>Looking up a path\<close>

declare walk.simps [simp del]

text \<open>Every entry leads to attributes, and the super user may follow each of them.\<close>

lemma entry_target:
  assumes inv: "ns_inv s" and d: "(x, d) \<in> DS s"
  obtains f where "fattr_in s (getFattr s (d_fid d)) f" "fa_id f = d_fid d" "getFattr s (d_fid d) \<noteq> 0" "dentry_at s x = Some d" "x \<noteq> 0"
    "getDentry s (d_dir d) (d_name d) = Some x" "(if d_fattr d \<noteq> 0 then d_fattr d else getFattr s (d_fid d)) = getFattr s (d_fid d)"
proof -
  note P = ns_inv_parts [OF inv]
  obtain b f where f: "fattr_in s b f" "fa_id f = d_fid d" "d_fattr d = 0 \<or> d_fattr d = b"
    using fs_target [OF P(3) d] by (auto simp: in_FS)
  have b: "b = getFattr s (d_fid d)" using getFattr_in [OF P(1) f(1)] f(2) by simp
  have nz: "b \<noteq> 0" "x \<noteq> 0" using live_addr [OF P(1)] f(1) d by (force simp: in_DS in_defs)+
  have "getDentry s (d_dir d) (d_name d) = Some x" using getDentry_in [OF P(1)] d by (simp add: in_DS)
  then show thesis using that f b nz d by (auto simp: in_DS dentry_at_in)
qed

lemma lookup_root_user:
  assumes "ns_inv s" "(x, d) \<in> DS s"
  shows "lookup s (d_dir d) (d_name d) kKfsUserRoot egroup False = Some (0, getFattr s (d_fid d), 0, x)"
  by (rule entry_target [OF assms]) (simp add: lookup_def canAccess_def Let_def)

lemma comps_legal: "comps s a ns \<Longrightarrow> list_all legalname ns"
  by (induction rule: comps.induct) auto

lemma legal_slash: "legalname n \<Longrightarrow> n \<noteq> [] \<and> list_all not_slash n"
  by (auto simp: legalname_def not_slash_def list_all_iff)

lemma split_slash:
  assumes "list_all not_slash n"
  shows "takeWhile not_slash (n @ CHR ''/'' # rest) = n" "dropWhile not_slash (n @ CHR ''/'' # rest) = CHR ''/'' # rest"
    "takeWhile not_slash n = n" "dropWhile not_slash n = []"
  using assms by (induction n) (auto simp: not_slash_def)

lemma walk_comps:
  assumes inv: "ns_inv s" and c: "comps s a ns" and f: "fattr_in s a f" "fa_type f = KFS_DIR" and r: "rest \<noteq> []" "hd rest \<noteq> CHR ''/''"
  shows "walk s kKfsUserRoot g ROOTFID uc (if ns = [] then rest else join ns @ ''/'' @ rest) = walk s kKfsUserRoot g (fa_id f) uc rest"
  using c f r
proof (induction arbitrary: rest f rule: comps.induct)
  case (root a h)
  then show ?case using fattr_at_in [OF root(1)] fattr_at_in [OF root(4)] by simp
next
  case (step a h p ns x d)
  note P = ns_inv_parts [OF inv]
  have fh: "f = h" using fattr_at_in [OF step(1)] fattr_at_in [OF step.prems(1)] by simp
  have n: "d_name d \<noteq> []" "list_all not_slash (d_name d)" using legal_slash [OF step(11)] by auto
  have nd: "d_name d \<noteq> kThisDir" "d_name d \<noteq> kParentDir" using step(10) by (auto simp: proper_def)
  have h1: "hd (d_name d @ ''/'' @ rest) \<noteq> CHR ''/''" using n by (cases "d_name d") (auto simp: not_slash_def)
  have dr: "dropWhile (\<lambda>c. \<not> not_slash c) rest = rest" "\<exists>c\<in>set rest. not_slash c" "\<not> not_slash CHR ''/''"
    using step.prems(3,4) by (cases rest; auto simp: not_slash_def)+
  have D: "(x, d) \<in> DS s" using step(7) by (simp add: in_DS)
  obtain h' where t: "fattr_in s (getFattr s (d_fid d)) h'" "getFattr s (d_fid d) \<noteq> 0" "dentry_at s x = Some d" "x \<noteq> 0"
    "getDentry s (d_dir d) (d_name d) = Some x" "(if d_fattr d \<noteq> 0 then d_fattr d else getFattr s (d_fid d)) = getFattr s (d_fid d)"
    by (rule entry_target [OF inv D])
  have a: "getFattr s (d_fid d) = a" using getFattr_in [OF P(1) step(1)] step(9) by simp
  have "(if ns @ [d_name d] = [] then rest else join (ns @ [d_name d]) @ ''/'' @ rest) =
        (if ns = [] then d_name d @ ''/'' @ rest else join ns @ ''/'' @ (d_name d @ ''/'' @ rest))" by (simp add: join_snoc)
  also have "walk s kKfsUserRoot g ROOTFID uc \<dots> = walk s kKfsUserRoot g (fa_id p) uc (d_name d @ ''/'' @ rest)"
    by (rule step.IH [OF step(4,5) _ h1]) simp
  also have "\<dots> = walk s kKfsUserRoot g (fa_id f) uc rest"
    using t a step(8,9) fattr_at_in [OF step(1)] step.prems(2,3) n nd fh
    by (subst walk.simps) (simp add: split_slash dr Let_def)
  finally show ?case .
qed

text \<open>The path of an object leads back to it, unless the cache says otherwise.\<close>

lemma lookupPath_comps:
  assumes inv: "ns_inv s" and c: "comps s a ns" and free: "cache_find (''/'' @ join ns) (pathCache s) = None"
  shows "\<exists>s'. lookupPath r (''/'' @ join ns) kKfsUserRoot g s = Some (0, a, s')"
  using c
proof cases
  case (root f)
  note P = ns_inv_parts [OF inv]
  obtain x d where d: "(x, d) \<in> DS s" "d_dir d = ROOTFID" "d_name d = ''/''" using inv by (auto simp: ns_inv_def ns_sets_def)
  have id: "d_fid d = ROOTFID" using fs_slash [OF P(6) d(1)] d(3) by simp
  have "getFattr s ROOTFID = a" using getFattr_in [OF P(1) root(2)] root(3) by simp
  then have "lookup s ROOTFID ''/'' kKfsUserRoot g False = Some (0, a, 0, x)" using lookup_root_user [OF inv d(1), of g] d id by simp
  then show ?thesis using root by (simp add: lookupPath_def absolute_def char_at_def not_slash_def Let_def)
next
  case (step f p ms x d)
  note P = ns_inv_parts [OF inv]
  have n: "d_name d \<noteq> []" "list_all not_slash (d_name d)" using legal_slash [OF step(12)] by auto
  have h1: "hd (d_name d) \<noteq> CHR ''/''" using n by (cases "d_name d") (auto simp: not_slash_def)
  have D: "(x, d) \<in> DS s" using step(8) by (simp add: in_DS)
  have j: "join ns = (if ms = [] then d_name d else join ms @ ''/'' @ d_name d)" using step(1) by (simp add: join_snoc)
  have w: "walk s kKfsUserRoot g ROOTFID uc (join ns) = Some (Inr (fa_id p, d_name d, uc))" for uc
    unfolding j walk_comps [OF inv step(7,5,6) n(1) h1] using n by (subst walk.simps) (simp add: split_slash Let_def)
  have ne: "join ns \<noteq> [] \<and> hd (join ns) \<noteq> CHR ''/''"
  proof (cases ms)
    case Nil
    then show ?thesis using n h1 j by simp
  next
    case (Cons m ms')
    have "legalname m" using comps_legal [OF step(7)] Cons by simp
    then show ?thesis using legal_slash [of m] Cons by (cases ms'; cases m) (auto simp: j not_slash_def)
  qed
  have ds: "dropWhile (\<lambda>c. \<not> not_slash c) (CHR ''/'' # join ns) = join ns" using ne by (cases "join ns") (auto simp: not_slash_def)
  have l: "lookup s (fa_id p) (d_name d) kKfsUserRoot g' False = Some (0, a, 0, x)" for g'
    using lookup_root_user [OF inv D, of g'] step(9,10) getFattr_in [OF P(1) step(2)] by simp
  show ?thesis using free ne w l fattr_at_in [OF step(2)] ds by (auto simp: lookupPath_def absolute_def char_at_def Let_def)
qed

lemma getPathname_lookupPath:
  assumes inv: "ns_inv s" and f: "fattr_in s a f" and p: "allowFidToPathConversion s" "getPathname s a = Some path" "cache_find path (pathCache s) = None"
  shows "\<exists>s'. lookupPath r path kKfsUserRoot g s = Some (0, a, s')"
proof -
  obtain ns where ns: "comps s a ns" using comps_exist [OF inv f] by blast
  have "path = ''/'' @ join ns" using getPathname_comps [OF inv ns p(1)] p(2) by simp
  then show ?thesis using lookupPath_comps [OF inv ns] p(3) by simp
qed

subsection \<open>The operations keep the invariant, whatever they return\<close>

lemma dir_kind: "ns_inv s \<Longrightarrow> fattr_at s (getFattr s i) = Some p \<Longrightarrow> fa_type p = KFS_DIR \<Longrightarrow> getFattr s i \<noteq> 0 \<Longrightarrow> kind s i = Some KFS_DIR"
  using getFattr_iff [OF ns_inv_parts(1), of s i "getFattr s i"] fattr_at_in [of s "getFattr s i"] kind_iff [OF ns_inv_parts(7), of s i KFS_DIR]
  by (fastforce simp: in_FS)

lemma root_kind: "ns_inv s \<Longrightarrow> kind s ROOTFID = Some KFS_DIR"
  using fs_root [OF ns_inv_parts(4)] kind_iff [OF ns_inv_parts(7), of s ROOTFID KFS_DIR] by blast

lemma root_slash: "ns_inv s \<Longrightarrow> names s (ROOTFID, ''/'') \<noteq> None"
  using names_none(1) [OF ns_inv_parts(7), of s ROOTFID "''/''"] by (auto simp: ns_inv_def ns_sets_def free_def)

lemma mkdir_keeps:
  assumes inv: "ns_inv s" and id: "fileID s \<noteq> - 1" and r: "mkdir dir n u g m euser egroup 0 s = Some (st, i, fa, s')"
  shows "ns_inv s' \<and> (st = 0 \<or> s' = s)"
proof (cases "legalname n \<and> names s (dir, n) = None \<and> (\<exists>p. kind s dir = Some KFS_DIR \<and> fattr_at s (getFattr s dir) = Some p \<and> CanWrite (members s) p euser egroup)")
  case True
  then obtain p where p: "legalname n" "names s (dir, n) = None" "kind s dir = Some KFS_DIR" "fattr_at s (getFattr s dir) = Some p" "CanWrite (members s) p euser egroup"
    by blast
  show ?thesis using mkdir_ok [OF inv p id, of u g m] r by auto
next
  case False
  have sl: "names s (ROOTFID, ''/'') \<noteq> None" and rk: "kind s ROOTFID = Some KFS_DIR" by (rule root_slash [OF inv], rule root_kind [OF inv])
  have nn: "getDentry s dir n = Some 0 \<Longrightarrow> names s (dir, n) = None" using null_at [OF ns_inv_parts(1) [OF inv]] by (simp add: names_def)
  have k: "kind s dir = Some KFS_DIR \<Longrightarrow> getFattr s dir \<noteq> 0 \<and> (\<exists>p. fattr_at s (getFattr s dir) = Some p)"
    using ns_fattr [OF inv] fattr_at_in by metis
  have "s' = s"
  proof (rule ccontr)
    assume c: "s' \<noteq> s"
    have leg: "legalname n \<or> dir = ROOTFID \<and> n = ''/''" using r c by (auto simp: mkdir_def split: if_splits)
    have "\<exists>d. getDentry s dir n = Some d \<and> \<not> d \<noteq> 0" using r c
      by (auto simp: mkdir_def Let_def split: if_splits bind_splits)
    then have none: "names s (dir, n) = None" using nn by auto
    then have "legalname n" using leg sl by auto
    have ty: "getFattr s dir \<noteq> 0 \<and> (\<exists>p. fattr_at s (getFattr s dir) = Some p \<and> fa_type p = KFS_DIR)"
    proof (cases "dir = ROOTFID")
      case True
      then show ?thesis using kind_fattr [OF inv rk] k rk by auto
    next
      case d: False
      then show ?thesis using r c none sl legal_dots(3) \<open>legalname n\<close>
        by (auto simp: mkdir_def Let_def split: if_splits bind_splits option.splits)
    qed
    then obtain p where p: "fattr_at s (getFattr s dir) = Some p" "fa_type p = KFS_DIR" "getFattr s dir \<noteq> 0" by blast
    have "CanWrite (members s) p euser egroup" using r c p by (auto simp: mkdir_def Let_def split: if_splits bind_splits)
    then show False using False \<open>legalname n\<close> none dir_kind [OF inv p] p(1) by blast
  qed
  then show ?thesis using inv by simp
qed

lemma create_keeps:
  assumes inv: "ns_inv s" and id: "fileID s \<noteq> - 1" and r: "create dir n 0 nrep True sp td u g m euser egroup s = Some (st, i, td', fa, s')"
  shows "ns_inv s'"
proof (cases "legalname n \<and> 0 < nrep \<and> names s (dir, n) = None \<and> (\<exists>p. fattr_at s (getFattr s dir) = Some p \<and> fa_type p = KFS_DIR \<and> getFattr s dir \<noteq> 0 \<and> CanWrite (members s) p euser egroup)")
  case True
  then obtain p where p: "legalname n" "0 < nrep" "names s (dir, n) = None" "fattr_at s (getFattr s dir) = Some p" "fa_type p = KFS_DIR"
    "getFattr s dir \<noteq> 0" "CanWrite (members s) p euser egroup" by blast
  note P = ns_inv_parts [OF inv]
  obtain a b c d where sp: "sp = (a, b, c, d)" by (cases sp)
  show ?thesis
  proof (cases "fst (SetStriped a b c d (new_MetaFattr (clock s) KFS_FILE (fileID s + 1) nrep u g m))")
    case True
    then show ?thesis using create_ok [OF inv p(1,3) dir_kind [OF inv p(4-6)] p(4,7) id p(2) True, of True td] r sp by auto
  next
    case False
    let ?s = "s\<lparr>fileID := fileID s + 1\<rparr>"
    have g: "getDentry s dir n = Some 0" and fr: "free (DS s) dir n" using names_none [OF P(7)] p(3) by blast+
    note K = kind_fattr [OF inv dir_kind [OF inv p(4-6)] p(4)]
    have np: "n \<noteq> kThisDir" "n \<noteq> kParentDir" using free_proper [OF P(6) K(2) _ p(1)] p(5) K(3) fr by simp_all
    have "link dir n KFS_FILE (fileID s + 1) nrep sp u g m (getFattr s dir) ?s = Some (- EINVAL, 0, ?s)"
      using False sp np p(1) by (auto simp: link_def split: prod.splits)
    then have "s' = ?s" using create_eq [OF p(1,2,6,4,5,7) g] r by (auto simp: create_tail_def EINVAL_def)
    moreover have "ns_inv ?s"
    proof (rule ns_invI [OF stage_same [OF P(7)]])
      show "ns_sets (FS s) (DS s) (CS s) (fileID ?s)" using inv genid_fresh(3) [OF id] by (simp add: ns_inv_def ns_sets_def)
    qed (use P(9) in \<open>simp_all add: same_store_def all_nonneg_def fattr_at_def\<close>)
    ultimately show ?thesis by simp
  qed
next
  case False
  have nn: "getDentry s dir n = Some 0 \<Longrightarrow> names s (dir, n) = None" using null_at [OF ns_inv_parts(1) [OF inv]] by (simp add: names_def)
  have "s' = s"
  proof (rule ccontr)
    assume c: "s' \<noteq> s"
    have "legalname n \<and> 0 < nrep \<and> (\<exists>p. fattr_at s (getFattr s dir) = Some p \<and> fa_type p = KFS_DIR \<and> getFattr s dir \<noteq> 0 \<and> CanWrite (members s) p euser egroup)"
      using r c by (auto simp: create_def Let_def split: if_splits bind_splits)
    then obtain d where d: "getDentry s dir n = Some d" "d \<noteq> 0" using False nn r
      by (cases "getDentry s dir n") (auto simp: create_def lookup_def Let_def split: bind_splits)
    show False using r c d by (auto simp: create_def lookup_def Let_def EACCES_def ENOENT_def EEXIST_def EISDIR_def split: if_splits bind_splits)
  qed
  then show ?thesis using inv by simp
qed

end
