(* ===== verification/NsRenameOps.thy ===== *)
theory NsRenameOps
  imports NsOps
begin

text \<open>
  Renaming and removing as a whole: the checks in front of the move and of the deletion, what
  the names are afterwards, and that the operations keep the invariant, whatever they return.
\<close>

subsection \<open>The path cache is not part of the name space\<close>

lemma pathCache_same:
  "ns_inv (s\<lparr>pathCache := c\<rparr>) = ns_inv s" "FS (s\<lparr>pathCache := c\<rparr>) = FS s" "DS (s\<lparr>pathCache := c\<rparr>) = DS s" "CS (s\<lparr>pathCache := c\<rparr>) = CS s"
  "fattr_in (s\<lparr>pathCache := c\<rparr>) = fattr_in s" "fattr_at (s\<lparr>pathCache := c\<rparr>) = fattr_at s" "dentry_at (s\<lparr>pathCache := c\<rparr>) = dentry_at s"
proof -
  have same: "same_store s (s\<lparr>pathCache := c\<rparr>)" by (simp add: same_store_def)
  show "FS (s\<lparr>pathCache := c\<rparr>) = FS s" "DS (s\<lparr>pathCache := c\<rparr>) = DS s" "CS (s\<lparr>pathCache := c\<rparr>) = CS s" "fattr_in (s\<lparr>pathCache := c\<rparr>) = fattr_in s"
    using same_store_in [OF same] by (auto simp: FS_def DS_def CS_def fun_eq_iff)
  show "fattr_at (s\<lparr>pathCache := c\<rparr>) = fattr_at s" "dentry_at (s\<lparr>pathCache := c\<rparr>) = dentry_at s" by (simp_all add: fun_eq_iff fattr_at_def dentry_at_def)
  then show "ns_inv (s\<lparr>pathCache := c\<rparr>) = ns_inv s"
    using same_store_inv [OF same] same_store_in [OF same] by (simp add: ns_inv_def FS_def DS_def CS_def all_nonneg_def)
qed

definition cached :: "NS \<Rightarrow> NS \<Rightarrow> bool" where
  "cached s s' \<longleftrightarrow> (\<exists>c. s' = s\<lparr>pathCache := c\<rparr>)"

lemma cached_simps [simp]: "cached s s" "cached s (s\<lparr>pathCache := c\<rparr>)"
  by (auto simp: cached_def intro: exI [of _ "pathCache s"])

lemma pathCache_views:
  assumes "ns_inv s"
  shows "names (s\<lparr>pathCache := c\<rparr>) = names s" "kind (s\<lparr>pathCache := c\<rparr>) = kind s"
proof -
  have "stage (s\<lparr>pathCache := c\<rparr>) (FS s) (DS s) (CS s)" by (rule stage_same [OF ns_inv_parts(7) [OF assms]]) (simp add: same_store_def)
  then show "names (s\<lparr>pathCache := c\<rparr>) = names s" "kind (s\<lparr>pathCache := c\<rparr>) = kind s"
    using names_same kind_same ns_inv_parts(7) [OF assms] by blast+
qed

lemma lookup_in:
  assumes inv: "ns_inv s" and l: "lookup s dir n euser egroup outParent = Some (0, fa, par, x)"
  obtains d f where "(x, d) \<in> DS s" "d_dir d = dir" "d_name d = n" "fattr_in s fa f" "fa_id f = d_fid d" "fa = getFattr s (d_fid d)"
proof -
  obtain d where d: "(x, d) \<in> DS s" "d_dir d = dir" "d_name d = n" using lookup_found [OF inv l] by blast
  obtain f where f: "fattr_in s (getFattr s (d_fid d)) f" "fa_id f = d_fid d" "getFattr s (d_fid d) \<noteq> 0" "dentry_at s x = Some d" "x \<noteq> 0"
    "getDentry s (d_dir d) (d_name d) = Some x" "(if d_fattr d \<noteq> 0 then d_fattr d else getFattr s (d_fid d)) = getFattr s (d_fid d)"
    by (rule entry_target [OF inv d(1)])
  then have "fa = getFattr s (d_fid d)" using l d by (auto simp: lookup_def Let_def EACCES_def split: if_splits bind_splits)
  then show thesis using that d f by blast
qed

lemma walk_in:
  assumes inv: "ns_inv s" and w: "walk s euser egroup dir uc rest = Some (Inl (0, fa))"
  shows "\<exists>f. fattr_in s fa f"
  using w
proof (induction "length rest" arbitrary: dir uc rest rule: less_induct)
  case (less rest)
  define c sl n where "c = takeWhile not_slash rest" and "sl = dropWhile not_slash rest" and "n = dropWhile (\<lambda>c. \<not> not_slash c) sl"
  note w = less.prems [unfolded walk.simps [of s euser egroup dir uc rest] Let_def, folded c_def sl_def, folded n_def]
  have sl: "sl \<noteq> []" using w by auto
  obtain x where x: "getDentry s dir c = Some x" "x \<noteq> 0" using w sl by (auto simp: ENOENT_def split: if_splits bind_splits)
  obtain d where d: "(x, d) \<in> DS s" using getDentry_spec [OF ns_inv_parts(1) [OF inv], of dir c] x by (auto simp: in_DS)
  obtain f where f: "fattr_in s (getFattr s (d_fid d)) f" "getFattr s (d_fid d) \<noteq> 0" "dentry_at s x = Some d"
    "(if d_fattr d \<noteq> 0 then d_fattr d else getFattr s (d_fid d)) = getFattr s (d_fid d)" by (rule entry_target [OF inv d])
  show ?case
  proof (cases "n = []")
    case True
    then show ?thesis using w x sl f fattr_at_in [OF f(1)] by (auto simp: ENOTDIR_def split: if_splits)
  next
    case False
    obtain uc' where "walk s euser egroup (d_fid d) uc' n = Some (Inl (0, fa))"
      using w x sl f fattr_at_in [OF f(1)] False by (auto simp: ENOTDIR_def EACCES_def split: if_splits)
    moreover have "length n < length rest" using slash_rest [of rest] sl by (simp add: n_def sl_def)
    ultimately show ?thesis using less.hyps by blast
  qed
qed

text \<open>Looking up a path changes the path cache only, and finds attributes of the name space.\<close>

definition path_tail :: "kfsUid_t \<Rightarrow> kfsGid_t \<Rightarrow> fid_t \<Rightarrow> bool \<Rightarrow> string \<Rightarrow> string \<Rightarrow> NS \<Rightarrow> (int \<times> addr \<times> NS) option" where
  "path_tail euser egroup cdir usecache path cstart s =
     do { r \<leftarrow> walk s euser egroup cdir usecache cstart;
          case r of
            Inl (status, fa) \<Rightarrow> Some (status, fa, s)
          | Inr (dir, component, usecache) \<Rightarrow>
              do { (status, fa, _) \<leftarrow> lookup s dir component (if cdir = dir then euser else kKfsUserRoot) (if cdir = dir then egroup else kKfsGroupRoot) False;
                   if usecache \<and> status = 0 \<and> fa \<noteq> 0 \<and> isPathToFidCacheEnabled s
                   then do { f \<leftarrow> fattr_at s fa;
                             Some (status, fa, s\<lparr>pathCache := cache_insert path \<lparr>ce_fid = fa_id f, ce_fa = fa, ce_lastAccessTime = seconds s\<rparr> (pathCache s)\<rparr>) }
                   else Some (status, fa, s) } }"

lemma path_tail_in:
  assumes inv: "ns_inv s" and l: "path_tail euser egroup cdir uc path cstart s = Some (st, fa, s')"
  shows "cached s s' \<and> (st = 0 \<longrightarrow> (\<exists>f. fattr_in s fa f))"
proof -
  obtain r where r: "walk s euser egroup cdir uc cstart = Some r" using l by (auto simp: path_tail_def split: bind_splits)
  show ?thesis
  proof (cases r)
    case (Inl p)
    then obtain st' fa' where p: "r = Inl (st', fa')" by (cases p) auto
    have "cached s s'" using l r p by (auto simp: path_tail_def)
    moreover have "st = 0 \<longrightarrow> (\<exists>f. fattr_in s fa f)" using walk_in [OF inv, of euser egroup cdir uc cstart fa] l r p by (auto simp: path_tail_def)
    ultimately show ?thesis by blast
  next
    case (Inr p)
    then obtain dir n uc' where p: "r = Inr (dir, n, uc')" by (cases p) auto
    obtain fa' par x where "lookup s dir n (if cdir = dir then euser else kKfsUserRoot) (if cdir = dir then egroup else kKfsGroupRoot) False = Some (st, fa', par, x)"
      "fa' = fa" using l r p by (auto simp: path_tail_def split: bind_splits if_splits)
    then have "st = 0 \<longrightarrow> (\<exists>f. fattr_in s fa f)" using lookup_in [OF inv] by metis
    moreover have "cached s s'" using l r p by (auto simp: path_tail_def split: bind_splits if_splits)
    ultimately show ?thesis by blast
  qed
qed

lemma lookupPath_in:
  assumes inv: "ns_inv s" and l: "lookupPath r path euser egroup s = Some (st, fa, s')"
  shows "cached s s' \<and> (st = 0 \<longrightarrow> fa = 0 \<or> (\<exists>f. fattr_in s fa f))"
proof -
  define cdir where "cdir = (if r = 0 \<or> absolute path then ROOTFID else r)"
  define cstart where "cstart = (if absolute path then dropWhile (\<lambda>c. \<not> not_slash c) path else path)"
  define uc where "uc = (isPathToFidCacheEnabled s \<and> absolute path \<and> length path = Suc (length cstart))"
  define hit where "hit = (if uc then cache_find path (pathCache s) else None)"
  note l' = l [unfolded lookupPath_def Let_def, folded cdir_def cstart_def, folded uc_def, folded hit_def]
  consider "path = []" | "path \<noteq> []" "cstart = []" | e where "path \<noteq> []" "cstart \<noteq> []" "hit = Some e" "getFattr s (ce_fid e) = ce_fa e"
    | c where "path \<noteq> []" "path_tail euser egroup cdir uc path cstart (s\<lparr>pathCache := c\<rparr>) = Some (st, fa, s')"
  proof (cases "path = [] \<or> cstart = []")
    case True
    then show thesis using that(1,2) by blast
  next
    case False
    show thesis
    proof (cases "\<exists>e. hit = Some e \<and> getFattr s (ce_fid e) = ce_fa e")
      case True
      then show thesis using that(3) False by blast
    next
      case miss: False
      then have "(case hit of None \<Rightarrow> None | Some e \<Rightarrow> if getFattr s (ce_fid e) = ce_fa e then Some e else None) = None"
        by (auto split: option.splits)
      then have "path_tail euser egroup cdir uc path cstart (if hit = None then s else s\<lparr>pathCache := cache_erase path (pathCache s)\<rparr>) = Some (st, fa, s')"
        using l' False unfolding path_tail_def by simp
      then show thesis using that(4) [of "if hit = None then pathCache s else cache_erase path (pathCache s)"] False by (cases "hit = None") auto
    qed
  qed
  then show ?thesis
  proof cases
    case 1
    then show ?thesis using l' by (auto simp: ENOENT_def)
  next
    case 2
    then obtain par x where "lookup s cdir ''/'' euser egroup False = Some (st, fa, par, x)" "s' = s" using l' by (auto split: bind_splits)
    then show ?thesis using lookup_in [OF inv] cached_simps(1) by metis
  next
    case (3 e)
    then have "s' = s\<lparr>pathCache := cache_touch path (seconds s) (pathCache s)\<rparr>" "fa = getFattr s (ce_fid e)" using l' by auto
    then show ?thesis using getFattr_iff [OF ns_inv_parts(1) [OF inv], of "ce_fid e" fa] cached_simps(2) by blast
  next
    case (4 c)
    then show ?thesis using path_tail_in [of "s\<lparr>pathCache := c\<rparr>"] inv by (auto simp: pathCache_same cached_def)
  qed
qed

subsection \<open>Renaming\<close>

text \<open>What \<open>rename\<close> does once it has found what to move and where.\<close>

definition rename_tail :: "addr \<Rightarrow> addr \<Rightarrow> string \<Rightarrow> string \<Rightarrow> fid_t \<Rightarrow> string \<Rightarrow> addr \<Rightarrow> fid_t \<Rightarrow> NS \<Rightarrow> (int \<times> fid_t \<times> NS) option" where
  "rename_tail src sfattr oldname oldpath ddir dname ddfattr td s =
     do { s \<leftarrow> invalidatePathCache oldpath oldname sfattr True s;
          s \<leftarrow> rename_move src sfattr ddir dname ddfattr s;
          Some (0, td, s) }"

text \<open>The names after the object \<open>i\<close> moved; the entry \<open>..\<close> of a directory follows it.\<close>

definition moved :: "(fid_t \<Rightarrow> FileType option) \<Rightarrow> (fid_t \<times> string \<Rightarrow> fid_t option) \<Rightarrow> fid_t \<times> string \<Rightarrow> fid_t \<times> string \<Rightarrow> fid_t \<Rightarrow>
    (fid_t \<times> string \<Rightarrow> fid_t option)" where
  "moved K N old new i =
     (let N = N(old := None, new \<mapsto> i) in if K i = Some KFS_DIR then N((i, kParentDir) \<mapsto> fst new) else N)"

lemma move_pre_cached: "move_pre s x d a f qa Q n \<Longrightarrow> move_pre (s\<lparr>pathCache := c\<rparr>) x d a f qa Q n"
  by (simp add: move_pre_def pathCache_same)

lemma kind_in: "ns_inv s \<Longrightarrow> fattr_in s a f \<Longrightarrow> kind s (fa_id f) = Some (fa_type f)"
  using kind_iff [OF ns_inv_parts(7), of s "fa_id f" "fa_type f"] by (force simp: in_FS)

lemma rename_tail_ok:
  assumes m: "move_pre s x d a f qa Q n" and dd: "dd = 0 \<and> qa = parent f \<or> dd = qa"
    and r: "dd = 0 \<or> acct_ok s a (- getFileSize f) (- fileCnt f) (- dirCnt f) \<and> fa_type f \<noteq> KFS_NONE \<or> rename_tail x a oldname oldpath (fa_id Q) n dd td s \<noteq> None"
  shows "\<exists>s'. rename_tail x a oldname oldpath (fa_id Q) n dd td s = Some (0, td, s') \<and> ns_inv s' \<and>
    names s' = moved (kind s) (names s) (d_dir d, d_name d) (fa_id Q, n) (d_fid d) \<and> kind s' = kind s"
proof -
  note M = move_parts [OF m] and P = ns_inv_parts [OF move_parts(1) [OF m]]
  obtain c where c: "invalidatePathCache oldpath oldname a True s = Some (s\<lparr>pathCache := c\<rparr>)" using invalidatePathCache_ok [OF M(1,21)] by blast
  let ?s = "s\<lparr>pathCache := c\<rparr>"
  have m': "move_pre ?s x d a f qa Q n" by (rule move_pre_cached [OF m])
  have k: "kind s (d_fid d) = Some (fa_type f)" using kind_in [OF M(1,21)] M(5) by simp
  have v: "names ?s = names s" "kind ?s = kind s" using pathCache_views [OF M(1)] by auto
  have acct: "acct_ok ?s a u v w = acct_ok s a u v w" for u v w by (rule acct_fattr) (simp_all add: pathCache_same)
  have "\<exists>s'. rename_move x a (fa_id Q) n dd ?s = Some s' \<and> ns_inv s' \<and> names s' = moved (kind s) (names s) (d_dir d, d_name d) (fa_id Q, n) (d_fid d) \<and> kind s' = kind s"
  proof (cases "dd = 0")
    case True
    then have qa: "qa = parent f" using dd M(19) by auto
    have dots: "(names s)((d_dir d, d_name d) := None, (fa_id Q, n) \<mapsto> d_fid d) = moved (kind s) (names s) (d_dir d, d_name d) (fa_id Q, n) (d_fid d)"
    proof (cases "fa_type f = KFS_DIR")
      case True
      obtain z g where g: "(z, g) \<in> DS s" "d_dir g = fa_id f" "d_name g = kParentDir" using dots_of_dir [OF M(1,21) True] by metis
      have "fa_id f \<noteq> ROOTFID" using fs_link_parent [OF P(5) M(3,4,15)] M(5) by simp
      then obtain h where "(parent f, h) \<in> FS s" "fa_id h = d_fid g" using fs_dotdot [OF P(6) g(1,3) M(15)] g(2) by auto
      then have "d_fid g = fa_id Q" using fs_ids [OF P(3) _ M(16), of "parent f" h] qa by auto
      then have "names s (d_fid d, kParentDir) = Some (fa_id Q)" using names_some [OF P(7) g(1)] g(2,3) M(5) by simp
      moreover have "(d_dir d, d_name d) \<noteq> (d_fid d, kParentDir)" "(fa_id Q, n) \<noteq> (d_fid d, kParentDir)" using M(4) move_names(2) [OF m] by (auto simp: proper_def)
      ultimately show ?thesis using k True by (auto simp: moved_def fun_eq_iff)
    next
      case False
      then show ?thesis using k by (simp add: moved_def)
    qed
    show ?thesis using move_same_dir [OF m' qa] True unfolding v dots by simp
  next
    case False
    then have dq: "dd = qa" using dd by blast
    have r': "acct_ok ?s a (- getFileSize f) (- fileCnt f) (- dirCnt f) \<and> fa_type f \<noteq> KFS_NONE \<or> rename_move x a (fa_id Q) n qa ?s \<noteq> None"
      using r False dq c unfolding acct by (cases "rename_move x a (fa_id Q) n qa ?s") (auto simp: rename_tail_def)
    show ?thesis
    proof (cases "fa_type f = KFS_DIR")
      case True
      have e: "moved (kind s) (names s) (d_dir d, d_name d) (fa_id Q, n) (d_fid d) =
          (names s)((d_dir d, d_name d) := None, (fa_id Q, n) \<mapsto> d_fid d, (d_fid d, kParentDir) \<mapsto> fa_id Q)" using k True by (simp add: moved_def)
      show ?thesis using move_dir [OF m' True] r' unfolding v dq e by blast
    next
      case dir: False
      have e: "moved (kind s) (names s) (d_dir d, d_name d) (fa_id Q, n) (d_fid d) = (names s)((d_dir d, d_name d) := None, (fa_id Q, n) \<mapsto> d_fid d)"
        using k dir by (simp add: moved_def)
      show ?thesis using move_file [OF m' dir r'] unfolding v dq e by blast
    qed
  qed
  then show ?thesis using c by (auto simp: rename_tail_def)
qed

lemma rename_target_in:
  assumes inv: "ns_inv s" and r: "rename_target par n euser egroup s = Some (st, ddir, dd, dname, s1)"
  shows "cached s s1" "st = 0 \<Longrightarrow> dd = 0 \<and> ddir = par \<and> dname = n \<or> dd \<noteq> 0 \<and> (\<exists>Q. fattr_in s dd Q \<and> fa_type Q = KFS_DIR \<and> fa_id Q = ddir)"
proof -
  have *: "cached s s1 \<and> (st = 0 \<longrightarrow> dd = 0 \<and> ddir = par \<and> dname = n \<or> dd \<noteq> 0 \<and> (\<exists>Q. fattr_in s dd Q \<and> fa_type Q = KFS_DIR \<and> fa_id Q = ddir))"
  proof (cases "list_all not_slash n")
    case True
    then show ?thesis using r by (auto simp: rename_target_def)
  next
    case False
    then obtain lst fa s2 where l: "lookupPath par (dir_part n) euser egroup s = Some (lst, fa, s2)" using r by (auto simp: rename_target_def split: bind_splits)
    have c: "cached s s2" "lst = 0 \<longrightarrow> fa = 0 \<or> (\<exists>f. fattr_in s fa f)" using lookupPath_in [OF inv l] by auto
    have s1: "s1 = s2" using r l False by (auto simp: rename_target_def split: if_splits bind_splits)
    have at: "fattr_at s2 = fattr_at s" using c(1) by (auto simp: cached_def pathCache_same)
    have "\<exists>Q. fattr_in s dd Q \<and> fa_type Q = KFS_DIR \<and> fa_id Q = ddir \<and> dd \<noteq> 0" if st: "st = 0"
    proof -
      obtain f where f: "lst = 0" "fattr_at s fa = Some f" "fa_type f = KFS_DIR" "dd = fa" "ddir = fa_id f"
        using r l False st at by (auto simp: rename_target_def ENOTDIR_def EACCES_def split: if_splits bind_splits)
      have "fa \<noteq> 0" using f(2) null_at [OF ns_inv_parts(1) [OF inv]] by (metis option.distinct(1))
      then show ?thesis using c(2) f fattr_at_in by fastforce
    qed
    then show ?thesis using c(1) s1 by blast
  qed
  show "cached s s1" "st = 0 \<Longrightarrow> dd = 0 \<and> ddir = par \<and> dname = n \<or> dd \<noteq> 0 \<and> (\<exists>Q. fattr_in s dd Q \<and> fa_type Q = KFS_DIR \<and> fa_id Q = ddir)"
    using * by auto
qed

lemma lookup_missing:
  assumes "ns_inv s"
  shows "lookup s dir n euser egroup op = Some (st, fa, par, x) \<Longrightarrow> fa = 0 \<Longrightarrow> st = 0 \<or> st = - ENOENT \<Longrightarrow> names s (dir, n) = None"
    "names s (dir, n) = None \<Longrightarrow> lookup s dir n euser egroup op = Some (- ENOENT, 0, 0, 0)"
proof -
  assume "lookup s dir n euser egroup op = Some (st, fa, par, x)" "fa = 0" "st = 0 \<or> st = - ENOENT"
  then have "getDentry s dir n = Some 0" by (auto simp: lookup_def Let_def EACCES_def ENOENT_def split: if_splits bind_splits)
  then show "names s (dir, n) = None" using null_at [OF ns_inv_parts(1) [OF assms]] by (simp add: names_def)
next
  assume "names s (dir, n) = None"
  then have "getDentry s dir n = Some 0" using names_none [OF ns_inv_parts(7) [OF assms]] by blast
  then show "lookup s dir n euser egroup op = Some (- ENOENT, 0, 0, 0)" by (simp add: lookup_def)
qed

lemma rename_split:
  assumes inv: "ns_inv s" and r: "rename_with rm par o1 n op False td euser egroup s = Some (st, td', s')" and c: "\<not> cached s s'"
  obtains sfattr sdfattr src sf ddir dd dname s1 where
    "lookup s par o1 euser egroup True = Some (0, sfattr, sdfattr, src)" "fattr_at s sfattr = Some sf"
    "rename_target par n euser egroup s = Some (0, ddir, dd, dname, s1)" "legalname dname"
    "names s1 (ddir, dname) = None" "fa_type sf = KFS_DIR \<longrightarrow> is_descendant s1 (fa_id sf) ddir 0 = Some False"
    "rename_tail src sfattr o1 op ddir dname dd td s1 = Some (st, td', s')"
proof -
  obtain sfattr sdfattr src where l: "lookup s par o1 euser egroup True = Some (0, sfattr, sdfattr, src)"
    using r c by (auto simp: rename_with_def split: if_splits bind_splits)
  obtain sd sf where f: "fattr_at s sdfattr = Some sd" "fattr_at s sfattr = Some sf" "CanWrite (members s) sd euser egroup"
    using r c l by (auto simp: rename_with_def split: if_splits bind_splits)
  obtain st1 ddir dd dname s1 where t: "rename_target par n euser egroup s = Some (st1, ddir, dd, dname, s1)"
    using r l f by (auto simp: rename_with_def split: bind_splits)
  have c1: "cached s s1" by (rule rename_target_in(1) [OF inv t])
  then have inv1: "ns_inv s1" using inv by (auto simp: cached_def pathCache_same)
  have ns: "s' \<noteq> s1" using c c1 by auto
  have e: "st1 = 0" "legalname dname" "\<not> (ddir = par \<and> dname = o1)"
    using r l f t ns by (auto simp: rename_with_def split: if_splits)
  obtain st2 dfattr pp y where l2: "lookup s1 ddir dname euser egroup False = Some (st2, dfattr, pp, y)" "st2 = 0 \<or> st2 = - ENOENT" "dfattr = 0"
    using r l f t ns e by (auto simp: rename_with_def split: if_splits bind_splits)
  have d: "(if fa_type sf = KFS_DIR then is_descendant s1 (fa_id sf) ddir 0 else Some False) = Some False"
    using r l f t ns e l2 by (auto simp: rename_with_def Let_def split: if_splits bind_splits)
  then have tail: "rename_tail src sfattr o1 op ddir dname dd td s1 = Some (st, td', s')"
    using r l f t ns e l2 by (auto simp: rename_with_def rename_tail_def Let_def split: if_splits)
  show thesis
    by (rule that [OF l f(2) _ e(2) lookup_missing(1) [OF inv1 l2(1,3,2)] _ tail]) (use t e(1) d in \<open>auto split: if_splits\<close>)
qed

lemma below_everything:
  assumes "fs_refs F D C" "up F b" "(r, g) \<in> F" "fa_id g = ROOTFID"
  shows "below F r b"
  using assms(2)
proof induction
  case (root b h)
  then have "b = r" using fs_ids [OF assms(1) root(1) assms(3)] assms(4) by simp
  then show ?case by (simp add: below.self)
qed (auto intro: below.step)

lemma below_above: "below F a b \<Longrightarrow> a = b \<or> (\<exists>c g. (c, g) \<in> F \<and> fa_id g \<noteq> ROOTFID \<and> parent g = a)"
  by (induction rule: below.induct) auto

lemma move_preI:
  assumes inv: "ns_inv s" and h: "hgt (tree s) \<le> 16" and d: "(x, d) \<in> DS s" "proper d" and f: "fattr_in s a f" "fa_id f = d_fid d"
    and dir: "dd = 0 \<and> ddir = d_dir d \<or> dd \<noteq> 0 \<and> (\<exists>Q. fattr_in s dd Q \<and> fa_type Q = KFS_DIR \<and> fa_id Q = ddir)"
    and n: "legalname n" "names s (ddir, n) = None" and nb: "fa_type f = KFS_DIR \<Longrightarrow> is_descendant s (fa_id f) ddir 0 \<noteq> Some True"
  obtains qa Q where "move_pre s x d a f qa Q n" "fa_id Q = ddir" "dd = 0 \<and> qa = parent f \<or> dd = qa"
proof -
  note P = ns_inv_parts [OF inv]
  have a: "a = getFattr s (d_fid d)" using getFattr_in [OF P(1) f(1)] f(2) by simp
  obtain p where p: "fattr_in s (parent f) p" "fa_id p = d_dir d" "fa_type p = KFS_DIR"
    using proper_entry [OF inv d] f(1) a fattr_at_in by (metis option.inject)
  define qa where "qa = (if dd = 0 then parent f else dd)"
  obtain Q where Q: "fattr_in s qa Q" "fa_type Q = KFS_DIR" "fa_id Q = ddir" using dir p by (cases "dd = 0") (auto simp: qa_def)
  have QF: "(qa, strip Q) \<in> FS s" using Q(1) by (auto simp: in_FS)
  have "\<not> below (FS s) a qa"
  proof (cases "fa_type f = KFS_DIR")
    case True
    then show ?thesis using is_descendant_dir [OF inv f(1) Q(1,2)] nb Q(3) by simp
  next
    case False
    have af: "(a, strip f) \<in> FS s" using f(1) by (auto simp: in_FS)
    have "a \<noteq> qa" using False Q fattr_at_in [OF f(1)] fattr_at_in [OF Q(1)] by auto
    moreover have "parent g \<noteq> a" if cg: "(c, g) \<in> FS s" "fa_id g \<noteq> ROOTFID" for c g
    proof
      assume e: "parent g = a"
      obtain k where k: "(parent g, k) \<in> FS s" "fa_type k = KFS_DIR" using fs_parent [OF P(4) cg] by blast
      then have "strip f = k" using fs_ids [OF P(3) af k(1)] e by simp
      then show False using k(2) False by auto
    qed
    ultimately show ?thesis using below_above [of "FS s" a qa] by blast
  qed
  then have "move_pre s x d a f qa Q n"
    using inv h d f Q n names_none(1) [OF P(7)] by (simp add: move_pre_def)
  then show thesis using that Q(3) by (auto simp: qa_def)
qed

lemma rename_keeps:
  assumes inv: "ns_inv s" and h: "hgt (tree s) \<le> 16" and o1: "o1 \<noteq> kThisDir" "o1 \<noteq> kParentDir"
    and r: "rename_with rm par o1 n op False td euser egroup s = Some (st, td', s')"
  shows "ns_inv s'"
proof (cases "cached s s'")
  case True
  then show ?thesis using inv by (auto simp: cached_def pathCache_same)
next
  case False
  note P = ns_inv_parts [OF inv]
  obtain sfattr sdfattr src sf ddir dd dname s1 where S:
    "lookup s par o1 euser egroup True = Some (0, sfattr, sdfattr, src)" "fattr_at s sfattr = Some sf"
    "rename_target par n euser egroup s = Some (0, ddir, dd, dname, s1)" "legalname dname"
    "names s1 (ddir, dname) = None" "fa_type sf = KFS_DIR \<longrightarrow> is_descendant s1 (fa_id sf) ddir 0 = Some False"
    "rename_tail src sfattr o1 op ddir dname dd td s1 = Some (st, td', s')"
    by (rule rename_split [OF inv r False])
  obtain c where c: "s1 = s\<lparr>pathCache := c\<rparr>" using rename_target_in(1) [OF inv S(3)] by (auto simp: cached_def)
  have inv1: "ns_inv s1" "hgt (tree s1) \<le> 16" using inv h c by (simp_all add: pathCache_same)
  obtain d f where d: "(src, d) \<in> DS s" "d_dir d = par" "d_name d = o1" "fattr_in s sfattr f" "fa_id f = d_fid d" by (rule lookup_in [OF inv S(1)])
  have f: "f = sf" using fattr_at_in [OF d(4)] S(2) by simp
  have in1: "(src, d) \<in> DS s1" "fattr_in s1 sfattr sf" "fa_id sf = d_fid d" using d f c by (simp_all add: pathCache_same)
  have dir: "dd = 0 \<and> ddir = d_dir d \<or> dd \<noteq> 0 \<and> (\<exists>Q. fattr_in s1 dd Q \<and> fa_type Q = KFS_DIR \<and> fa_id Q = ddir)"
    using rename_target_in(2) [OF inv S(3)] d(2) c by (auto simp: pathCache_same)
  have pr: "proper d"
  proof (rule ccontr)
    assume "\<not> proper d"
    then have sl: "d_name d = ''/''" using o1 d(3) by (auto simp: proper_def)
    then have root: "fa_id sf = ROOTFID" "d_dir d = ROOTFID" using fs_slash [OF P(6) d(1)] in1(3) by auto
    have R: "(sfattr, strip sf) \<in> FS s" using d(4) f by (auto simp: in_FS)
    obtain b g where g: "fattr_in s b g" "fa_type g = KFS_DIR" "fa_id g = ddir"
      using dir root c fs_dir [OF P(3) d(1)] by (auto simp: in_FS pathCache_same)
    have "(b, strip g) \<in> FS s" using g(1) by (auto simp: in_FS)
    from below_everything [OF P(3) fs_up [OF P(4) this] R] have "below (FS s) sfattr b" using root by simp
    then have "is_descendant s1 (fa_id sf) ddir 0 = Some True"
      using is_descendant_dir [OF inv1(1) in1(2), of b g] g c by (simp add: pathCache_same)
    moreover have "fa_type sf = KFS_DIR" using kind_in [OF inv d(4)] root_kind [OF inv] root f by simp
    ultimately show False using S(6) by simp
  qed
  obtain qa Q where m: "move_pre s1 src d sfattr sf qa Q dname" "fa_id Q = ddir" "dd = 0 \<and> qa = parent sf \<or> dd = qa"
    by (rule move_preI [OF inv1 in1(1) pr in1(2,3) dir S(4,5)]) (use S(6) in auto)
  show ?thesis using rename_tail_ok [OF m(1,3), of o1 op td] m(2) S(7) by auto
qed

text \<open>The checks of \<open>rename\<close> before the move, for a name that exists and a target that does not.\<close>

lemma rename_eq:
  assumes inv: "ns_inv s" and d: "(x, d) \<in> DS s" "proper d" and p: "fattr_at s (getFattr s (d_dir d)) = Some p"
    and ok: "euser = kKfsUserRoot \<or> CanSearch (members s) p euser egroup" "CanWrite (members s) p euser egroup"
    and f: "fattr_at s (getFattr s (d_fid d)) = Some f"
    and t: "rename_target (d_dir d) n euser egroup s = Some (0, ddir, dd, dname, s1)" "legalname dname" "names s (ddir, dname) = None"
    and q: "fattr_in s q Q" "fa_type Q = KFS_DIR" "fa_id Q = ddir"
  shows "rename_with rm (d_dir d) (d_name d) n op False td euser egroup s =
      (if fa_type f = KFS_DIR \<and> below (FS s) (getFattr s (d_fid d)) (getFattr s ddir) then Some (- EINVAL, td, s1)
       else rename_tail x (getFattr s (d_fid d)) (d_name d) op ddir dname dd td s1)"
proof -
  note P = ns_inv_parts [OF inv]
  obtain c where c: "s1 = s\<lparr>pathCache := c\<rparr>" using rename_target_in(1) [OF inv t(1)] by (auto simp: cached_def)
  have inv1: "ns_inv s1" using inv c by (simp add: pathCache_same)
  have l: "lookup s (d_dir d) (d_name d) euser egroup True = Some (0, getFattr s (d_fid d), getFattr s (d_dir d), x)"
    by (rule lookup_proper(1) [OF inv d p ok(1)])
  have "names s1 (ddir, dname) = None" using t(3) c pathCache_views [OF inv] by simp
  then have l2: "lookup s1 ddir dname euser egroup False = Some (- ENOENT, 0, 0, 0)" by (rule lookup_missing(2) [OF inv1])
  have ne: "\<not> (ddir = d_dir d \<and> dname = d_name d)" using t(3) names_some [OF P(7) d(1)] by auto
  have fin: "fattr_in s (getFattr s (d_fid d)) f" "fa_id f = d_fid d" using proper_fattr [OF inv d f] by simp_all
  have de: "is_descendant s1 (fa_id f) ddir 0 = Some (below (FS s) (getFattr s (d_fid d)) (getFattr s ddir))"
    using is_descendant_dir [OF inv1, of "getFattr s (d_fid d)" f q Q] fin(1) q getFattr_in [OF P(1) q(1)] c by (simp add: pathCache_same)
  show ?thesis using l p ok(2) f t(1,2) l2 de unfolding rename_with_def rename_tail_def Let_def by (simp add: ENOENT_def EINVAL_def) (use ne in auto)
qed

lemma rename_target_dir:
  assumes inv: "ns_inv s" and d: "(x, d) \<in> DS s" and t: "rename_target (d_dir d) n euser egroup s = Some (0, ddir, dd, dname, s1)"
  shows "\<exists>Q q. fattr_in s q Q \<and> fa_type Q = KFS_DIR \<and> fa_id Q = ddir"
  using rename_target_in(2) [OF inv t] fs_dir [OF ns_inv_parts(3) [OF inv] d] by (fastforce simp: in_FS)

lemma rename_moves:
  assumes inv: "ns_inv s" and h: "hgt (tree s) \<le> 16" and o1: "names s (par, o1) = Some i" "o1 \<noteq> kThisDir" "o1 \<noteq> kParentDir" "o1 \<noteq> ''/''"
    and p: "fattr_at s (getFattr s par) = Some p" and ok: "euser = kKfsUserRoot \<or> CanSearch (members s) p euser egroup" "CanWrite (members s) p euser egroup"
    and f: "fattr_at s (getFattr s i) = Some f"
    and t: "rename_target par n euser egroup s = Some (0, ddir, dd, dname, s1)" "legalname dname" "names s (ddir, dname) = None"
    and nb: "fa_type f = KFS_DIR \<longrightarrow> \<not> below (FS s) (getFattr s i) (getFattr s ddir)"
    and acct: "dd = 0 \<or> acct_ok s (getFattr s i) (- getFileSize f) (- fileCnt f) (- dirCnt f) \<and> fa_type f \<noteq> KFS_NONE"
  shows "\<exists>s'. rename par o1 n op False td euser egroup s = Some (0, td, s') \<and> ns_inv s' \<and>
    names s' = moved (kind s) (names s) (par, o1) (ddir, dname) i \<and> kind s' = kind s"
proof -
  note P = ns_inv_parts [OF inv]
  obtain x d where d: "(x, d) \<in> DS s" "proper d" "d_dir d = par" "d_name d = o1" "d_fid d = i" by (rule names_entry [OF inv o1])
  note D = d(3-5) [symmetric]
  let ?a = "getFattr s i"
  have fin: "fattr_in s ?a f" "fa_id f = i" using proper_fattr [OF inv d(1,2)] f d(5) by simp_all
  obtain c where c: "s1 = s\<lparr>pathCache := c\<rparr>" using rename_target_in(1) [OF inv t(1)] by (auto simp: cached_def)
  have inv1: "ns_inv s1" "hgt (tree s1) \<le> 16" using inv h c by (simp_all add: pathCache_same)
  have v1: "names s1 = names s" "kind s1 = kind s" using pathCache_views [OF inv] c by auto
  obtain Q q where q: "fattr_in s q Q" "fa_type Q = KFS_DIR" "fa_id Q = ddir"
    using rename_target_dir [OF inv d(1)] t(1) d(3) by metis
  have qd: "getFattr s ddir = q" using getFattr_in [OF P(1) q(1)] q(3) by simp
  have dir: "dd = 0 \<and> ddir = d_dir d \<or> dd \<noteq> 0 \<and> (\<exists>Q. fattr_in s1 dd Q \<and> fa_type Q = KFS_DIR \<and> fa_id Q = ddir)"
    using rename_target_in(2) [OF inv t(1)] d(3) c by (auto simp: pathCache_same)
  have de: "is_descendant s1 (fa_id f) ddir 0 = Some (below (FS s) ?a q)"
    using is_descendant_dir [OF inv1(1), of ?a f q Q] fin(1) q c by (simp add: pathCache_same)
  obtain qa R where m: "move_pre s1 x d ?a f qa R dname" "fa_id R = ddir" "dd = 0 \<and> qa = parent f \<or> dd = qa"
    by (rule move_preI [OF inv1 _ d(2) _ _ dir t(2)]) (use d fin c t(3) v1 de nb qd in \<open>auto simp: pathCache_same\<close>)
  have a1: "acct_ok s1 ?a u v w = acct_ok s ?a u v w" for u v w by (rule acct_fattr) (simp_all add: c pathCache_same)
  have "rename par o1 n op False td euser egroup s = rename_tail x ?a o1 op ddir dname dd td s1"
    using rename_eq [OF inv d(1,2) _ ok _ _ t(2,3) q, unfolded d(3-5), OF p f t(1), of remove op td] nb qd unfolding rename_def by auto
  then show ?thesis using rename_tail_ok [OF m(1,3), of o1 op td] acct a1 d(3-5) m(2) v1 by auto
qed

lemma rename_below_itself:
  assumes inv: "ns_inv s" and o1: "names s (par, o1) = Some i" "o1 \<noteq> kThisDir" "o1 \<noteq> kParentDir" "o1 \<noteq> ''/''"
    and p: "fattr_at s (getFattr s par) = Some p" and ok: "euser = kKfsUserRoot \<or> CanSearch (members s) p euser egroup" "CanWrite (members s) p euser egroup"
    and t: "rename_target par n euser egroup s = Some (0, ddir, dd, dname, s1)" "legalname dname" "names s (ddir, dname) = None"
    and nb: "kind s i = Some KFS_DIR" "below (FS s) (getFattr s i) (getFattr s ddir)"
  shows "rename par o1 n op False td euser egroup s = Some (- EINVAL, td, s1)"
proof -
  obtain x d where d: "(x, d) \<in> DS s" "proper d" "d_dir d = par" "d_name d = o1" "d_fid d = i" by (rule names_entry [OF inv o1])
  obtain Q q where q: "fattr_in s q Q" "fa_type Q = KFS_DIR" "fa_id Q = ddir"
    using rename_target_dir [OF inv d(1)] t(1) d(3) by metis
  obtain f where f: "fattr_at s (getFattr s i) = Some f" "fa_type f = KFS_DIR" using ns_fattr [OF inv nb(1)] fattr_at_in by metis
  show ?thesis
    using rename_eq [OF inv d(1,2) _ ok _ _ t(2,3) q, unfolded d(3-5), OF p f(1) t(1), of remove op td] nb f(2) unfolding rename_def by auto
qed

subsection \<open>Removing\<close>

lemma lookup_dumpster_dir:
  assumes inv: "ns_inv s" and d: "names s (ROOTFID, DUMPSTERDIR) = Some i"
  shows "lookup_dumpster s = Some (getFattr s i) \<and> getFattr s i \<noteq> 0"
proof -
  obtain x d where d: "(x, d) \<in> DS s" "d_dir d = ROOTFID" "d_name d = DUMPSTERDIR" "d_fid d = i"
    using names_someD [OF ns_inv_parts(7) [OF inv] d] by blast
  have "lookup s ROOTFID DUMPSTERDIR kKfsUserRoot kKfsGroupRoot False = Some (0, getFattr s i, 0, x)"
    using lookup_root_user [OF inv d(1)] d(2-4) by simp
  moreover have "getFattr s i \<noteq> 0" using entry_target [OF inv d(1)] d(4) by metis
  ultimately show ?thesis by (simp add: lookup_dumpster_def)
qed

lemma moveToDumpster_keeps:
  assumes inv: "ns_inv s" and h: "hgt (tree s) \<le> 16" and d: "names s (ROOTFID, DUMPSTERDIR) \<noteq> None" and n: "n \<noteq> kThisDir" "n \<noteq> kParentDir"
    and r: "moveToDumpster dir n td s = Some (st, s')"
  shows "ns_inv s'"
proof -
  obtain i where i: "names s (ROOTFID, DUMPSTERDIR) = Some i" using d by blast
  have l: "lookup_dumpster s = Some (getFattr s i)" "getFattr s i \<noteq> 0" using lookup_dumpster_dir [OF inv i] by auto
  have "s' = s \<or> (\<exists>td'. rename_with (\<lambda>_ _ _ _ _ _ _. None) dir n (''/'' @ DUMPSTERDIR @ ''/'' @ n @ toString td) [] False (- 1) kKfsUserRoot kKfsGroupRoot s = Some (st, td', s'))"
    using r l by (auto simp: moveToDumpster_def Let_def split: if_splits bind_splits)
  then show ?thesis using inv rename_keeps [OF inv h n] by blast
qed

text \<open>\<open>remove\<close> of a file, up to the choice between the dumpster and the deletion.\<close>

definition remove_file :: "fid_t \<Rightarrow> string \<Rightarrow> fid_t \<Rightarrow> addr \<Rightarrow> MetaFattr \<Rightarrow> NS \<Rightarrow> (int \<times> fid_t \<times> NS) option" where
  "remove_file dir fname td fa f s =
     (let chunkInfo = (if subcount1 f > 0 then getalloc_all s (fa_id f) else []) in
      if subcount1 f > 0 \<and> subcount1 f \<noteq> int (length chunkInfo) then None
      else do { leased \<leftarrow> IsValidLeaseIssued s chunkInfo;
                if subcount1 f > 0 \<and> (0 < sint td \<or> leased)
                then do { (status, s) \<leftarrow> moveToDumpster dir fname (fa_id f) s; Some (status, fa_id f, s) }
                else remove_tail dir fname fa f td s })"

lemma remove_eq:
  assumes inv: "ns_inv s" and d: "(x, d) \<in> DS s" "proper d" and p: "fattr_at s (getFattr s (d_dir d)) = Some p"
    and f: "fattr_at s (getFattr s (d_fid d)) = Some f"
  obtains c where "remove (d_dir d) (d_name d) pathname td euser egroup s =
    (if \<not> (euser = kKfsUserRoot \<or> CanSearch (members s) p euser egroup) then Some (- EACCES, td, s)
     else if fa_type f \<noteq> KFS_FILE then Some (- EISDIR, td, s)
     else if \<not> CanWrite (members s) p euser egroup then Some (- EACCES, td, s)
     else if IsDeleteRestricted p f euser then Some (- EPERM, td, s)
     else remove_file (d_dir d) (d_name d) td (getFattr s (d_fid d)) f (s\<lparr>pathCache := c\<rparr>))"
proof -
  have fin: "fattr_in s (getFattr s (d_fid d)) f" using proper_fattr [OF inv d f] by simp
  obtain c where c: "invalidatePathCache pathname (d_name d) (getFattr s (d_fid d)) False s = Some (s\<lparr>pathCache := c\<rparr>)"
    using invalidatePathCache_ok [OF inv fin] by blast
  have "remove (d_dir d) (d_name d) pathname td euser egroup s =
    (if \<not> (euser = kKfsUserRoot \<or> CanSearch (members s) p euser egroup) then Some (- EACCES, td, s)
     else if fa_type f \<noteq> KFS_FILE then Some (- EISDIR, td, s)
     else if \<not> CanWrite (members s) p euser egroup then Some (- EACCES, td, s)
     else if IsDeleteRestricted p f euser then Some (- EPERM, td, s)
     else remove_file (d_dir d) (d_name d) td (getFattr s (d_fid d)) f (s\<lparr>pathCache := c\<rparr>))"
  proof (cases "euser = kKfsUserRoot \<or> CanSearch (members s) p euser egroup")
    case True
    have l: "lookup s (d_dir d) (d_name d) euser egroup True = Some (0, getFattr s (d_fid d), getFattr s (d_dir d), x)"
      by (simp only: lookup_proper_eq [OF inv d p] True if_True)
    show ?thesis unfolding remove_def l using p f c
      by (simp only: True if_True not_True_eq_False if_False) (simp add: remove_file_def remove_tail_def Let_def cong: if_cong)
  next
    case False
    then show ?thesis unfolding remove_def lookup_proper_eq [OF inv d p] by (simp add: EACCES_def)
  qed
  then show thesis using that by blast
qed

lemma getalloc_cached [simp]: "getalloc_all (s\<lparr>pathCache := c\<rparr>) i = getalloc_all s i"
  by (simp add: getalloc_all_def)

lemma chunk_cached [simp]: "chunk_at (s\<lparr>pathCache := c\<rparr>) a = chunk_at s a"
  by (simp add: chunk_at_def)

lemma lease_cached [simp]: "IsValidLeaseIssued (s\<lparr>pathCache := c\<rparr>) as = IsValidLeaseIssued s as"
  by (induction as) (simp_all cong: if_cong)

text \<open>The counter of a file agrees with its chunks.\<close>

definition chunks_counted :: "NS \<Rightarrow> fid_t \<Rightarrow> bool" where
  "chunks_counted s i \<longleftrightarrow> (case fattr_at s (getFattr s i) of None \<Rightarrow> True | Some f \<Rightarrow> subcount1 f = int (length (getalloc_all s i)))"

lemma remove_file_ok:
  assumes inv: "ns_inv s" and h: "hgt (tree s) \<le> 16" and no: "chunkEntryToChange s = 0" and d: "(x, d) \<in> DS s" "proper d"
    and f: "fattr_at s (getFattr s (d_fid d)) = Some f" "fa_type f = KFS_FILE" and cnt: "chunks_counted s (d_fid d)"
    and free: "0 < subcount1 f \<longrightarrow> sint td \<le> 0 \<and> IsValidLeaseIssued s (getalloc_all s (d_fid d)) = Some False"
    and r: "remove_file (d_dir d) (d_name d) td (getFattr s (d_fid d)) f (s\<lparr>pathCache := c\<rparr>) \<noteq> None \<or> acct_ok s (getFattr s (d_fid d)) (- getFileSize f) (- 1) 0"
  shows "\<exists>s'. remove_file (d_dir d) (d_name d) td (getFattr s (d_fid d)) f (s\<lparr>pathCache := c\<rparr>) = Some (0, td, s') \<and> ns_inv s' \<and>
    names s' = (names s)((d_dir d, d_name d) := None) \<and> kind s' = (kind s)(d_fid d := None)"
proof -
  let ?s = "s\<lparr>pathCache := c\<rparr>" and ?a = "getFattr s (d_fid d)"
  have id: "fa_id f = d_fid d" using proper_fattr [OF inv d f(1)] by simp
  have cnt': "subcount1 f = int (length (getalloc_all s (fa_id f)))" using cnt f id by (simp add: chunks_counted_def)
  have gf: "getFattr ?s i = getFattr s i" for i by (simp add: getFattr_def)
  have eq: "remove_file (d_dir d) (d_name d) td ?a f ?s = remove_tail (d_dir d) (d_name d) ?a f td ?s"
    using cnt' free id by (auto simp: remove_file_def)
  have a: "acct_ok ?s ?a u v w = acct_ok s ?a u v w" for u v w by (rule acct_fattr) (simp_all add: pathCache_same)
  have "\<exists>s'. remove_tail (d_dir d) (d_name d) (getFattr ?s (d_fid d)) f td ?s = Some (0, td, s') \<and> ns_inv s' \<and> hgt (tree s') \<le> 16 \<and>
    chunkEntryToChange s' = 0 \<and> names s' = (names ?s)((d_dir d, d_name d) := None) \<and> kind s' = (kind ?s)(d_fid d := None) \<and> FS s' \<subseteq> FS ?s \<and> DS s' \<subseteq> DS ?s"
    by (rule remove_tail_ok) (use inv h no d f cnt' r eq a in \<open>simp_all add: pathCache_same gf\<close>)
  then show ?thesis unfolding eq using pathCache_views [OF inv] gf by metis
qed

lemma remove_ok:
  assumes inv: "ns_inv s" and h: "hgt (tree s) \<le> 16" and no: "chunkEntryToChange s = 0"
    and n: "names s (dir, n) = Some i" "n \<noteq> kThisDir" "n \<noteq> kParentDir" "n \<noteq> ''/''"
    and p: "fattr_at s (getFattr s dir) = Some p" and ok: "euser = kKfsUserRoot \<or> CanSearch (members s) p euser egroup" "CanWrite (members s) p euser egroup"
    and f: "fattr_at s (getFattr s i) = Some f" "fa_type f = KFS_FILE" "\<not> IsDeleteRestricted p f euser" and cnt: "chunks_counted s i"
    and free: "0 < subcount1 f \<longrightarrow> sint td \<le> 0 \<and> IsValidLeaseIssued s (getalloc_all s i) = Some False"
    and acct: "acct_ok s (getFattr s i) (- getFileSize f) (- 1) 0"
  shows "\<exists>s'. remove dir n pathname td euser egroup s = Some (0, td, s') \<and> ns_inv s' \<and> names s' = (names s)((dir, n) := None) \<and> kind s' = (kind s)(i := None)"
proof -
  obtain x d where d: "(x, d) \<in> DS s" "proper d" "d_dir d = dir" "d_name d = n" "d_fid d = i" by (rule names_entry [OF inv n])
  have p': "fattr_at s (getFattr s (d_dir d)) = Some p" "fattr_at s (getFattr s (d_fid d)) = Some f" using p f d by simp_all
  obtain c where "remove (d_dir d) (d_name d) pathname td euser egroup s =
    (if \<not> (euser = kKfsUserRoot \<or> CanSearch (members s) p euser egroup) then Some (- EACCES, td, s)
     else if fa_type f \<noteq> KFS_FILE then Some (- EISDIR, td, s)
     else if \<not> CanWrite (members s) p euser egroup then Some (- EACCES, td, s)
     else if IsDeleteRestricted p f euser then Some (- EPERM, td, s)
     else remove_file (d_dir d) (d_name d) td (getFattr s (d_fid d)) f (s\<lparr>pathCache := c\<rparr>))" by (rule remove_eq [OF inv d(1,2) p'])
  then have "remove dir n pathname td euser egroup s = remove_file (d_dir d) (d_name d) td (getFattr s (d_fid d)) f (s\<lparr>pathCache := c\<rparr>)"
    using ok f d by auto
  then show ?thesis using remove_file_ok [OF inv h no d(1,2) p'(2) f(2), of td c] cnt free acct d by auto
qed

lemma rmdir_ok:
  assumes inv: "ns_inv s" and h: "hgt (tree s) \<le> 16"
    and n: "names s (dir, n) = Some i" "n \<noteq> kThisDir" "n \<noteq> kParentDir" "n \<noteq> ''/''" "\<not> (dir = ROOTFID \<and> n = DUMPSTERDIR)"
    and p: "fattr_at s (getFattr s dir) = Some p" and ok: "euser = kKfsUserRoot \<or> CanSearch (members s) p euser egroup" "CanWrite (members s) p euser egroup"
    and f: "fattr_at s (getFattr s i) = Some f" "fa_type f = KFS_DIR" "\<not> IsDeleteRestricted p f euser" and e: "emptydir s i"
    and acct: "acct_ok s (getFattr s i) (- getFileSize f) 0 (- 1)"
  shows "\<exists>s'. rmdir dir n pathname euser egroup s = Some (0, s') \<and> ns_inv s' \<and>
    names s' = (names s)((dir, n) := None, (i, kThisDir) := None, (i, kParentDir) := None) \<and> kind s' = (kind s)(i := None)"
proof -
  obtain x d where d: "(x, d) \<in> DS s" "proper d" "d_dir d = dir" "d_name d = n" "d_fid d = i" by (rule names_entry [OF inv n(1-4)])
  have p': "fattr_at s (getFattr s (d_dir d)) = Some p" "fattr_at s (getFattr s (d_fid d)) = Some f" using p f d by simp_all
  have "rmdir dir n pathname euser egroup s = rmdir_tail (d_dir d) (d_name d) pathname (getFattr s (d_fid d)) (d_fid d) s"
    using rmdir_eq [OF inv d(1,2) p', of pathname euser egroup] ok f e d n(5) by auto
  then show ?thesis using rmdir_tail_ok [OF inv h d(1,2) p'(2) f(2), of pathname] e acct d by auto
qed

lemma dot_is_dir:
  assumes inv: "ns_inv s" and d: "(x, d) \<in> DS s" "\<not> proper d" and f: "fattr_in s a f" "fa_id f = d_fid d"
  shows "fa_type f = KFS_DIR"
proof -
  note P = ns_inv_parts [OF inv]
  have af: "(a, strip f) \<in> FS s" using f(1) by (auto simp: in_FS)
  obtain b g where g: "(b, g) \<in> FS s" "fa_id g = d_dir d" "fa_type g = KFS_DIR" using fs_dir [OF P(3) d(1)] by blast
  have root: "fa_type f = KFS_DIR" if "fa_id f = ROOTFID" using kind_in [OF inv f(1)] root_kind [OF inv] that by simp
  have "\<exists>h c. (c, h) \<in> FS s \<and> fa_id h = fa_id f \<and> fa_type h = KFS_DIR" if "fa_id f \<noteq> ROOTFID"
  proof -
    consider "d_name d = kThisDir" | "d_name d = kParentDir" | "d_name d = ''/''" using d(2) by (auto simp: proper_def)
    then show ?thesis
    proof cases
      case 1
      then show ?thesis using fs_dot [OF P(6) d(1)] g f(2) by auto
    next
      case 2
      then have "fa_id g \<noteq> ROOTFID" "\<exists>k. (parent g, k) \<in> FS s \<and> fa_id k = d_fid d"
        using fs_dotdot [OF P(6) d(1) 2 g(1,2)] f(2) that by (auto split: if_splits)
      then show ?thesis using fs_parent [OF P(4) g(1)] fs_ids [OF P(3)] f(2) by metis
    next
      case 3
      then show ?thesis using fs_slash [OF P(6) d(1)] f(2) that by auto
    qed
  qed
  moreover have "fa_type f = KFS_DIR" if "(c, h) \<in> FS s" "fa_id h = fa_id f" "fa_type h = KFS_DIR" for h c
    using fs_ids [OF P(3) af that(1)] that(2,3) by auto
  ultimately show ?thesis using root by blast
qed

lemma remove_keeps:
  assumes inv: "ns_inv s" and h: "hgt (tree s) \<le> 16" and no: "chunkEntryToChange s = 0" and du: "names s (ROOTFID, DUMPSTERDIR) \<noteq> None"
    and cnt: "\<And>i. names s (dir, n) = Some i \<Longrightarrow> chunks_counted s i"
    and r: "remove dir n pathname td euser egroup s = Some (st, td', s')"
  shows "ns_inv s'"
proof (cases "\<exists>x d. (x, d) \<in> DS s \<and> proper d \<and> d_dir d = dir \<and> d_name d = n")
  case True
  then obtain x d where d: "(x, d) \<in> DS s" "proper d" "d_dir d = dir" "d_name d = n" by blast
  obtain p f where p: "fattr_at s (getFattr s (d_dir d)) = Some p" "fattr_at s (getFattr s (d_fid d)) = Some f" using proper_attrs [OF inv d(1,2)] by metis
  obtain c where eq: "remove (d_dir d) (d_name d) pathname td euser egroup s =
    (if \<not> (euser = kKfsUserRoot \<or> CanSearch (members s) p euser egroup) then Some (- EACCES, td, s)
     else if fa_type f \<noteq> KFS_FILE then Some (- EISDIR, td, s)
     else if \<not> CanWrite (members s) p euser egroup then Some (- EACCES, td, s)
     else if IsDeleteRestricted p f euser then Some (- EPERM, td, s)
     else remove_file (d_dir d) (d_name d) td (getFattr s (d_fid d)) f (s\<lparr>pathCache := c\<rparr>))" by (rule remove_eq [OF inv d(1,2) p])
  let ?s = "s\<lparr>pathCache := c\<rparr>"
  show ?thesis
  proof (cases "s' = s")
    case False
    then have F: "fa_type f = KFS_FILE" "remove_file dir n td (getFattr s (d_fid d)) f ?s = Some (st, td', s')"
      using eq r d(3,4) by (auto split: if_splits)
    have cn: "chunks_counted s (d_fid d)" using cnt names_some [OF ns_inv_parts(7) [OF inv] d(1)] d(3,4) by simp
    show ?thesis
    proof (cases "0 < subcount1 f \<longrightarrow> sint td \<le> 0 \<and> IsValidLeaseIssued s (getalloc_all s (d_fid d)) = Some False")
      case True
      then show ?thesis using remove_file_ok [OF inv h no d(1,2) p(2) F(1) cn True, of c] F(2) d(3,4) by auto
    next
      case False
      then have "\<exists>st. moveToDumpster dir n (fa_id f) ?s = Some (st, s')"
        using F(2) proper_fattr(2) [OF inv d(1,2) p(2)] by (auto simp: remove_file_def Let_def split: if_splits bind_splits)
      moreover have "n \<noteq> kThisDir" "n \<noteq> kParentDir" using d(2,4) by (auto simp: proper_def)
      ultimately show ?thesis using moveToDumpster_keeps [of ?s n dir "fa_id f"] inv h du pathCache_views [OF inv] by (auto simp: pathCache_same)
    qed
  qed (use inv in simp)
next
  case False
  have "s' = s"
  proof (rule ccontr)
    assume "s' \<noteq> s"
    then obtain fa par x g where l: "lookup s dir n euser egroup True = Some (0, fa, par, x)" "fattr_at s fa = Some g" "fa_type g = KFS_FILE"
      using r unfolding remove_def by (auto split: bind_splits if_splits)
    obtain d f where d: "(x, d) \<in> DS s" "d_dir d = dir" "d_name d = n" "fattr_in s fa f" "fa_id f = d_fid d" by (rule lookup_in [OF inv l(1)])
    have "f = g" using fattr_at_in [OF d(4)] l(2) by simp
    moreover have "fa_type f = KFS_DIR" using dot_is_dir [OF inv d(1) _ d(4,5)] False d(1-3) by blast
    ultimately show False using l(3) by simp
  qed
  then show ?thesis using inv by simp
qed

end
