(* ===== verification/NsReach.thy ===== *)
theory NsReach
  imports NsRenameOps
begin

text \<open>
  What the operations need in terms of names, the settings that they leave alone, the states
  that the metaserver reaches by its requests on the name space, and look-ups that always
  answer.  A few sample name spaces, each the result of the operation on the one before,
  serve as examples.
\<close>

subsection \<open>Conditions on the names\<close>

text \<open>A directory is empty when it has no names but its own and that of its parent.\<close>

lemma emptydir_names:
  assumes inv: "ns_inv s" and k: "kind s i = Some KFS_DIR"
  shows "emptydir s i \<longleftrightarrow> (\<forall>n. names s (i, n) \<noteq> None \<longrightarrow> n = kThisDir \<or> n = kParentDir)"
proof -
  note P = ns_inv_parts [OF inv]
  obtain f where f: "fattr_in s (getFattr s i) f" "fa_id f = i" "fa_type f = KFS_DIR" using ns_fattr [OF inv k] by metis
  obtain y e z g where dots: "(y, e) \<in> DS s" "d_dir e = i" "d_name e = kThisDir" "(z, g) \<in> DS s" "d_dir g = i" "d_name g = kParentDir" "y \<noteq> z"
    using dots_of_dir [OF inv f(1,3)] f(2) by metis
  have y: "u = y" if "(u, d) \<in> DS s" "d_dir d = i" "d_name d = kThisDir" for u d using fs_names [OF P(3) that(1) dots(1)] that dots by simp
  have z: "u = z" if "(u, d) \<in> DS s" "d_dir d = i" "d_name d = kParentDir" for u d using fs_names [OF P(3) that(1) dots(4)] that dots by simp
  have ye: "d = e" if "(y, d) \<in> DS s" for d using fs_names [OF P(3) that dots(1)] by simp
  have zg: "d = g" if "(z, d) \<in> DS s" for d using fs_names [OF P(3) that dots(4)] by simp
  show ?thesis unfolding emptydir_iff [OF P(7) dots(1,2,4,5,7)]
  proof
    assume a: "\<forall>u k. (u, k) \<in> DS s \<longrightarrow> d_dir k = i \<longrightarrow> u = y \<or> u = z"
    show "\<forall>n. names s (i, n) \<noteq> None \<longrightarrow> n = kThisDir \<or> n = kParentDir"
    proof (intro allI impI)
      fix n assume "names s (i, n) \<noteq> None"
      then obtain u d where d: "(u, d) \<in> DS s" "d_dir d = i" "d_name d = n" using names_someD [OF P(7)] by blast
      then show "n = kThisDir \<or> n = kParentDir" using a ye zg dots by metis
    qed
  next
    assume a: "\<forall>n. names s (i, n) \<noteq> None \<longrightarrow> n = kThisDir \<or> n = kParentDir"
    show "\<forall>u k. (u, k) \<in> DS s \<longrightarrow> d_dir k = i \<longrightarrow> u = y \<or> u = z"
    proof (intro allI impI)
      fix u d assume d: "(u, d) \<in> DS s" "d_dir d = i"
      have "names s (i, d_name d) \<noteq> None" using names_some [OF P(7) d(1)] d(2) by simp
      then show "u = y \<or> u = z" using a y [OF d] z [OF d] by blast
    qed
  qed
qed

text \<open>A tree with few entries has one level.\<close>

lemma small_tree:
  assumes inv: "tree_inv t" and few: "length (entries t) < 29"
  shows "hgt t = 1"
proof (cases "root t")
  case (Level1 i nx es)
  then show ?thesis using inv by (cases "hgt t - 1") (auto simp: tree_inv_def)
next
  case (Inner i nx cs)
  have w: "wfn (hgt t - 1) (root t)" "rootfill (root t)" using inv by (simp_all add: tree_inv_def)
  have leaf: "15 \<le> int (length (leaves n))" if "fill c n" "0 \<le> c" "wfn h n" for c h n
    using that
  proof (induction c n arbitrary: h rule: fill.induct)
    case (2 c i nx cs)
    then obtain e h' where e: "e \<in> set cs" "wfn h' (snd e)" by (cases h; cases cs) auto
    have "15 \<le> int (length (leaves (snd e)))" using 2(1) [OF e(1)] 2(2,3) e by auto
    moreover have "length (leaves (snd e)) \<le> length (leaves (Inner i nx cs))"
      using e(1) by (auto simp: length_concat intro!: member_le_sum_list)
    ultimately show ?case by linarith
  qed simp
  obtain a b cs' where cs: "cs = a # b # cs'" using w(2) Inner by (cases cs; cases "tl cs") auto
  then have "15 \<le> int (length (leaves (snd a)))" "15 \<le> int (length (leaves (snd b)))"
    using leaf [of 0 "snd a"] leaf [of 0 "snd b"] w Inner by (cases "hgt t - 1"; auto)+
  then have "30 \<le> length (leaves (root t))" using Inner cs by simp
  then show ?thesis using few entries_leaves [OF inv] by simp
qed

lemma few_objects:
  assumes inv: "ns_inv s" and c: "CS s = {}" and n: "dom (names s) \<subseteq> set ks" and k: "dom (kind s) \<subseteq> set is" and few: "length ks + length is < 29"
  shows "hgt (tree s) \<le> 16"
proof -
  note P = ns_inv_parts [OF inv]
  let ?g = "\<lambda>k. the (getDentry s (fst k) (snd k))"
  have sub: "snd ` set (entries (tree s)) \<subseteq> ?g ` set ks \<union> getFattr s ` set is"
  proof
    fix a assume "a \<in> snd ` set (entries (tree s))"
    then have "live s a" by (auto simp: live_def)
    then have "a \<in> fst ` FS s \<union> fst ` DS s" using stage_live [OF P(7)] c by simp
    then show "a \<in> ?g ` set ks \<union> getFattr s ` set is"
    proof
      assume "a \<in> fst ` FS s"
      then obtain f where f: "fattr_in s a f" by (auto simp: in_FS)
      then have "fa_id f \<in> set is" "a = getFattr s (fa_id f)" using kind_in [OF inv f] k getFattr_in [OF P(1) f] by auto
      then show ?thesis by blast
    next
      assume "a \<in> fst ` DS s"
      then obtain d where d: "(a, d) \<in> DS s" by auto
      have "names s (d_dir d, d_name d) = Some (d_fid d)" by (rule names_some [OF P(7) d])
      then have "(d_dir d, d_name d) \<in> set ks" using n by blast
      moreover have "a = ?g (d_dir d, d_name d)" using getDentry_in [OF P(1)] d by (simp add: in_DS)
      ultimately show ?thesis by blast
    qed
  qed
  have "distinct (map snd (entries (tree s)))" using P(1) by (simp add: store_inv_def)
  then have "length (entries (tree s)) = card (snd ` set (entries (tree s)))" using distinct_card [of "map snd (entries (tree s))"] by simp
  also have "\<dots> \<le> card (?g ` set ks \<union> getFattr s ` set is)" by (rule card_mono [OF _ sub]) simp
  also have "\<dots> \<le> card (?g ` set ks) + card (getFattr s ` set is)" by (rule card_Un_le)
  also have "\<dots> \<le> length ks + length is" by (intro add_mono order_trans [OF card_image_le card_length]) simp_all
  finally have "hgt (tree s) = 1" using few P(1) by (intro small_tree) (simp_all add: store_inv_def)
  then show ?thesis by simp
qed

subsection \<open>What the operations leave alone\<close>

text \<open>The settings, the path cache and the marked chunk.\<close>

definition settings :: "NS \<Rightarrow> bool \<times> bool \<times> bool \<times> addr \<times> (string \<times> PathToFidCacheEntry) list \<times> groups" where
  "settings s = (updatePathSpaceUsage s, allowFidToPathConversion s, isPathToFidCacheEnabled s, chunkEntryToChange s, pathCache s, members s)"

lemma settings_upd [simp]:
  "settings (s\<lparr>tree := t\<rparr>) = settings s" "settings (s\<lparr>objs := m\<rparr>) = settings s" "settings (s\<lparr>nextAddr := a\<rparr>) = settings s"
  "settings (s\<lparr>fileID := i\<rparr>) = settings s" "settings (UpdateNumDirs k s) = settings s" "settings (UpdateNumFiles k s) = settings s"
  by (simp_all add: settings_def UpdateNumDirs_def UpdateNumFiles_def)

lemma settings_steps:
  "insert_meta a s = Some s' \<Longrightarrow> settings s' = settings s"
  "upd_fattr a h s = Some s' \<Longrightarrow> settings s' = settings s"
  "updateCounts a x y z s = Some s' \<Longrightarrow> settings s' = settings s"
  "alloc m s = (b, s') \<Longrightarrow> settings s' = settings s"
  using updateCounts_counted [of a x y z s s']
  by (auto simp: insert_meta_def upd_fattr_def alloc_def counted_def Let_def split: bind_splits)

lemma settings_link: "link dir n t i nrep sp u g m par s = Some (st, fa, s') \<Longrightarrow> settings s' = settings s"
  by (auto simp: link_def Let_def settings_steps split: if_splits bind_splits prod.splits)

lemma settings_mkdir: "mkdir dir n u g m euser egroup i s = Some (st, j, fa, s') \<Longrightarrow> settings s' = settings s"
  by (auto simp: mkdir_def genid_def Let_def settings_steps settings_link split: if_splits bind_splits prod.splits option.splits)

lemma settings_create_tail: "create_tail dir n i nrep sp td u g m par s = Some (st, j, td', fa, s') \<Longrightarrow> settings s' = settings s"
  by (auto simp: create_tail_def Let_def settings_steps settings_link split: if_splits bind_splits prod.splits)

subsection \<open>The reachable name spaces\<close>

text \<open>
  A request of the metaserver on the name space.  New identifiers are drawn, not given; files
  are created exclusively and \<open>rename\<close> does not overwrite; the names \<open>.\<close> and \<open>..\<close> are not
  renamed.  The deletions happen on a tree of at most 16 levels, and \<open>remove\<close> happens while
  no chunk entry is being reassigned, with a dumpster in place and the counter of the file in
  step with its chunks.
\<close>

inductive ns_step :: "NS \<Rightarrow> NS \<Rightarrow> bool" where
  mkdir: "fileID s \<noteq> - 1 \<Longrightarrow> mkdir dir n u g m euser egroup 0 s = Some (st, i, fa, s') \<Longrightarrow> ns_step s s'"
| create: "fileID s \<noteq> - 1 \<Longrightarrow> create dir n 0 nrep True sp td u g m euser egroup s = Some (st, i, td', fa, s') \<Longrightarrow> ns_step s s'"
| rmdir: "hgt (tree s) \<le> 16 \<Longrightarrow> rmdir dir n pathname euser egroup s = Some (st, s') \<Longrightarrow> ns_step s s'"
| remove: "hgt (tree s) \<le> 16 \<Longrightarrow> chunkEntryToChange s = 0 \<Longrightarrow> names s (ROOTFID, DUMPSTERDIR) \<noteq> None \<Longrightarrow>
    (case names s (dir, n) of None \<Rightarrow> True | Some i \<Rightarrow> chunks_counted s i) \<Longrightarrow>
    remove dir n pathname td euser egroup s = Some (st, td', s') \<Longrightarrow> ns_step s s'"
| rename: "hgt (tree s) \<le> 16 \<Longrightarrow> o1 \<noteq> kThisDir \<Longrightarrow> o1 \<noteq> kParentDir \<Longrightarrow>
    rename par o1 n oldpath False td euser egroup s = Some (st, td', s') \<Longrightarrow> ns_step s s'"
| lookupPath: "lookupPath rootdir path euser egroup s = Some (st, fa, s') \<Longrightarrow> ns_step s s'"

inductive ns_reach :: "NS \<Rightarrow> bool" where
  start: "empty_ns s \<Longrightarrow> ROOTFID \<le> fileID s \<Longrightarrow> new_tree u g m s = Some (st, s') \<Longrightarrow> ns_reach s'"
| step: "ns_reach s \<Longrightarrow> ns_step s s' \<Longrightarrow> ns_reach s'"

lemma ns_step_keeps: "ns_step s s' \<Longrightarrow> ns_inv s \<Longrightarrow> ns_inv s'"
proof (induction rule: ns_step.induct)
  case (mkdir s dir n u g m euser egroup st i fa s')
  then show ?case using mkdir_keeps by blast
next
  case (create s dir n nrep sp td u g m euser egroup st i td' fa s')
  then show ?case using create_keeps by blast
next
  case (rmdir s dir n pathname euser egroup st s')
  then show ?case using rmdir_keeps by blast
next
  case (remove s dir n pathname td euser egroup st td' s')
  then show ?case using remove_keeps [of s dir n pathname td euser egroup st td' s'] by (cases "names s (dir, n)") auto
next
  case (rename s o1 par n oldpath td euser egroup st td' s')
  then show ?case using rename_keeps [of s o1 remove par n oldpath td euser egroup st td' s'] by (simp add: rename_def)
next
  case (lookupPath rootdir path euser egroup s st fa s')
  then show ?case using lookupPath_in [of s rootdir path euser egroup st fa s'] by (auto simp: cached_def pathCache_same)
qed

lemma ns_reach_inv: "ns_reach s \<Longrightarrow> ns_inv s"
proof (induction rule: ns_reach.induct)
  case (start s u g m st s')
  then show ?case using new_tree_ok [of s u g m] by auto
qed (use ns_step_keeps in blast)

text \<open>In a name space that satisfies the invariant every object but the root has one name.\<close>

lemma one_name:
  assumes inv: "ns_inv s" and k: "kind s i = Some t" and i: "i \<noteq> ROOTFID"
  shows "\<exists>!(dir, n). n \<noteq> kThisDir \<and> n \<noteq> kParentDir \<and> names s (dir, n) = Some i"
proof -
  note P = ns_inv_parts [OF inv]
  obtain a f where f: "(a, f) \<in> FS s" "fa_id f = i" using kind_iff [OF P(7)] k by blast
  obtain x d where d: "(x, d) \<in> DS s" "proper d" "d_fid d = i" using fs_link_some [OF P(5) f(1)] f(2) i by auto
  have nd: "d_name d \<noteq> kThisDir" "d_name d \<noteq> kParentDir" using d(2) by (auto simp: proper_def)
  have only: "dir = d_dir d \<and> n = d_name d" if n: "n \<noteq> kThisDir" "n \<noteq> kParentDir" "names s (dir, n) = Some i" for dir n
  proof -
    obtain y e where e: "(y, e) \<in> DS s" "d_dir e = dir" "d_name e = n" "d_fid e = i" using names_someD [OF P(7) n(3)] by blast
    have "n \<noteq> ''/''" using fs_slash [OF P(6) e(1)] e(3,4) i by auto
    then have "proper e" using n e(3) by (simp add: proper_def)
    then have "y = x" using fs_link_one [OF P(5) e(1) d(1) _ d(2)] e(4) d(3) by simp
    then have "e = d" using fs_names [OF P(3) e(1) d(1)] by simp
    then show ?thesis using e by simp
  qed
  have some: "names s (d_dir d, d_name d) = Some i" using names_some [OF P(7) d(1)] d(3) by simp
  show ?thesis
  proof (rule ex1I [of _ "(d_dir d, d_name d)"])
    show "k = (d_dir d, d_name d)" if "case k of (dir, n) \<Rightarrow> n \<noteq> kThisDir \<and> n \<noteq> kParentDir \<and> names s (dir, n) = Some i" for k
      using only that by (cases k) auto
  qed (use nd some in simp)
qed

lemma name_dir: "ns_inv s \<Longrightarrow> names s (dir, n) = Some i \<Longrightarrow> kind s dir = Some KFS_DIR \<and> kind s i \<noteq> None"
proof -
  assume inv: "ns_inv s" and n: "names s (dir, n) = Some i"
  note P = ns_inv_parts [OF inv]
  obtain x d where d: "(x, d) \<in> DS s" "d_dir d = dir" "d_fid d = i" using names_someD [OF P(7) n] by blast
  have "kind s dir = Some KFS_DIR" using fs_dir [OF P(3) d(1)] kind_iff [OF P(7)] d(2) by blast
  moreover have "kind s i \<noteq> None" using fs_target [OF P(3) d(1)] kind_iff [OF P(7), of i] d(3) by fastforce
  ultimately show "kind s dir = Some KFS_DIR \<and> kind s i \<noteq> None" ..
qed

subsection \<open>Sample name spaces\<close>

text \<open>A metaserver at its start, with or without the accounting of directory sizes.\<close>

definition ns_start :: "bool \<Rightarrow> NS" where
  "ns_start b = \<lparr>tree = new_Tree, objs = (\<lambda>_. None), nextAddr = 1, fileID = ROOTFID, chunkID = 1, csmap = (\<lambda>_. None), chunkEntryToChange = 0,
     fattrToChangeTo = 0, pathCache = [], lastCacheCleanup = 0, allowFidToPathConversion = True, isPathToFidCacheEnabled = True,
     updatePathSpaceUsage = b, numFiles = 0, numDirs = 0, numChunks = 0, clock = 1, seconds = 1, members = [],
     leaseIssued = (\<lambda>_. False), deleteRPCs = [], replicationChecks = [], recoveryUpdates = []\<rparr>"

lemma ns_start_empty: "empty_ns (ns_start b)" "ROOTFID \<le> fileID (ns_start b)" "settings (ns_start b) = (b, True, True, 0, [], [])"
  by (simp_all add: ns_start_def empty_ns_def settings_def)

text \<open>With a root directory, then with a directory \<open>a\<close> in it, then with a file \<open>f\<close> beside \<open>a\<close>.\<close>

definition ns_root :: "bool \<Rightarrow> NS" where
  "ns_root b = (case new_tree kKfsUserRoot kKfsGroupRoot 0x1ED (ns_start b) of Some (_, s) \<Rightarrow> s | None \<Rightarrow> ns_start b)"

definition ns_dir :: "bool \<Rightarrow> NS" where
  "ns_dir b = (case mkdir ROOTFID ''a'' kKfsUserRoot kKfsGroupRoot 0x1ED kKfsUserRoot kKfsGroupRoot 0 (ns_root b) of
     Some (_, _, _, s) \<Rightarrow> s | None \<Rightarrow> ns_root b)"

definition ns_file :: "bool \<Rightarrow> NS" where
  "ns_file b = (case create ROOTFID ''f'' 0 1 True (KFS_STRIPED_FILE_TYPE_NONE, 0, 0, 0) (- 1) kKfsUserRoot kKfsGroupRoot 0x1A4 kKfsUserRoot kKfsGroupRoot (ns_dir b) of
     Some (_, _, _, _, s) \<Rightarrow> s | None \<Rightarrow> ns_dir b)"

lemma sample_consts: "ROOTFID = (2 :: u64)" "DUMPSTERDIR = ''dumpster''" "kThisDir = ''.''" "kParentDir = ''..''"
  by (simp_all add: ROOTFID_def DUMPSTERDIR_def kThisDir_def kParentDir_def)

lemma super_user [simp]: "CanWrite gs p kKfsUserRoot g" "CanSearch gs p kKfsUserRoot g" "\<not> IsDeleteRestricted p f kKfsUserRoot"
  by (simp_all add: CanWrite_def CanSearch_def Access_def IsDeleteRestricted_def)

lemma ns_root_facts:
  "new_tree kKfsUserRoot kKfsGroupRoot 0x1ED (ns_start b) = Some (0, ns_root b)" "ns_inv (ns_root b)"
  "names (ns_root b) = [(2, ''/'') \<mapsto> 2, (2, ''.'') \<mapsto> 2, (2, ''..'') \<mapsto> 2]" "kind (ns_root b) = [2 \<mapsto> KFS_DIR]" "fileID (ns_root b) = 2"
  "CS (ns_root b) = {}" "settings (ns_root b) = (b, True, True, 0, [], [])"
proof -
  obtain s where s: "new_tree kKfsUserRoot kKfsGroupRoot 0x1ED (ns_start b) = Some (0, s)" "ns_inv s"
    "names s = [(ROOTFID, ''/'') \<mapsto> ROOTFID, (ROOTFID, kThisDir) \<mapsto> ROOTFID, (ROOTFID, kParentDir) \<mapsto> ROOTFID]" "kind s = [ROOTFID \<mapsto> KFS_DIR]"
    "fileID s = fileID (ns_start b)" "CS s = {}"
    using new_tree_ok [OF ns_start_empty(1,2)] by blast
  have e: "ns_root b = s" by (simp add: ns_root_def s(1))
  have "settings s = settings (ns_start b)" using s(1) settings_mkdir by (auto simp: new_tree_def split: bind_splits)
  then show "new_tree kKfsUserRoot kKfsGroupRoot 0x1ED (ns_start b) = Some (0, ns_root b)" "ns_inv (ns_root b)"
    "names (ns_root b) = [(2, ''/'') \<mapsto> 2, (2, ''.'') \<mapsto> 2, (2, ''..'') \<mapsto> 2]" "kind (ns_root b) = [2 \<mapsto> KFS_DIR]" "fileID (ns_root b) = 2"
    "CS (ns_root b) = {}" "settings (ns_root b) = (b, True, True, 0, [], [])"
    using s e by (simp_all add: sample_consts ns_start_def settings_def)
qed

lemma ns_attr: "ns_inv s \<Longrightarrow> kind s i = Some t \<Longrightarrow> \<exists>f. fattr_at s (getFattr s i) = Some f \<and> fa_type f = t \<and> getFattr s i \<noteq> 0"
  using ns_fattr [of s i t] fattr_at_in by metis

lemma ns_dir_facts:
  "ns_inv (ns_dir b)" "names (ns_dir b) = (names (ns_root b))((2, ''a'') \<mapsto> 3, (3, ''.'') \<mapsto> 3, (3, ''..'') \<mapsto> 2)"
  "kind (ns_dir b) = [2 \<mapsto> KFS_DIR, 3 \<mapsto> KFS_DIR]" "fileID (ns_dir b) = 3" "CS (ns_dir b) = {}" "settings (ns_dir b) = (b, True, True, 0, [], [])"
  "\<exists>fa. mkdir ROOTFID ''a'' kKfsUserRoot kKfsGroupRoot 0x1ED kKfsUserRoot kKfsGroupRoot 0 (ns_root b) = Some (0, 3, fa, ns_dir b)"
proof -
  note R = ns_root_facts [of b]
  obtain p where p: "fattr_at (ns_root b) (getFattr (ns_root b) ROOTFID) = Some p" using ns_attr [OF R(2), of ROOTFID KFS_DIR] R(4) by (auto simp: sample_consts)
  have n: "legalname ''a''" "names (ns_root b) (ROOTFID, ''a'') = None" "kind (ns_root b) ROOTFID = Some KFS_DIR" "fileID (ns_root b) \<noteq> - 1"
    using R(3-5) by (simp_all add: sample_consts legalname_def MAX_FILE_NAME_LENGTH_def newline_def)
  obtain fa s where s: "mkdir ROOTFID ''a'' kKfsUserRoot kKfsGroupRoot 0x1ED kKfsUserRoot kKfsGroupRoot 0 (ns_root b) = Some (0, fileID (ns_root b) + 1, fa, s)"
    "ns_inv s" "names s = (names (ns_root b))((ROOTFID, ''a'') \<mapsto> fileID (ns_root b) + 1, (fileID (ns_root b) + 1, kThisDir) \<mapsto> fileID (ns_root b) + 1,
      (fileID (ns_root b) + 1, kParentDir) \<mapsto> ROOTFID)" "kind s = (kind (ns_root b))(fileID (ns_root b) + 1 \<mapsto> KFS_DIR)" "CS s = CS (ns_root b)"
    "fileID s = fileID (ns_root b) + 1"
    using mkdir_ok [OF R(2) n(1-3) p super_user(1) n(4)] by blast
  have e: "ns_dir b = s" by (simp add: ns_dir_def s(1))
  have "settings s = settings (ns_root b)" by (rule settings_mkdir [OF s(1)])
  then show "ns_inv (ns_dir b)" "names (ns_dir b) = (names (ns_root b))((2, ''a'') \<mapsto> 3, (3, ''.'') \<mapsto> 3, (3, ''..'') \<mapsto> 2)"
    "kind (ns_dir b) = [2 \<mapsto> KFS_DIR, 3 \<mapsto> KFS_DIR]" "fileID (ns_dir b) = 3" "CS (ns_dir b) = {}" "settings (ns_dir b) = (b, True, True, 0, [], [])"
    "\<exists>fa. mkdir ROOTFID ''a'' kKfsUserRoot kKfsGroupRoot 0x1ED kKfsUserRoot kKfsGroupRoot 0 (ns_root b) = Some (0, 3, fa, ns_dir b)"
    using s R e by (simp_all add: sample_consts)
qed

lemma ns_file_facts:
  "ns_inv (ns_file b)" "names (ns_file b) = (names (ns_dir b))((2, ''f'') \<mapsto> 4)"
  "kind (ns_file b) = [2 \<mapsto> KFS_DIR, 3 \<mapsto> KFS_DIR, 4 \<mapsto> KFS_FILE]" "CS (ns_file b) = {}" "settings (ns_file b) = (b, True, True, 0, [], [])"
  "map_option subcount1 (fattr_at (ns_file b) (getFattr (ns_file b) 4)) = Some 0"
  "\<exists>fa. create ROOTFID ''f'' 0 1 True (KFS_STRIPED_FILE_TYPE_NONE, 0, 0, 0) (- 1) kKfsUserRoot kKfsGroupRoot 0x1A4 kKfsUserRoot kKfsGroupRoot (ns_dir b) =
     Some (0, 4, - 1, fa, ns_file b)"
proof -
  note R = ns_dir_facts [of b]
  obtain p where p: "fattr_at (ns_dir b) (getFattr (ns_dir b) ROOTFID) = Some p" "fa_type p = KFS_DIR" "getFattr (ns_dir b) ROOTFID \<noteq> 0"
    using ns_attr [OF R(1), of ROOTFID KFS_DIR] R(3) by (auto simp: sample_consts)
  have n: "legalname ''f''" "names (ns_dir b) (ROOTFID, ''f'') = None" "kind (ns_dir b) ROOTFID = Some KFS_DIR" "fileID (ns_dir b) \<noteq> - 1"
    using R(2-4) ns_root_facts(3) [of b] by (simp_all add: sample_consts legalname_def MAX_FILE_NAME_LENGTH_def newline_def)
  have sp: "fst (SetStriped KFS_STRIPED_FILE_TYPE_NONE 0 0 0 f)" for f by (simp add: SetStriped_def)
  obtain fa s where s: "create ROOTFID ''f'' 0 1 True (KFS_STRIPED_FILE_TYPE_NONE, 0, 0, 0) (- 1) kKfsUserRoot kKfsGroupRoot 0x1A4 kKfsUserRoot kKfsGroupRoot (ns_dir b) =
      Some (0, fileID (ns_dir b) + 1, - 1, fa, s)" "ns_inv s" "names s = (names (ns_dir b))((ROOTFID, ''f'') \<mapsto> fileID (ns_dir b) + 1)"
    "kind s = (kind (ns_dir b))(fileID (ns_dir b) + 1 \<mapsto> KFS_FILE)" "CS s = CS (ns_dir b)"
    "map_option subcount1 (fattr_at s (getFattr s (fileID (ns_dir b) + 1))) = Some 0"
    using create_ok [OF R(1) n(1-3) p(1) super_user(1) n(4) zero_less_one sp] by blast
  have e: "ns_file b = s" by (simp add: ns_file_def s(1))
  have "getDentry (ns_dir b) ROOTFID ''f'' = Some 0" using names_none [OF ns_inv_parts(7) [OF R(1)]] n(2) by blast
  then have "settings s = settings (ns_dir b)"
    using s(1) create_eq [OF n(1) zero_less_one p(3,1,2) super_user(1)] settings_create_tail by (fastforce simp: settings_def)
  then show "ns_inv (ns_file b)" "names (ns_file b) = (names (ns_dir b))((2, ''f'') \<mapsto> 4)"
    "kind (ns_file b) = [2 \<mapsto> KFS_DIR, 3 \<mapsto> KFS_DIR, 4 \<mapsto> KFS_FILE]" "CS (ns_file b) = {}" "settings (ns_file b) = (b, True, True, 0, [], [])"
    "map_option subcount1 (fattr_at (ns_file b) (getFattr (ns_file b) 4)) = Some 0"
    "\<exists>fa. create ROOTFID ''f'' 0 1 True (KFS_STRIPED_FILE_TYPE_NONE, 0, 0, 0) (- 1) kKfsUserRoot kKfsGroupRoot 0x1A4 kKfsUserRoot kKfsGroupRoot (ns_dir b) =
     Some (0, 4, - 1, fa, ns_file b)"
    using s R e by (simp_all add: sample_consts)
qed

subsection \<open>Look-ups answer\<close>

lemma lookup_returns:
  assumes inv: "ns_inv s"
  shows "\<exists>st fa par x. lookup s dir n euser egroup op = Some (st, fa, par, x) \<and> (st = 0 \<longrightarrow> names s (dir, n) \<noteq> None \<and> fa \<noteq> 0)"
proof (cases "names s (dir, n)")
  case None
  then show ?thesis using lookup_missing(2) [OF inv] by (auto simp: ENOENT_def)
next
  case (Some i)
  note P = ns_inv_parts [OF inv]
  obtain x d where d: "(x, d) \<in> DS s" "d_dir d = dir" "d_name d = n" "d_fid d = i" using names_someD [OF P(7) Some] by blast
  obtain f where f: "fattr_in s (getFattr s (d_fid d)) f" "fa_id f = d_fid d" "getFattr s (d_fid d) \<noteq> 0" "dentry_at s x = Some d" "x \<noteq> 0"
    "getDentry s (d_dir d) (d_name d) = Some x" "(if d_fattr d \<noteq> 0 then d_fattr d else getFattr s (d_fid d)) = getFattr s (d_fid d)"
    by (rule entry_target [OF inv d(1)])
  have F: "(getFattr s (d_fid d), strip f) \<in> FS s" using f(1) by (auto simp: in_FS)
  let ?par = "if parent f \<noteq> 0 then parent f else if dir = ROOTFID then getFattr s (d_fid d) else getFattr s dir"
  obtain b g where g: "fattr_in s b g" "fa_id g = dir" using fs_dir [OF P(3) d(1)] d(2) by (auto simp: in_FS)
  have dg: "getFattr s dir = b" "b \<noteq> 0" using getFattr_in [OF P(1) g(1)] g live_addr [OF P(1)] by (auto simp: in_defs)
  have "?par \<noteq> 0 \<and> (\<exists>p. fattr_at s ?par = Some p)"
  proof (cases "parent f = 0")
    case True
    then show ?thesis using f(1,3) g(1) dg fattr_at_in by auto
  next
    case False
    then have "fa_id f \<noteq> ROOTFID" using fs_root [OF P(4)] fs_ids [OF P(3) F] by fastforce
    then show ?thesis using False fs_parent [OF P(4) F] fattr_at_in by (fastforce simp: in_FS)
  qed
  then obtain p where p: "?par \<noteq> 0" "fattr_at s ?par = Some p" by blast
  then have "\<exists>ok par. canAccess s dir (getFattr s (d_fid d)) euser egroup op = Some (ok, par)"
    using fattr_at_in [OF f(1)] unfolding canAccess_def Let_def by auto
  then obtain ok par where c: "canAccess s dir (getFattr s (d_fid d)) euser egroup op = Some (ok, par)" by blast
  have "lookup s dir n euser egroup op = Some (if ok then (0, getFattr s (d_fid d), par, x) else (- EACCES, 0, par, x))"
    using f d c unfolding lookup_def Let_def by simp
  then show ?thesis using Some f(3) by (cases ok) (auto simp: EACCES_def)
qed

lemma walk_returns:
  assumes inv: "ns_inv s"
  shows "walk s euser egroup dir uc rest \<noteq> None"
proof (induction "length rest" arbitrary: dir uc rest rule: less_induct)
  case (less rest)
  define c sl n where "c = takeWhile not_slash rest" and "sl = dropWhile not_slash rest" and "n = dropWhile (\<lambda>c. \<not> not_slash c) sl"
  note w = walk.simps [of s euser egroup dir uc rest, unfolded Let_def, folded c_def sl_def, folded n_def]
  obtain x where x: "getDentry s dir c = Some x" "x = 0 \<or> (\<exists>d. (x, d) \<in> DS s)"
    using getDentry_spec [OF ns_inv_parts(1) [OF inv], of dir c] by (auto simp: in_DS)
  show ?case
  proof (cases "sl = [] \<or> x = 0")
    case True
    then show ?thesis using w x by auto
  next
    case False
    then obtain d where d: "(x, d) \<in> DS s" using x(2) by blast
    obtain f where f: "fattr_in s (getFattr s (d_fid d)) f" "getFattr s (d_fid d) \<noteq> 0" "dentry_at s x = Some d"
      "(if d_fattr d \<noteq> 0 then d_fattr d else getFattr s (d_fid d)) = getFattr s (d_fid d)" by (rule entry_target [OF inv d])
    have "length n < length rest" using slash_rest [of rest] False by (simp add: n_def sl_def)
    then have IH: "walk s euser egroup dir' uc' n \<noteq> None" for dir' uc' by (rule less.hyps)
    show ?thesis using w x False f fattr_at_in [OF f(1)] IH by simp
  qed
qed

lemma path_tail_returns:
  assumes inv: "ns_inv s"
  shows "path_tail euser egroup cdir uc path cstart s \<noteq> None"
proof -
  obtain r where r: "walk s euser egroup cdir uc cstart = Some r" using walk_returns [OF inv] by blast
  show ?thesis
  proof (cases r)
    case (Inl p)
    then show ?thesis using r by (cases p) (simp add: path_tail_def)
  next
    case (Inr p)
    then obtain dir n uc' where p: "r = Inr (dir, n, uc')" by (cases p) auto
    obtain st fa par x where l: "lookup s dir n (if cdir = dir then euser else kKfsUserRoot) (if cdir = dir then egroup else kKfsGroupRoot) False = Some (st, fa, par, x)"
      using lookup_returns [OF inv] by blast
    have "st = 0 \<longrightarrow> fattr_at s fa \<noteq> None" using lookup_in [OF inv, of dir n _ _ False fa par x] l fattr_at_in by (metis option.distinct(1))
    then show ?thesis using r p l by (auto simp: path_tail_def)
  qed
qed

lemma lookupPath_returns:
  assumes inv: "ns_inv s"
  shows "lookupPath rootdir path euser egroup s \<noteq> None"
proof -
  define cdir where "cdir = (if rootdir = 0 \<or> absolute path then ROOTFID else rootdir)"
  define cstart where "cstart = (if absolute path then dropWhile (\<lambda>c. \<not> not_slash c) path else path)"
  define uc where "uc = (isPathToFidCacheEnabled s \<and> absolute path \<and> length path = Suc (length cstart))"
  define hit where "hit = (if uc then cache_find path (pathCache s) else None)"
  note l = lookupPath_def [of rootdir path euser egroup s, unfolded Let_def, folded cdir_def cstart_def, folded uc_def, folded hit_def]
  obtain st fa par x where "lookup s cdir ''/'' euser egroup False = Some (st, fa, par, x)" using lookup_returns [OF inv] by blast
  then have slash: ?thesis if "path = [] \<or> cstart = []" using that unfolding l by auto
  show ?thesis
  proof (cases "(path = [] \<or> cstart = []) \<or> (\<exists>e. hit = Some e \<and> getFattr s (ce_fid e) = ce_fa e)")
    case True
    then show ?thesis using slash unfolding l by auto
  next
    case False
    then have "(case hit of None \<Rightarrow> None | Some e \<Rightarrow> if getFattr s (ce_fid e) = ce_fa e then Some e else None) = None"
      by (auto split: option.splits)
    then have "lookupPath rootdir path euser egroup s =
        path_tail euser egroup cdir uc path cstart (if hit = None then s else s\<lparr>pathCache := cache_erase path (pathCache s)\<rparr>)"
      using False unfolding l path_tail_def by simp
    then show ?thesis using path_tail_returns [of "if hit = None then s else s\<lparr>pathCache := cache_erase path (pathCache s)\<rparr>"] inv by (simp add: pathCache_same)
  qed
qed

subsection \<open>Targets of \<open>rename\<close>\<close>

lemma dir_part_path:
  assumes "legalname n" "path \<noteq> []"
  shows "base_name (path @ ''/'' @ n) = n" "dir_part (path @ ''/'' @ n) = path"
proof -
  have n: "list_all not_slash n" using legal_slash [OF assms(1)] by simp
  have "takeWhile not_slash (rev n @ CHR ''/'' # rev path) = rev n"
    using n by (intro split_slash(1)) (simp add: list_all_iff)
  then show "base_name (path @ ''/'' @ n) = n" by (simp add: base_name_def)
  then show "dir_part (path @ ''/'' @ n) = path" using assms(2) by (cases path) (auto simp: dir_part_def max_def)
qed

lemma rename_target_path:
  assumes inv: "ns_inv s" and c: "comps s a ns" "ns \<noteq> []" and f: "fattr_in s a f" "fa_type f = KFS_DIR" and n: "legalname n"
    and free: "cache_find (''/'' @ join ns) (pathCache s) = None"
  shows "\<exists>s1. rename_target par (''/'' @ join ns @ ''/'' @ n) kKfsUserRoot g s = Some (0, fa_id f, a, n, s1)"
proof -
  obtain s1 where s1: "lookupPath par (''/'' @ join ns) kKfsUserRoot g s = Some (0, a, s1)" using lookupPath_comps [OF inv c(1) free] by blast
  have "cached s s1" using lookupPath_in [OF inv s1] by blast
  then have at: "fattr_at s1 = fattr_at s" by (auto simp: cached_def pathCache_same)
  have "rename_target par ((''/'' @ join ns) @ ''/'' @ n) kKfsUserRoot g s = Some (0, fa_id f, a, n, s1)"
    unfolding rename_target_def using dir_part_path [OF n, of "''/'' @ join ns"] s1 at fattr_at_in [OF f(1)] f(2) by (simp add: not_slash_def)
  then show ?thesis by simp
qed

lemma comps_child:
  assumes inv: "ns_inv s" and n: "names s (ROOTFID, n) = Some i" "n \<noteq> kThisDir" "n \<noteq> kParentDir" "n \<noteq> ''/''"
  shows "comps s (getFattr s i) [n]"
proof -
  note P = ns_inv_parts [OF inv]
  obtain x d where d: "(x, d) \<in> DS s" "proper d" "d_dir d = ROOTFID" "d_name d = n" "d_fid d = i" by (rule names_entry [OF inv n])
  obtain f p where f: "fattr_in s (getFattr s (d_fid d)) f" "fa_id f = d_fid d" "d_fid d \<noteq> ROOTFID" "parent f = getFattr s (d_dir d)"
    "fattr_in s (parent f) p" "fa_id p = d_dir d" "fa_type p = KFS_DIR" "parent f \<noteq> 0" by (rule proper_entry [OF inv d(1,2)])
  obtain b g where g: "(b, g) \<in> FS s" "fa_id g = ROOTFID" "parent g = 0" using fs_root [OF P(4)] by blast
  have "(parent f, strip p) \<in> FS s" using f(5) by (auto simp: in_FS)
  then have "strip p = g" using fs_ids [OF P(3) _ g(1)] f(6) d(3) g(2) by simp
  then have "parent p = 0" using g(3) by auto
  then have "comps s (parent f) []" using f(5,6) d(3) by (auto intro: comps.root)
  then have "comps s (getFattr s (d_fid d)) ([] @ [d_name d])"
    using f d by (intro comps.step [OF f(1) _ f(8,5,7)]) (use inv in \<open>auto simp: in_DS ns_inv_def ns_sets_def\<close>)
  then show ?thesis using d by simp
qed

lemma not_below_own_dir:
  assumes inv: "ns_inv s" and n: "names s (par, n) = Some i" "n \<noteq> kThisDir" "n \<noteq> kParentDir" "n \<noteq> ''/''"
  shows "\<not> below (FS s) (getFattr s i) (getFattr s par)"
proof -
  note P = ns_inv_parts [OF inv]
  obtain x d where d: "(x, d) \<in> DS s" "proper d" "d_dir d = par" "d_name d = n" "d_fid d = i" by (rule names_entry [OF inv n])
  obtain f where f: "fattr_in s (getFattr s (d_fid d)) f" "fa_id f = d_fid d" "d_fid d \<noteq> ROOTFID" "parent f = getFattr s (d_dir d)"
    by (rule proper_entry [OF inv d(1,2)])
  have F: "(getFattr s i, strip f) \<in> FS s" using f(1) d(5) by (auto simp: in_FS)
  show ?thesis using below_parent [OF fs_up [OF P(4) F] P(3) F] f d by simp
qed

lemma fresh_kind: "ns_inv s \<Longrightarrow> fileID s \<noteq> - 1 \<Longrightarrow> kind s (fileID s + 1) = None"
  using ns_unused [of s] kind_iff [OF ns_inv_parts(7), of s "fileID s + 1"] by (cases "kind s (fileID s + 1)") (auto dest: unusedD)

end
