(* ===== verification/NsProperties.thy ===== *)
theory NsProperties
  imports NsReach
begin

text \<open>
  The properties of the name space (kfsops.cc): the directory structure stays consistent over
  every sequence of requests, the operations change the names as they promise, and the loops
  over parent pointers end.
\<close>

subsection \<open>The properties\<close>






text \<open>
  C23. On an empty store \<open>new\_tree\<close> returns and leaves a consistent name space with a root
  directory and nothing else.
\<close>

theorem new_tree_makes_root:
  assumes "empty_ns s" "ROOTFID \<le> fileID s"
  shows "\<exists>s'. new_tree u g m s = Some (0, s') \<and> ns_inv s' \<and>
    names s' = [(ROOTFID, ''/'') \<mapsto> ROOTFID, (ROOTFID, kThisDir) \<mapsto> ROOTFID, (ROOTFID, kParentDir) \<mapsto> ROOTFID] \<and> kind s' = [ROOTFID \<mapsto> KFS_DIR]"
  using new_tree_ok [OF assms, of u g m] by blast

theorem new_tree_makes_root_witness:
  "\<exists>s'. new_tree 0 0 0x1ED (ns_start True) = Some (0, s') \<and> ns_inv s' \<and>
    names s' = [(ROOTFID, ''/'') \<mapsto> ROOTFID, (ROOTFID, kThisDir) \<mapsto> ROOTFID, (ROOTFID, kParentDir) \<mapsto> ROOTFID] \<and> kind s' = [ROOTFID \<mapsto> KFS_DIR]"
  by (rule new_tree_makes_root [OF ns_start_empty(1,2)])

text \<open>
  C9. \<open>mkdir\<close> of a legal new name in a directory that the user may write returns and adds
  exactly a directory under a fresh identifier, its name and its entries . and ..; every
  other name and object stays.
\<close>

theorem mkdir_adds_directory:
  assumes "ns_inv s" "legalname n" "names s (dir, n) = None" "kind s dir = Some KFS_DIR" "fattr_at s (getFattr s dir) = Some p"
    "CanWrite (members s) p euser egroup" "fileID s \<noteq> - 1"
  shows "\<exists>fa s'. mkdir dir n u g m euser egroup 0 s = Some (0, fileID s + 1, fa, s') \<and> ns_inv s' \<and> kind s (fileID s + 1) = None \<and>
    names s' = (names s)((dir, n) \<mapsto> fileID s + 1, (fileID s + 1, kThisDir) \<mapsto> fileID s + 1, (fileID s + 1, kParentDir) \<mapsto> dir) \<and>
    kind s' = (kind s)(fileID s + 1 \<mapsto> KFS_DIR)"
  using mkdir_ok [OF assms, of u g m] fresh_kind [OF assms(1,7)] by blast

theorem mkdir_adds_directory_witness:
  "\<exists>fa s'. mkdir 3 ''b'' kKfsUserRoot 0 0x1ED kKfsUserRoot 0 0 (ns_dir True) = Some (0, 4, fa, s') \<and> names s' (3, ''b'') = Some 4 \<and> kind s' 4 = Some KFS_DIR"
proof -
  note R = ns_dir_facts [of True]
  obtain p where p: "fattr_at (ns_dir True) (getFattr (ns_dir True) 3) = Some p" using ns_attr [OF R(1), of 3 KFS_DIR] R(3) by auto
  have "legalname ''b''" "names (ns_dir True) (3, ''b'') = None" "kind (ns_dir True) 3 = Some KFS_DIR" "fileID (ns_dir True) \<noteq> - 1"
    using R(2-4) ns_root_facts(3) [of True] by (simp_all add: legalname_def MAX_FILE_NAME_LENGTH_def newline_def)
  from mkdir_adds_directory [OF R(1) this(1-3) p super_user(1) this(4), where u = kKfsUserRoot and g = 0 and m = "0x1ED" and egroup = 0] show ?thesis using R(4) by (auto simp: sample_consts)
qed

text \<open>
  C10. \<open>create\<close> of a legal new name in a directory that the user may write, with acceptable
  stripe parameters, returns and adds exactly a file under a fresh identifier.
\<close>

theorem create_adds_file:
  assumes "ns_inv s" "legalname n" "names s (dir, n) = None" "kind s dir = Some KFS_DIR" "fattr_at s (getFattr s dir) = Some p"
    "CanWrite (members s) p euser egroup" "fileID s \<noteq> - 1" "0 < nrep"
    "fst (SetStriped st ns nr ss (new_MetaFattr (clock s) KFS_FILE (fileID s + 1) nrep u g m))"
  shows "\<exists>fa s'. create dir n 0 nrep excl (st, ns, nr, ss) td u g m euser egroup s = Some (0, fileID s + 1, td, fa, s') \<and> ns_inv s' \<and>
    kind s (fileID s + 1) = None \<and> names s' = (names s)((dir, n) \<mapsto> fileID s + 1) \<and> kind s' = (kind s)(fileID s + 1 \<mapsto> KFS_FILE)"
  using create_ok [OF assms, of excl td] fresh_kind [OF assms(1,7)] by blast

theorem create_adds_file_witness:
  "\<exists>fa s'. create 3 ''g'' 0 3 True (KFS_STRIPED_FILE_TYPE_NONE, 0, 0, 0) 0 kKfsUserRoot 0 0x1A4 kKfsUserRoot 0 (ns_dir True) = Some (0, 4, 0, fa, s') \<and>
    names s' (3, ''g'') = Some 4 \<and> kind s' 4 = Some KFS_FILE"
proof -
  note R = ns_dir_facts [of True]
  obtain p where p: "fattr_at (ns_dir True) (getFattr (ns_dir True) 3) = Some p" using ns_attr [OF R(1), of 3 KFS_DIR] R(3) by auto
  have sp: "fst (SetStriped KFS_STRIPED_FILE_TYPE_NONE 0 0 0 f)" for f by (simp add: SetStriped_def)
  have "legalname ''g''" "names (ns_dir True) (3, ''g'') = None" "kind (ns_dir True) 3 = Some KFS_DIR" "fileID (ns_dir True) \<noteq> - 1" "(0 :: int) < 3"
    using R(2-4) ns_root_facts(3) [of True] by (simp_all add: legalname_def MAX_FILE_NAME_LENGTH_def newline_def)
  from create_adds_file [OF R(1) this(1-3) p super_user(1) this(4,5) sp, where u = kKfsUserRoot and g = 0 and m = "0x1A4" and egroup = 0 and td = 0 and excl = True] show ?thesis using R(4) by (auto simp: sample_consts)
qed

text \<open>
  C7. \<open>rmdir\<close> of a directory without entries, by a user who may remove it, returns and
  removes exactly the directory, its name and its entries . and .. when the sizes of the
  directories above it can be charged.
\<close>

theorem rmdir_removes_directory:
  assumes "ns_inv s" "hgt (tree s) \<le> 16" "names s (dir, n) = Some i" "n \<noteq> kThisDir" "n \<noteq> kParentDir" "n \<noteq> ''/''" "\<not> (dir = ROOTFID \<and> n = DUMPSTERDIR)"
    "fattr_at s (getFattr s dir) = Some p" "euser = kKfsUserRoot \<or> CanSearch (members s) p euser egroup" "CanWrite (members s) p euser egroup"
    "fattr_at s (getFattr s i) = Some f" "kind s i = Some KFS_DIR" "\<not> IsDeleteRestricted p f euser"
    "\<forall>m. names s (i, m) \<noteq> None \<longrightarrow> m = kThisDir \<or> m = kParentDir" "acct_ok s (getFattr s i) (- getFileSize f) 0 (- 1)"
  shows "\<exists>s'. rmdir dir n pathname euser egroup s = Some (0, s') \<and> ns_inv s' \<and>
    names s' = (names s)((dir, n) := None, (i, kThisDir) := None, (i, kParentDir) := None) \<and> kind s' = (kind s)(i := None)"
proof (rule rmdir_ok [OF assms(1-11) _ assms(13) _ assms(15)])
  show "fa_type f = KFS_DIR" by (rule kind_fattr(4) [OF assms(1,12,11)])
  show "emptydir s i" using emptydir_names [OF assms(1,12)] assms(14) by blast
qed

lemma sample_hgt: "hgt (tree (ns_dir b)) \<le> 16" "hgt (tree (ns_file b)) \<le> 16"
proof -
  have d: "dom (names (ns_dir b)) \<subseteq> set [(2, ''/''), (2, ''.''), (2, ''..''), (2, ''a''), (3, ''.''), (3, ''..'')]"
    using ns_dir_facts(2) [of b] ns_root_facts(3) [of b] by auto
  show "hgt (tree (ns_dir b)) \<le> 16"
    by (rule few_objects [OF ns_dir_facts(1,5) d, of "[2, 3]"]) (auto simp: ns_dir_facts(3))
  have f: "dom (names (ns_file b)) \<subseteq> set [(2, ''/''), (2, ''.''), (2, ''..''), (2, ''a''), (3, ''.''), (3, ''..''), (2, ''f'')]"
    using ns_file_facts(2) [of b] d by auto
  show "hgt (tree (ns_file b)) \<le> 16"
    by (rule few_objects [OF ns_file_facts(1,4) f, of "[2, 3, 4]"]) (auto simp: ns_file_facts(3))
qed

lemma sample_acct: "settings s = (False, x) \<Longrightarrow> a \<noteq> 0 \<Longrightarrow> acct_ok s a l m n"
  by (simp add: settings_def acct_ok_def)

theorem rmdir_removes_directory_witness:
  "\<exists>s'. rmdir 2 ''a'' ''/a'' kKfsUserRoot 0 (ns_file False) = Some (0, s') \<and> names s' (2, ''a'') = None \<and> kind s' 3 = None \<and> kind s' 4 = Some KFS_FILE"
proof -
  note R = ns_file_facts [of False] and N = ns_dir_facts(2) [of False] ns_root_facts(3) [of False]
  obtain p where p: "fattr_at (ns_file False) (getFattr (ns_file False) 2) = Some p" using ns_attr [OF R(1), of 2 KFS_DIR] R(3) by auto
  obtain f where f: "fattr_at (ns_file False) (getFattr (ns_file False) 3) = Some f" "getFattr (ns_file False) 3 \<noteq> 0" using ns_attr [OF R(1), of 3 KFS_DIR] R(3) by auto
  have "names (ns_file False) (2, ''a'') = Some 3" "kind (ns_file False) 3 = Some KFS_DIR"
    "\<forall>m. names (ns_file False) (3, m) \<noteq> None \<longrightarrow> m = kThisDir \<or> m = kParentDir" using R(2,3) N by (simp_all add: sample_consts)
  then have "\<exists>s'. rmdir 2 ''a'' ''/a'' kKfsUserRoot 0 (ns_file False) = Some (0, s') \<and> ns_inv s' \<and>
    names s' = (names (ns_file False))((2, ''a'') := None, (3, kThisDir) := None, (3, kParentDir) := None) \<and> kind s' = (kind (ns_file False))(3 := None)"
    by (intro rmdir_removes_directory [OF R(1) sample_hgt(2) _ _ _ _ _ p _ _ f(1)]) (simp_all add: sample_consts sample_acct [OF R(5) f(2)])
  then show ?thesis using R(3) by (auto simp: sample_consts)
qed




text \<open>
  C22. \<open>rename\<close> to a new legal name in the same directory returns and changes exactly that
  name: the old one is gone and the new one denotes the object.
\<close>

theorem rename_in_directory:
  assumes inv: "ns_inv s" and h: "hgt (tree s) \<le> 16" and old: "names s (par, o1) = Some i" "o1 \<noteq> kThisDir" "o1 \<noteq> kParentDir" "o1 \<noteq> ''/''"
    and p: "fattr_at s (getFattr s par) = Some p" and ok: "euser = kKfsUserRoot \<or> CanSearch (members s) p euser egroup" "CanWrite (members s) p euser egroup"
    and n: "legalname n" "names s (par, n) = None"
  shows "\<exists>s'. rename par o1 n oldpath False td euser egroup s = Some (0, td, s') \<and> ns_inv s' \<and>
    names s' = moved (kind s) (names s) (par, o1) (par, n) i \<and> kind s' = kind s"
proof -
  obtain t where "kind s i = Some t" using name_dir [OF inv old(1)] by blast
  then obtain f where f: "fattr_at s (getFattr s i) = Some f" using ns_attr [OF inv] by blast
  have t: "rename_target par n euser egroup s = Some (0, par, 0, n, s)" using legal_slash [OF n(1)] by (simp add: rename_target_def)
  show ?thesis by (rule rename_moves [OF inv h old p ok f t n]) (use not_below_own_dir [OF inv old] in simp_all)
qed

theorem rename_in_directory_witness:
  "\<exists>s'. rename 2 ''a'' ''b'' ''/a'' False 0 kKfsUserRoot 0 (ns_file True) = Some (0, 0, s') \<and> names s' (2, ''a'') = None \<and>
    names s' (2, ''b'') = Some 3 \<and> names s' (2, ''f'') = Some 4 \<and> names s' (3, ''..'') = Some 2"
proof -
  note R = ns_file_facts [of True] and N = ns_dir_facts(2) [of True] ns_root_facts(3) [of True]
  obtain p where p: "fattr_at (ns_file True) (getFattr (ns_file True) 2) = Some p" using ns_attr [OF R(1), of 2 KFS_DIR] R(3) by auto
  have "names (ns_file True) (2, ''a'') = Some 3" "names (ns_file True) (2, ''b'') = None" "legalname ''b''"
    using R(2) N by (simp_all add: legalname_def MAX_FILE_NAME_LENGTH_def newline_def)
  then have "\<exists>s'. rename 2 ''a'' ''b'' ''/a'' False 0 kKfsUserRoot 0 (ns_file True) = Some (0, 0, s') \<and> ns_inv s' \<and>
      names s' = moved (kind (ns_file True)) (names (ns_file True)) (2, ''a'') (2, ''b'') 3 \<and> kind s' = kind (ns_file True)"
    by (intro rename_in_directory [OF R(1) sample_hgt(2) _ _ _ _ p]) (simp_all add: sample_consts)
  then show ?thesis using R(2,3) by (auto simp: moved_def Let_def sample_consts)
qed

text \<open>
  C4. \<open>rename\<close> of an object to another directory returns and moves exactly that object; the
  entry .. of a moved directory follows it.  The target directory is not the object or below
  it, the new name is free there, and the sizes above the old place can be charged.
\<close>

theorem rename_across_directories:
  assumes "ns_inv s" "hgt (tree s) \<le> 16" "names s (par, o1) = Some i" "o1 \<noteq> kThisDir" "o1 \<noteq> kParentDir" "o1 \<noteq> ''/''"
    "fattr_at s (getFattr s par) = Some p" "euser = kKfsUserRoot \<or> CanSearch (members s) p euser egroup" "CanWrite (members s) p euser egroup"
    "fattr_at s (getFattr s i) = Some f" "rename_target par n euser egroup s = Some (0, ddir, dd, dname, s1)" "legalname dname" "names s (ddir, dname) = None"
    "fa_type f = KFS_DIR \<longrightarrow> \<not> below (FS s) (getFattr s i) (getFattr s ddir)"
    "acct_ok s (getFattr s i) (- getFileSize f) (- fileCnt f) (- dirCnt f)" "fa_type f \<noteq> KFS_NONE"
  shows "\<exists>s'. rename par o1 n oldpath False td euser egroup s = Some (0, td, s') \<and> ns_inv s' \<and>
    names s' = moved (kind s) (names s) (par, o1) (ddir, dname) i \<and> kind s' = kind s"
  using rename_moves [OF assms(1-14), of oldpath td] assms(15,16) by blast

lemma sample_target:
  "\<exists>dd s1. rename_target 2 (''/'' @ join [''a''] @ ''/'' @ ''g'') kKfsUserRoot 0 (ns_file b) = Some (0, 3, dd, ''g'', s1)"
proof -
  note R = ns_file_facts [of b] and N = ns_dir_facts(2) [of b] ns_root_facts(3) [of b]
  obtain f where f: "fattr_at (ns_file b) (getFattr (ns_file b) 3) = Some f" "fa_type f = KFS_DIR" using ns_attr [OF R(1), of 3 KFS_DIR] R(3) by auto
  have fin: "fattr_in (ns_file b) (getFattr (ns_file b) 3) f" "fa_id f = 3" using kind_fattr [OF R(1) _ f(1), of KFS_DIR] R(3) by simp_all
  have c: "comps (ns_file b) (getFattr (ns_file b) 3) [''a'']" using R(2) N by (intro comps_child [OF R(1)]) (simp_all add: sample_consts)
  have e: "cache_find (''/'' @ join [''a'']) (pathCache (ns_file b)) = None" using R(5) by (simp add: settings_def cache_find_def)
  have "legalname ''g''" by (simp add: legalname_def MAX_FILE_NAME_LENGTH_def newline_def)
  from rename_target_path [OF R(1) c _ fin(1) f(2) this e, of 2 0] show ?thesis using fin(2) by auto
qed

theorem rename_across_directories_witness:
  "\<exists>s'. rename 2 ''f'' ''/a/g'' ''/f'' False 0 kKfsUserRoot 0 (ns_file False) = Some (0, 0, s') \<and> names s' (2, ''f'') = None \<and> names s' (3, ''g'') = Some 4"
proof -
  note R = ns_file_facts [of False] and N = ns_dir_facts(2) [of False] ns_root_facts(3) [of False]
  obtain p where p: "fattr_at (ns_file False) (getFattr (ns_file False) 2) = Some p" using ns_attr [OF R(1), of 2 KFS_DIR] R(3) by auto
  obtain f where f: "fattr_at (ns_file False) (getFattr (ns_file False) 4) = Some f" "fa_type f = KFS_FILE" "getFattr (ns_file False) 4 \<noteq> 0"
    using ns_attr [OF R(1), of 4 KFS_FILE] R(3) by auto
  obtain dd s1 where t: "rename_target 2 ''/a/g'' kKfsUserRoot 0 (ns_file False) = Some (0, 3, dd, ''g'', s1)" using sample_target [of False] by auto
  have "names (ns_file False) (2, ''f'') = Some 4" "names (ns_file False) (3, ''g'') = None" "legalname ''g''"
    using R(2) N by (simp_all add: legalname_def MAX_FILE_NAME_LENGTH_def newline_def)
  then have "\<exists>s'. rename 2 ''f'' ''/a/g'' ''/f'' False 0 kKfsUserRoot 0 (ns_file False) = Some (0, 0, s') \<and> ns_inv s' \<and>
      names s' = moved (kind (ns_file False)) (names (ns_file False)) (2, ''f'') (3, ''g'') 4 \<and> kind s' = kind (ns_file False)"
    by (intro rename_across_directories [OF R(1) sample_hgt(2) _ _ _ _ p _ _ f(1) t]) (simp_all add: sample_consts f(2) sample_acct [OF R(5) f(3)])
  then show ?thesis using R(3) by (auto simp: moved_def Let_def sample_consts)
qed

text \<open>
  C13. \<open>rename\<close> refuses to move a directory into itself or below itself with EINVAL, and the
  name space stays as it is: the directory tree cannot become cyclic.
\<close>

theorem rename_rejects_cycle:
  assumes "ns_inv s" "names s (par, o1) = Some i" "o1 \<noteq> kThisDir" "o1 \<noteq> kParentDir" "o1 \<noteq> ''/''"
    "fattr_at s (getFattr s par) = Some p" "euser = kKfsUserRoot \<or> CanSearch (members s) p euser egroup" "CanWrite (members s) p euser egroup"
    "rename_target par n euser egroup s = Some (0, ddir, dd, dname, s1)" "legalname dname" "names s (ddir, dname) = None"
    "kind s i = Some KFS_DIR" "below (FS s) (getFattr s i) (getFattr s ddir)"
  shows "rename par o1 n oldpath False td euser egroup s = Some (- EINVAL, td, s1) \<and> names s1 = names s \<and> kind s1 = kind s"
proof -
  have "cached s s1" by (rule rename_target_in(1) [OF assms(1,9)])
  then show ?thesis using rename_below_itself [OF assms, of oldpath td] pathCache_views [OF assms(1)] by (auto simp: cached_def)
qed

theorem rename_rejects_cycle_witness:
  "\<exists>s1. rename 2 ''a'' ''/a/g'' ''/a'' False 0 kKfsUserRoot 0 (ns_file True) = Some (- EINVAL, 0, s1) \<and> names s1 (2, ''a'') = Some 3"
proof -
  note R = ns_file_facts [of True] and N = ns_dir_facts(2) [of True] ns_root_facts(3) [of True]
  obtain p where p: "fattr_at (ns_file True) (getFattr (ns_file True) 2) = Some p" using ns_attr [OF R(1), of 2 KFS_DIR] R(3) by auto
  obtain dd s1 where t: "rename_target 2 ''/a/g'' kKfsUserRoot 0 (ns_file True) = Some (0, 3, dd, ''g'', s1)" using sample_target [of True] by auto
  have n: "names (ns_file True) (2, ''a'') = Some 3" "names (ns_file True) (3, ''g'') = None" "legalname ''g''"
    using R(2) N by (simp_all add: legalname_def MAX_FILE_NAME_LENGTH_def newline_def)
  have "rename 2 ''a'' ''/a/g'' ''/a'' False 0 kKfsUserRoot 0 (ns_file True) = Some (- EINVAL, 0, s1) \<and> names s1 = names (ns_file True) \<and> kind s1 = kind (ns_file True)"
    by (intro rename_rejects_cycle [OF R(1) n(1) _ _ _ p _ _ t n(3,2)]) (simp_all add: sample_consts R(3) below.self)
  then show ?thesis using n(1) by auto
qed

text \<open>
  C12. \<open>getPathname\<close> follows the parent pointers of any object up to the root, terminates
  with a path, and \<open>lookupPath\<close> of that path leads back to the same object when the path is
  not in the cache.
\<close>

theorem path_round_trip:
  assumes "ns_inv s" "kind s i = Some t" "allowFidToPathConversion s"
  shows "\<exists>path. getPathname s (getFattr s i) = Some path \<and>
    (cache_find path (pathCache s) = None \<longrightarrow> (\<exists>s'. lookupPath rootdir path kKfsUserRoot egroup s = Some (0, getFattr s i, s')))"
proof -
  obtain f where f: "fattr_in s (getFattr s i) f" using ns_fattr [OF assms(1,2)] by metis
  obtain path where p: "getPathname s (getFattr s i) = Some path" using getPathname_returns [OF assms(1) f] by blast
  then show ?thesis using getPathname_lookupPath [OF assms(1) f assms(3) p] by blast
qed

theorem path_round_trip_witness:
  "\<exists>s'. getPathname (ns_file True) (getFattr (ns_file True) 4) = Some ''/f'' \<and>
    lookupPath 2 ''/f'' kKfsUserRoot 0 (ns_file True) = Some (0, getFattr (ns_file True) 4, s')"
proof -
  note R = ns_file_facts [of True]
  have a: "allowFidToPathConversion (ns_file True)" "pathCache (ns_file True) = []" using R(5) by (simp_all add: settings_def)
  have "comps (ns_file True) (getFattr (ns_file True) 4) [''f'']" using R(2) by (intro comps_child [OF R(1)]) (simp_all add: sample_consts)
  then have p: "getPathname (ns_file True) (getFattr (ns_file True) 4) = Some ''/f''" using getPathname_comps [OF R(1) _ a(1)] by fastforce
  have "kind (ns_file True) 4 = Some KFS_FILE" using R(3) by simp
  from path_round_trip [OF R(1) this a(1), of 2 0] show ?thesis using p a(2) by (auto simp: cache_find_def)
qed

text \<open>
  C19. The loop of \<open>is\_descendant\<close> up the parent pointers terminates for every two
  directories and decides whether the second is the first or below it.
\<close>

theorem is_descendant_terminates:
  assumes "ns_inv s" "kind s i = Some t" "kind s j = Some KFS_DIR"
  shows "is_descendant s i j 0 = Some (below (FS s) (getFattr s i) (getFattr s j))"
proof -
  obtain f where f: "fattr_in s (getFattr s i) f" "fa_id f = i" using ns_fattr [OF assms(1,2)] by metis
  obtain g where g: "fattr_in s (getFattr s j) g" "fa_id g = j" "fa_type g = KFS_DIR" using ns_fattr [OF assms(1,3)] by metis
  show ?thesis using is_descendant_dir [OF assms(1) f(1) g(1,3)] f(2) g(2) by simp
qed

theorem is_descendant_terminates_witness: "is_descendant (ns_dir True) 3 3 0 = Some True \<and> is_descendant (ns_dir True) 3 2 0 = Some False"
proof -
  note R = ns_dir_facts [of True] and N = ns_root_facts(3) [of True]
  have k: "kind (ns_dir True) 3 = Some KFS_DIR" "kind (ns_dir True) 2 = Some KFS_DIR" using R(3) by simp_all
  have "\<not> below (FS (ns_dir True)) (getFattr (ns_dir True) 3) (getFattr (ns_dir True) 2)"
    using R(2) N by (intro not_below_own_dir [OF R(1), of _ "''a''"]) (simp_all add: sample_consts)
  then show ?thesis using is_descendant_terminates [OF R(1) k(1) k(1)] is_descendant_terminates [OF R(1) k] below.self [of "FS (ns_dir True)"] by simp
qed



text \<open>
  C20. Looking up any path answers, for every user and whatever the cache holds, and leaves
  the name space as it is.
\<close>

theorem lookupPath_answers:
  assumes "ns_inv s"
  shows "\<exists>st fa s'. lookupPath rootdir path euser egroup s = Some (st, fa, s') \<and> ns_inv s' \<and> names s' = names s \<and> kind s' = kind s \<and>
    (st = 0 \<longrightarrow> fa \<noteq> 0 \<longrightarrow> (\<exists>f. fattr_in s fa f))"
proof -
  obtain st fa s' where l: "lookupPath rootdir path euser egroup s = Some (st, fa, s')" using lookupPath_returns [OF assms] by (metis not_Some_eq prod_cases3)
  then show ?thesis using lookupPath_in [OF assms l] pathCache_views [OF assms] assms by (auto simp: cached_def pathCache_same)
qed

theorem lookupPath_answers_witness:
  "\<exists>st fa s'. lookupPath 2 ''/a/x'' 7 7 (ns_file True) = Some (st, fa, s') \<and> names s' = names (ns_file True)"
  using lookupPath_answers [OF ns_file_facts(1), of 2 "''/a/x''" 7 7 True] by blast

text \<open>
  C24. The refusals of \<open>rmdir\<close> for an existing name, in the order of its tests: no search
  permission, the dumpster, not a directory, no write permission, the sticky bit, not empty.
  A refused request changes nothing.
\<close>

theorem rmdir_refusals:
  assumes "ns_inv s" "names s (dir, n) = Some i" "n \<noteq> kThisDir" "n \<noteq> kParentDir" "n \<noteq> ''/''"
    "fattr_at s (getFattr s dir) = Some p" "fattr_at s (getFattr s i) = Some f"
    "status = (if \<not> (euser = kKfsUserRoot \<or> CanSearch (members s) p euser egroup) then - EACCES
       else if dir = ROOTFID \<and> n = DUMPSTERDIR then - EPERM
       else if kind s i \<noteq> Some KFS_DIR then - ENOTDIR
       else if \<not> CanWrite (members s) p euser egroup then - EACCES
       else if IsDeleteRestricted p f euser then - EPERM
       else if \<exists>m. names s (i, m) \<noteq> None \<and> m \<noteq> kThisDir \<and> m \<noteq> kParentDir then - ENOTEMPTY
       else 0)" "status \<noteq> 0"
  shows "rmdir dir n pathname euser egroup s = Some (status, s)"
proof -
  obtain x d where d: "(x, d) \<in> DS s" "proper d" "d_dir d = dir" "d_name d = n" "d_fid d = i" by (rule names_entry [OF assms(1-5)])
  obtain t where k: "kind s i = Some t" using name_dir [OF assms(1,2)] by blast
  have t: "fa_type f = t" by (rule kind_fattr(4) [OF assms(1) k assms(7)])
  define used where "used \<longleftrightarrow> (\<exists>m. names s (i, m) \<noteq> None \<and> m \<noteq> kThisDir \<and> m \<noteq> kParentDir)"
  have e: "emptydir s i \<longleftrightarrow> \<not> used" if "t = KFS_DIR"
    unfolding emptydir_names [OF assms(1) k [unfolded that]] used_def by blast
  have p: "fattr_at s (getFattr s (d_dir d)) = Some p" "fattr_at s (getFattr s (d_fid d)) = Some f" using assms(6,7) d by simp_all
  show ?thesis using rmdir_eq [OF assms(1) d(1,2) p, of pathname euser egroup, unfolded d(3-5)] assms(8) [folded used_def] assms(9) k t e
    by (cases "t = KFS_DIR") (auto split: if_splits)
qed

theorem rmdir_refusals_witness:
  "rmdir 2 ''f'' ''/f'' kKfsUserRoot 0 (ns_file True) = Some (- ENOTDIR, ns_file True)"
proof -
  note R = ns_file_facts [of True]
  obtain p where p: "fattr_at (ns_file True) (getFattr (ns_file True) 2) = Some p" using ns_attr [OF R(1), of 2 KFS_DIR] R(3) by auto
  obtain f where f: "fattr_at (ns_file True) (getFattr (ns_file True) 4) = Some f" using ns_attr [OF R(1), of 4 KFS_FILE] R(3) by auto
  have "names (ns_file True) (2, ''f'') = Some 4" using R(2) by simp
  from rmdir_refusals [OF R(1) this _ _ _ p f refl, of kKfsUserRoot 0 "''/f''"] show ?thesis by (simp add: sample_consts R(3) ENOTDIR_def)
qed

subsection \<open>Bit fields of the attributes\<close>

text \<open>The fields hold what their width allows.\<close>

definition fits :: "MetaFattr \<Rightarrow> bool" where
  "fits f \<longleftrightarrow> numReplicas f < 2 ^ 14 \<and> numRecoveryStripes f < 2 ^ 7 \<and> numStripes f < 2 ^ 9 \<and> stripeSize f < 2 ^ 27"

lemma bits_less: "bits w x < 2 ^ w"
proof -
  have "x mod 2 ^ w < 2 ^ w" by simp
  then show ?thesis by (simp add: bits_def nat_less_iff)
qed

lemma bits_same: "0 \<le> x \<Longrightarrow> x < 2 ^ 32 \<Longrightarrow> w \<le> 32 \<Longrightarrow> bits w x = bits 32 x \<longleftrightarrow> x < 2 ^ w"
proof
  assume a: "0 \<le> x" "x < 2 ^ 32" "w \<le> 32" "bits w x = bits 32 x"
  then have "int (bits w x) = x" by (simp add: bits_def)
  then show "x < 2 ^ w" using bits_less [of w x] by (metis of_nat_less_iff of_nat_numeral of_nat_power)
qed (simp add: bits_def)

text \<open>
  C25. The attributes stay within the widths of their bit fields: a new object fits, and
  setting the stripes or the replication of one that fits leaves one that fits.  Setting the
  stripes succeeds exactly for valid parameters that the fields can hold, and then the
  fields hold the parameters, not a truncation of them.
\<close>

theorem attributes_fit:
  assumes "fits f" "t \<noteq> KFS_STRIPED_FILE_TYPE_NONE" "n < 2 ^ 31" "nr < 2 ^ 31" "ss < 2 ^ 31"
  shows "fits (new_MetaFattr now ty i nrep u g m) \<and> fits (setReplication nrep f) \<and> fits (snd (SetStriped t n nr ss f)) \<and>
    (fst (SetStriped t n nr ss f) \<longleftrightarrow> ValidateStripeParameters t n nr ss \<and> n < 2 ^ 9 \<and> nr < 2 ^ 7 \<and> ss < 2 ^ 27) \<and>
    (fst (SetStriped t n nr ss f) \<longrightarrow> (let h = snd (SetStriped t n nr ss f) in
       striperType h = t \<and> int (numStripes h) = n \<and> int (numRecoveryStripes h) = nr \<and> int (stripeSize h) = ss))"
proof -
  have new: "fits (new_MetaFattr now ty i nrep u g m)" "fits (setReplication nrep f)" "fits (snd (SetStriped t n nr ss f))"
    using assms(1) bits_less [of 14 nrep] bits_less [of 9 n] bits_less [of 7 nr] bits_less [of 27 ss]
    by (auto simp: fits_def new_MetaFattr_def setReplication_def SetStriped_def Let_def)
  show ?thesis
  proof (cases "ValidateStripeParameters t n nr ss")
    case True
    then have pos: "0 \<le> n" "0 \<le> nr" "0 \<le> ss" using assms(2) by (auto simp: ValidateStripeParameters_def KFS_MIN_STRIPE_SIZE_def KFS_STRIPE_ALIGNMENT_def)
    have lt: "n < 2 ^ 32" "nr < 2 ^ 32" "ss < 2 ^ 32" using assms(3-5) by simp_all
    note S = bits_same [OF pos(1) lt(1), of 9] bits_same [OF pos(2) lt(2), of 7] bits_same [OF pos(3) lt(3), of 27]
    have val: "0 \<le> x \<Longrightarrow> x < 2 ^ w \<Longrightarrow> int (bits w x) = x" for x w by (simp add: bits_def)
    show ?thesis using new True S assms(2) pos val [of n 9] val [of nr 7] val [of ss 27] by (auto simp: SetStriped_def Let_def)
  next
    case False
    then show ?thesis using new assms(2) by (simp add: SetStriped_def)
  qed
qed

theorem attributes_fit_witness:
  "fst (SetStriped 2 6 3 65536 (new_MetaFattr 1 KFS_FILE 4 3 0 0 0)) \<and>
    \<not> fst (SetStriped 2 512 3 65536 (new_MetaFattr 1 KFS_FILE 4 3 0 0 0))"
proof -
  have f: "fits (new_MetaFattr 1 KFS_FILE 4 3 0 0 0)" by (simp add: fits_def new_MetaFattr_def bits_def)
  have t: "(2 :: int) \<noteq> KFS_STRIPED_FILE_TYPE_NONE" by (simp add: KFS_STRIPED_FILE_TYPE_NONE_def)
  have v: "ValidateStripeParameters 2 6 3 65536"
    by (simp add: ValidateStripeParameters_def KFS_STRIPED_FILE_TYPE_NONE_def KFS_STRIPED_FILE_TYPE_UNKNOWN_def
        KFS_STRIPED_FILE_TYPE_COUNT_def KFS_MIN_STRIPE_SIZE_def KFS_MAX_STRIPE_SIZE_def KFS_STRIPE_ALIGNMENT_def CHUNKSIZE_def)
  show ?thesis using attributes_fit [OF f t, of 6 3 65536 1 KFS_FILE 4 3 0 0 0] attributes_fit [OF f t, of 512 3 65536 1 KFS_FILE 4 3 0 0 0] v by simp
qed

end
