(* ===== verification/Spec2Isabelle.thy ===== *)
theory Spec2Isabelle
  imports ReedSolomon NsProperties
begin

text \<open>
  Verification development for QFS, a distributed file system: a metaserver keeps the name
  space and the chunk map in a B+ tree, chunk servers store chunks with per-block checksums,
  and the client library stripes files and protects the stripes with a Reed-Solomon code.

  \<^bold>\<open>Erasure code\<close> (src/cc/qcrs).  \<open>GF256\<close> models the field arithmetic and the logarithm
  and inverse tables of the table generator (mktable\_main.c), \<open>RSDefs\<close> the tables, the
  vector primitives (prim.h), the encoder (encode.c) and the decoders (decode.c).
  \<open>RSLanes\<close> gives the lane-wise meaning of the vector code, \<open>RSSyndrome\<close> the algebra,
  \<open>RSStripe\<close>, \<open>RSDecode\<close> and \<open>RSEncode\<close> the loops, \<open>ReedSolomon\<close> the entry points.
\<close>

end
